(* ===== verification/Prelude.thy ===== *)
theory Prelude
  imports Main "HOL-Library.Word" "HOL-Library.Sublist" "HOL-Library.Multiset"
begin

text \<open>
  Shared vocabulary of the development: the outcome types of Rust code, \<open>usize\<close> arithmetic
  under the two overflow regimes of a build, the codec and polling interfaces, the list lemmas
  the components use and the collections their facts are gathered in.

  \<^item> \<open>result\<close> is Rust's \<open>Result\<close>.
  \<^item> \<open>poll\<close> is the outcome of one call that may suspend: \<open>Ready\<close>, \<open>Pending\<close>, or
    \<open>Panicked\<close> when the call unwinds. The same type is the outcome of an \<open>async fn\<close> run
    against a finite script of the environment: there \<open>Pending\<close> means that the script ended
    while the future was still waiting.
  \<^item> \<open>usize\<close> values are natural numbers below \<open>2 ^ 64\<close> (a 64-bit target). An operation that
    leaves that range panics in a build with overflow checks and wraps in one without.
\<close>

named_theorems rust_defs \<open>definitions of the Rust standard library model that evaluate on literals\<close>

section \<open>Outcomes\<close>

datatype ('a, 'e) result = Ok 'a | Err 'e

datatype 'a poll = Ready 'a | Pending | Panicked

fun map_err :: "('e \<Rightarrow> 'f) \<Rightarrow> ('a, 'e) result \<Rightarrow> ('a, 'f) result" where
  "map_err f (Ok a) = Ok a"
| "map_err f (Err e) = Err (f e)"

fun is_ok :: "('a, 'e) result \<Rightarrow> bool" where
  "is_ok (Ok a) = True"
| "is_ok (Err e) = False"

fun ok :: "('a, 'e) result \<Rightarrow> 'a option" where
  "ok (Ok a) = Some a"
| "ok (Err e) = None"

fun ok_or :: "'a option \<Rightarrow> 'e \<Rightarrow> ('a, 'e) result" where
  "ok_or None e = Err e"
| "ok_or (Some a) e = Ok a"

fun and_then :: "('a, 'e) result \<Rightarrow> ('a \<Rightarrow> ('b, 'e) result) \<Rightarrow> ('b, 'e) result" where
  "and_then (Ok a) f = f a"
| "and_then (Err e) f = Err e"

fun await :: "('a, 'e) result poll \<Rightarrow> ('a \<Rightarrow> ('b, 'e) result poll) \<Rightarrow> ('b, 'e) result poll" where
  "await (Ready (Ok a)) f = f a"
| "await (Ready (Err e)) f = Ready (Err e)"
| "await Pending f = Pending"
| "await Panicked f = Panicked"

section \<open>Machine integers\<close>

type_synonym u8 = "8 word"
type_synonym u16 = "16 word"
type_synonym u32 = "32 word"
type_synonym usize = nat

datatype build = Debug | Release

definition usize_MAX :: usize where
  "usize_MAX = 2 ^ 64 - 1"

definition usize_sub :: "build \<Rightarrow> usize \<Rightarrow> usize \<Rightarrow> usize option" where
  "usize_sub b x y =
     (if y \<le> x then Some (x - y)
      else case b of Debug \<Rightarrow> None | Release \<Rightarrow> Some (x + 2 ^ 64 - y))"

definition usize_add :: "build \<Rightarrow> usize \<Rightarrow> usize \<Rightarrow> usize option" where
  "usize_add b x y =
     (if x + y \<le> usize_MAX then Some (x + y)
      else case b of Debug \<Rightarrow> None | Release \<Rightarrow> Some (x + y - 2 ^ 64))"

section \<open>Interfaces\<close>

text \<open>
  A codec is a printer and a parser that agree: the parser reads back what the printer wrote
  for every well-formed value, and yields well-formed values only. The URL, proxy, decimal
  and UTF-8 components are interpretations of it.
\<close>

locale codec =
  fixes enc :: "'a \<Rightarrow> 's"
    and dec :: "'s \<Rightarrow> 'a option"
    and wf :: "'a \<Rightarrow> bool"
  assumes dec_enc: "wf x \<Longrightarrow> dec (enc x) = Some x"
    and dec_wf: "dec s = Some x \<Longrightarrow> wf x"
begin

lemma enc_inject: "wf x \<Longrightarrow> wf y \<Longrightarrow> enc x = enc y \<longleftrightarrow> x = y"
  by (metis dec_enc option.inject)

lemma normalise: "dec s = Some x \<Longrightarrow> dec (enc x) = Some x"
  by (simp add: dec_enc dec_wf)

lemma dec_image: "(\<exists>s. dec s = Some x) \<longleftrightarrow> wf x"
  using dec_enc dec_wf by blast

end

text \<open>A canonical codec has one encoding per value, so decoding is injective too.\<close>

locale canonical_codec = codec +
  assumes enc_dec: "dec s = Some x \<Longrightarrow> enc x = s"
begin

lemma dec_Some_iff: "dec s = Some x \<longleftrightarrow> wf x \<and> s = enc x"
  using dec_enc dec_wf enc_dec by blast

lemma dec_inject: "dec s = Some x \<Longrightarrow> dec t = Some x \<Longrightarrow> s = t"
  by (simp add: dec_Some_iff)

end

section \<open>Lemmas\<close>

lemma is_ok_iff: "is_ok r \<longleftrightarrow> (\<exists>a. r = Ok a)"
  by (cases r) simp_all

lemma ok_Some_iff [simp]: "ok r = Some a \<longleftrightarrow> r = Ok a"
  by (cases r) simp_all

lemma ok_None_iff [simp]: "ok r = None \<longleftrightarrow> (\<exists>e. r = Err e)"
  by (cases r) simp_all

lemma map_err_Ok_iff [simp]: "map_err f r = Ok a \<longleftrightarrow> r = Ok a"
  by (cases r) simp_all

lemma map_err_Err_iff: "map_err f r = Err e \<longleftrightarrow> (\<exists>e'. r = Err e' \<and> e = f e')"
  by (cases r) auto

lemma await_Ready_Ok_iff:
  "await p f = Ready (Ok b) \<longleftrightarrow> (\<exists>a. p = Ready (Ok a) \<and> f a = Ready (Ok b))"
  by (cases "(p, f)" rule: await.cases) auto

lemma usize_sub_le [simp]: "y \<le> x \<Longrightarrow> usize_sub b x y = Some (x - y)"
  by (simp add: usize_sub_def)

lemma usize_sub_panics: "x < y \<Longrightarrow> usize_sub Debug x y = None"
  by (simp add: usize_sub_def)

lemma usize_sub_wraps: "x < y \<Longrightarrow> usize_sub Release x y = Some (x + 2 ^ 64 - y)"
  by (simp add: usize_sub_def)

lemma usize_add_le [simp]: "x + y \<le> usize_MAX \<Longrightarrow> usize_add b x y = Some (x + y)"
  by (simp add: usize_add_def)

lemma takeWhile_append_stop:
  "\<forall>x\<in>set xs. P x \<Longrightarrow> \<not> P y \<Longrightarrow> takeWhile P (xs @ y # ys) = xs"
  by (simp add: takeWhile_append2)

lemma dropWhile_append_stop:
  "\<forall>x\<in>set xs. P x \<Longrightarrow> \<not> P y \<Longrightarrow> dropWhile P (xs @ y # ys) = y # ys"
  by (simp add: dropWhile_append2)

lemma dropWhile_ConsD: "dropWhile P xs = y # ys \<Longrightarrow> \<not> P y \<and> xs = takeWhile P xs @ y # ys"
  by (metis hd_dropWhile list.sel(1) list.distinct(1) takeWhile_dropWhile_id)

lemma case_tail_map_option:
  "(case xs of [] \<Rightarrow> None | _ # t \<Rightarrow> Some (g t)) = map_option g (case xs of [] \<Rightarrow> None | _ # t \<Rightarrow> Some t)"
  by (cases xs) simp_all

lemma mset_eq_map_of:
  "mset xs = mset ys \<Longrightarrow> distinct (map fst ys) \<Longrightarrow> map_of xs = map_of ys"
  by (metis map_of_inject_set mset_eq_imp_distinct_iff mset_map set_mset_mset)

end
