(* ===== verification/Rust_Str.thy ===== *)
theory Rust_Str
  imports Prelude
begin

text \<open>
  The parts of Rust's string library the sources use. A \<open>char\<close> is its Unicode scalar value,
  a \<open>String\<close> or \<open>&str\<close> the list of its characters, a \<open>Vec<u8>\<close> or \<open>&[u8]\<close> a list of
  bytes. \<open>str ''...''\<close> writes an ASCII literal.

  The lower-casing function is exact where the sources can observe it: they compare its result
  with ASCII literals only, and the only characters whose lower-case mapping contains an ASCII
  character are the ASCII letters, U+0130 and U+212A. Every other character is left unchanged.
\<close>

type_synonym rchar = nat
type_synonym rstring = "rchar list"

definition str :: "string \<Rightarrow> rstring" where
  [rust_defs]: "str s = map of_char s"

abbreviation (input) ch :: "char \<Rightarrow> rchar" where
  "ch c \<equiv> of_char c"

abbreviation (input) CR :: rchar where
  "CR \<equiv> 13"

abbreviation (input) LF :: rchar where
  "LF \<equiv> 10"

abbreviation (input) crlf :: rstring where
  "crlf \<equiv> [13, 10]"

section \<open>UTF-8\<close>

definition is_scalar :: "rchar \<Rightarrow> bool" where
  "is_scalar c \<longleftrightarrow> c < 0xD800 \<or> (0xE000 \<le> c \<and> c < 0x110000)"

definition byte :: "nat \<Rightarrow> u8" where
  "byte n = of_nat n"

definition encode_utf8 :: "rchar \<Rightarrow> u8 list" where
  "encode_utf8 c =
     (if c < 0x80 then [byte c]
      else if c < 0x800 then [byte (0xC0 + c div 64), byte (0x80 + c mod 64)]
      else if c < 0x10000 then
        [byte (0xE0 + c div 4096), byte (0x80 + c div 64 mod 64), byte (0x80 + c mod 64)]
      else
        [byte (0xF0 + c div 262144), byte (0x80 + c div 4096 mod 64),
         byte (0x80 + c div 64 mod 64), byte (0x80 + c mod 64)])"

definition into_bytes :: "rstring \<Rightarrow> u8 list" where
  "into_bytes s = concat (map encode_utf8 s)"

definition len_bytes :: "rstring \<Rightarrow> usize" where
  "len_bytes s = length (into_bytes s)"

record utf8_error =
  valid_up_to :: usize
  error_len :: "usize option"

datatype utf8_step = Scalar rchar "u8 list" | Invalid nat "u8 list" | Truncated

definition is_cont :: "u8 \<Rightarrow> bool" where
  "is_cont b \<longleftrightarrow> 0x80 \<le> unat b \<and> unat b \<le> 0xBF"

definition second_ok :: "u8 \<Rightarrow> u8 \<Rightarrow> bool" where
  "second_ok a b \<longleftrightarrow>
     (if unat a = 0xE0 then 0xA0 \<le> unat b \<and> unat b \<le> 0xBF
      else if unat a = 0xED then 0x80 \<le> unat b \<and> unat b \<le> 0x9F
      else if unat a = 0xF0 then 0x90 \<le> unat b \<and> unat b \<le> 0xBF
      else if unat a = 0xF4 then 0x80 \<le> unat b \<and> unat b \<le> 0x8F
      else is_cont b)"

fun utf8_next :: "u8 list \<Rightarrow> utf8_step" where
  "utf8_next [] = Truncated"
| "utf8_next (a # r) =
     (if unat a < 0x80 then Scalar (unat a) r
      else if 0xC2 \<le> unat a \<and> unat a \<le> 0xDF then
        (case r of [] \<Rightarrow> Truncated
         | b # r1 \<Rightarrow> if \<not> second_ok a b then Invalid 1 r
             else Scalar ((unat a - 0xC0) * 64 + (unat b - 0x80)) r1)
      else if 0xE0 \<le> unat a \<and> unat a \<le> 0xEF then
        (case r of [] \<Rightarrow> Truncated
         | b # r1 \<Rightarrow> if \<not> second_ok a b then Invalid 1 r
             else (case r1 of [] \<Rightarrow> Truncated
               | c # r2 \<Rightarrow> if \<not> is_cont c then Invalid 2 r1
                   else Scalar ((unat a - 0xE0) * 4096 + (unat b - 0x80) * 64 + (unat c - 0x80)) r2))
      else if 0xF0 \<le> unat a \<and> unat a \<le> 0xF4 then
        (case r of [] \<Rightarrow> Truncated
         | b # r1 \<Rightarrow> if \<not> second_ok a b then Invalid 1 r
             else (case r1 of [] \<Rightarrow> Truncated
               | c # r2 \<Rightarrow> if \<not> is_cont c then Invalid 2 r1
                   else (case r2 of [] \<Rightarrow> Truncated
                     | d # r3 \<Rightarrow> if \<not> is_cont d then Invalid 3 r2
                         else Scalar ((unat a - 0xF0) * 262144 + (unat b - 0x80) * 4096
                                + (unat c - 0x80) * 64 + (unat d - 0x80)) r3)))
      else Invalid 1 r)"

lemma utf8_next_shrinks:
  "utf8_next bs = Scalar c r \<Longrightarrow> length r < length bs"
  "utf8_next bs = Invalid n r \<Longrightarrow> length r < length bs"
  by (cases bs; auto split: if_splits list.splits)+

function from_utf8_at :: "usize \<Rightarrow> u8 list \<Rightarrow> (rstring, utf8_error) result" where
  "from_utf8_at i bs =
     (if bs = [] then Ok []
      else case utf8_next bs of
        Scalar c r \<Rightarrow>
          (case from_utf8_at (i + (length bs - length r)) r of
             Ok s \<Rightarrow> Ok (c # s) | Err e \<Rightarrow> Err e)
      | Invalid n r \<Rightarrow> Err \<lparr>valid_up_to = i, error_len = Some n\<rparr>
      | Truncated \<Rightarrow> Err \<lparr>valid_up_to = i, error_len = None\<rparr>)"
  by pat_completeness auto
termination
  by (relation "measure (\<lambda>(i, bs). length bs)") (auto simp: utf8_next_shrinks)

declare from_utf8_at.simps [simp del]

definition from_utf8 :: "u8 list \<Rightarrow> (rstring, utf8_error) result" where
  "from_utf8 bs = from_utf8_at 0 bs"

function from_utf8_lossy :: "u8 list \<Rightarrow> rstring" where
  "from_utf8_lossy bs =
     (if bs = [] then []
      else case utf8_next bs of
        Scalar c r \<Rightarrow> c # from_utf8_lossy r
      | Invalid n r \<Rightarrow> 0xFFFD # from_utf8_lossy r
      | Truncated \<Rightarrow> [0xFFFD])"
  by pat_completeness auto
termination
  by (relation "measure length") (auto simp: utf8_next_shrinks)

declare from_utf8_lossy.simps [simp del]

section \<open>Characters and searching\<close>

definition is_ascii :: "rstring \<Rightarrow> bool" where
  "is_ascii s \<longleftrightarrow> (\<forall>c\<in>set s. c < 128)"

definition is_whitespace :: "rchar \<Rightarrow> bool" where
  "is_whitespace c \<longleftrightarrow>
     (9 \<le> c \<and> c \<le> 13) \<or> c = 32 \<or> c = 0x85 \<or> c = 0xA0 \<or> c = 0x1680
     \<or> (0x2000 \<le> c \<and> c \<le> 0x200A) \<or> c = 0x2028 \<or> c = 0x2029 \<or> c = 0x202F
     \<or> c = 0x205F \<or> c = 0x3000"

definition trim :: "rstring \<Rightarrow> rstring" where
  "trim s = rev (dropWhile is_whitespace (rev (dropWhile is_whitespace s)))"

definition ascii_lower :: "rchar \<Rightarrow> rchar" where
  "ascii_lower c = (if 65 \<le> c \<and> c \<le> 90 then c + 32 else c)"

definition make_ascii_lowercase :: "rstring \<Rightarrow> rstring" where
  "make_ascii_lowercase s = map ascii_lower s"

definition char_lowercase :: "rchar \<Rightarrow> rstring" where
  "char_lowercase c =
     (if c = 0x130 then [105, 0x307] else if c = 0x212A then [107] else [ascii_lower c])"

definition to_lowercase :: "rstring \<Rightarrow> rstring" where
  "to_lowercase s = concat (map char_lowercase s)"

definition strip_prefix :: "rstring \<Rightarrow> rstring \<Rightarrow> rstring option" where
  "strip_prefix p s = (if take (length p) s = p then Some (drop (length p) s) else None)"

fun split_first :: "rstring \<Rightarrow> rstring \<Rightarrow> (rstring \<times> rstring) option" where
  "split_first p [] = (if p = [] then Some ([], []) else None)"
| "split_first p (c # s) =
     (case strip_prefix p (c # s) of
        Some r \<Rightarrow> Some ([], r)
      | None \<Rightarrow> (case split_first p s of None \<Rightarrow> None | Some (a, b) \<Rightarrow> Some (c # a, b)))"

definition split_last :: "rstring \<Rightarrow> rstring \<Rightarrow> (rstring \<times> rstring) option" where
  "split_last p s =
     (case split_first (rev p) (rev s) of None \<Rightarrow> None | Some (b, a) \<Rightarrow> Some (rev a, rev b))"

definition contains :: "rstring \<Rightarrow> rstring \<Rightarrow> bool" where
  "contains s p \<longleftrightarrow> split_first p s \<noteq> None"

fun split_char :: "rchar \<Rightarrow> rstring \<Rightarrow> rstring list" where
  "split_char d [] = [[]]"
| "split_char d (c # s) =
     (if c = d then [] # split_char d s
      else case split_char d s of [] \<Rightarrow> [[c]] | w # ws \<Rightarrow> (c # w) # ws)"

function split_whitespace :: "rstring \<Rightarrow> rstring list" where
  "split_whitespace [] = []"
| "split_whitespace (c # s) =
     (if is_whitespace c then split_whitespace s
      else (c # takeWhile (\<lambda>d. \<not> is_whitespace d) s)
           # split_whitespace (dropWhile (\<lambda>d. \<not> is_whitespace d) s))"
  by pat_completeness auto
termination
  by (relation "measure length") (auto simp: length_dropWhile_le le_imp_less_Suc)

definition first_line :: "rstring \<Rightarrow> rstring option" where
  "first_line s =
     (if s = [] then None
      else let l = takeWhile (\<lambda>c. c \<noteq> LF) s in
        if l \<noteq> s \<and> l \<noteq> [] \<and> last l = CR then Some (butlast l) else Some l)"

section \<open>Numbers\<close>

definition to_digit :: "nat \<Rightarrow> rchar \<Rightarrow> nat option" where
  "to_digit radix c =
     (let d = (if 48 \<le> c \<and> c \<le> 57 then Some (c - 48)
               else if 97 \<le> c \<and> c \<le> 122 then Some (c - 87)
               else if 65 \<le> c \<and> c \<le> 90 then Some (c - 55) else None)
      in case d of None \<Rightarrow> None | Some n \<Rightarrow> if n < radix then Some n else None)"

fun digits_val :: "nat \<Rightarrow> nat \<Rightarrow> rstring \<Rightarrow> nat option" where
  "digits_val radix acc [] = Some acc"
| "digits_val radix acc (c # s) =
     (case to_digit radix c of None \<Rightarrow> None | Some d \<Rightarrow> digits_val radix (acc * radix + d) s)"

definition parse_digits :: "nat \<Rightarrow> rstring \<Rightarrow> nat option" where
  "parse_digits radix s = (if s = [] then None else digits_val radix 0 s)"

definition parse_uint :: "nat \<Rightarrow> nat \<Rightarrow> rstring \<Rightarrow> nat option" where
  "parse_uint radix mx s =
     (case parse_digits radix (case s of [] \<Rightarrow> [] | c # r \<Rightarrow> if c = ch CHR ''+'' then r else s) of
        None \<Rightarrow> None
      | Some n \<Rightarrow> if n \<le> mx then Some n else None)"

definition parse_i32 :: "rstring \<Rightarrow> int option" where
  "parse_i32 s =
     (case s of
        [] \<Rightarrow> None
      | c # r \<Rightarrow>
          if c = ch CHR ''-'' then
            (case parse_digits 10 r of None \<Rightarrow> None
             | Some n \<Rightarrow> if n \<le> 2 ^ 31 then Some (- int n) else None)
          else map_option int (parse_uint 10 (2 ^ 31 - 1) s))"

fun show_nat :: "nat \<Rightarrow> rstring" where
  "show_nat n = (if n < 10 then [48 + n] else show_nat (n div 10) @ [48 + n mod 10])"

declare show_nat.simps [simp del]

section \<open>Lemmas: UTF-8 is a canonical codec\<close>

lemma unat_byte [simp]: "n < 256 \<Longrightarrow> unat (byte n) = n"
  by (simp add: byte_def unsigned_of_nat take_bit_nat_eq_self)

lemma byte_unat [simp]: "byte (unat b) = b"
  by (simp add: byte_def)

lemma byte_eqI: "n = unat b \<Longrightarrow> byte n = b"
  by simp

lemma unat_u8_less [simp]: "unat (b :: u8) < 256"
  using unsigned_less [where 'a = nat, of b] by simp

lemma unat_u8_div16 [simp]: "unat (b :: u8) div 16 < 16"
  using unat_u8_less [of b] by (simp add: less_mult_imp_div_less)

lemma digits64_3: "(c::nat) = c div 4096 * 4096 + c div 64 mod 64 * 64 + c mod 64"
proof -
  have "c = c div 64 * 64 + c mod 64" by simp
  moreover have "c div 64 = c div 64 div 64 * 64 + c div 64 mod 64" by simp
  moreover have "c div 64 div 64 = c div 4096" by (simp add: div_mult2_eq [symmetric])
  ultimately show ?thesis by linarith
qed

lemma digits64_4:
  "(c::nat) = c div 262144 * 262144 + c div 4096 mod 64 * 4096 + c div 64 mod 64 * 64 + c mod 64"
proof -
  have "c div 4096 = c div 4096 div 64 * 64 + c div 4096 mod 64" by simp
  moreover have "c div 4096 div 64 = c div 262144" by (simp add: div_mult2_eq [symmetric])
  ultimately show ?thesis using digits64_3 [of c] by linarith
qed

lemma utf8_next_encode:
  assumes "is_scalar c"
  shows "utf8_next (encode_utf8 c @ r) = Scalar c r"
proof -
  have m: "c mod 64 < 64" "c div 64 mod 64 < 64" "c div 4096 mod 64 < 64" by simp_all
  consider "c < 0x80" | "0x80 \<le> c" "c < 0x800" | "0x800 \<le> c" "c < 0x10000" | "0x10000 \<le> c" "c < 0x110000"
    using assms unfolding is_scalar_def by linarith
  then show ?thesis
  proof cases
    case 1
    then show ?thesis by (simp add: encode_utf8_def)
  next
    case 2
    then have "c div 64 < 32" "2 \<le> c div 64" by auto
    with 2 m show ?thesis
      by (simp add: encode_utf8_def second_ok_def is_cont_def)
  next
    case 3
    define h k l where hkl: "h = c div 4096" "k = c div 64 mod 64" "l = c mod 64"
    have c: "c = h * 4096 + k * 64 + l" "k < 64" "l < 64" "h < 16"
      using 3 digits64_3 [of c] m unfolding hkl by auto
    have "second_ok (byte (0xE0 + h)) (byte (0x80 + k))"
      using 3 c(2-4) assms unfolding second_ok_def is_cont_def is_scalar_def
      by (simp add: c(1)) linarith
    with 3 c show ?thesis
      unfolding encode_utf8_def hkl [symmetric] by (simp add: is_cont_def)
  next
    case 4
    define g h k l where ghkl: "g = c div 262144" "h = c div 4096 mod 64" "k = c div 64 mod 64" "l = c mod 64"
    have c: "c = g * 262144 + h * 4096 + k * 64 + l" "h < 64" "k < 64" "l < 64" "g < 5"
      using 4 digits64_4 [of c] m unfolding ghkl by auto
    have "second_ok (byte (0xF0 + g)) (byte (0x80 + h))"
      using 4 c(2-5) unfolding second_ok_def is_cont_def by (simp add: c(1))
    with 4 c show ?thesis
      unfolding encode_utf8_def ghkl [symmetric] by (simp add: is_cont_def)
  qed
qed

lemma divmod_cancel:
  fixes p q n :: nat
  assumes "q < n"
  shows "(p * n + q) div n = p" "(p * n + q) mod n = q"
  using assms by simp_all

lemma undigits64_3:
  fixes x y z :: nat
  assumes "y < 64" "z < 64"
  shows "(x * 4096 + y * 64 + z) div 4096 = x"
    and "(x * 4096 + y * 64 + z) div 64 mod 64 = y"
    and "(x * 4096 + y * 64 + z) mod 64 = z"
proof -
  have e: "x * 4096 + y * 64 + z = (x * 64 + y) * 64 + z" by simp
  have d: "(x * 4096 + y * 64 + z) div 64 = x * 64 + y"
    unfolding e using assms by (simp only: divmod_cancel)
  show "(x * 4096 + y * 64 + z) mod 64 = z"
    unfolding e using assms by (simp only: divmod_cancel)
  show "(x * 4096 + y * 64 + z) div 64 mod 64 = y"
    unfolding d using assms by (simp only: divmod_cancel)
  have "(x * 4096 + y * 64 + z) div 4096 = (x * 4096 + y * 64 + z) div 64 div 64"
    by (simp add: div_mult2_eq [symmetric])
  then show "(x * 4096 + y * 64 + z) div 4096 = x"
    unfolding d using assms by (simp only: divmod_cancel)
qed

lemma undigits64_4:
  fixes x y z w :: nat
  assumes "y < 64" "z < 64" "w < 64"
  shows "(x * 262144 + y * 4096 + z * 64 + w) div 262144 = x"
    and "(x * 262144 + y * 4096 + z * 64 + w) div 4096 mod 64 = y"
    and "(x * 262144 + y * 4096 + z * 64 + w) div 64 mod 64 = z"
    and "(x * 262144 + y * 4096 + z * 64 + w) mod 64 = w"
proof -
  let ?c = "x * 262144 + y * 4096 + z * 64 + w"
  have e: "?c = (x * 64 + y) * 4096 + z * 64 + w" by simp
  have d: "?c div 4096 = x * 64 + y"
    unfolding e using assms by (simp only: undigits64_3)
  show "?c div 64 mod 64 = z" "?c mod 64 = w"
    unfolding e using assms by (simp_all only: undigits64_3)
  show "?c div 4096 mod 64 = y"
    unfolding d using assms by (simp only: divmod_cancel)
  have "?c div 262144 = ?c div 4096 div 64"
    by (simp add: div_mult2_eq [symmetric])
  then show "?c div 262144 = x"
    unfolding d using assms by (simp only: divmod_cancel)
qed

lemma second_ok_cont: "second_ok a b \<Longrightarrow> is_cont b"
  unfolding second_ok_def is_cont_def by (auto split: if_splits)

lemma is_contE:
  assumes "is_cont b"
  obtains y where "b = byte (0x80 + y)" "y < 64"
proof
  show "b = byte (0x80 + (unat b - 0x80))" "unat b - 0x80 < 64"
    using assms by (auto simp: is_cont_def)
qed

lemma byte_baseE:
  assumes "n \<le> unat a" "unat a < n + m" 
  obtains x where "a = byte (n + x)" "x < m" "n + x < 256"
proof
  show "a = byte (n + (unat a - n))" "unat a - n < m" "n + (unat a - n) < 256"
    using assms by auto
qed

lemma encode_decoded_2:
  assumes a: "0xC2 \<le> unat a" "unat a \<le> 0xDF" and b: "is_cont b"
    and c: "c = (unat a - 0xC0) * 64 + (unat b - 0x80)"
  shows "is_scalar c \<and> encode_utf8 c = [a, b]"
proof -
  obtain x where x: "a = byte (0xC0 + x)" "x < 32"
    using a by (auto intro: byte_baseE [of "0xC0" a 32])
  obtain y where y: "b = byte (0x80 + y)" "y < 64" using b by (rule is_contE)
  have cc: "c = x * 64 + y" and "2 \<le> x" using x y a c by simp_all
  with x y show ?thesis
    by (auto simp: is_scalar_def encode_utf8_def divmod_cancel)
qed

lemma encode_decoded_3:
  assumes a: "0xE0 \<le> unat a" "unat a \<le> 0xEF" and b: "second_ok a b" and d: "is_cont d"
    and c: "c = (unat a - 0xE0) * 4096 + (unat b - 0x80) * 64 + (unat d - 0x80)"
  shows "is_scalar c \<and> encode_utf8 c = [a, b, d]"
proof -
  obtain x where x: "a = byte (0xE0 + x)" "x < 16"
    using a by (auto intro: byte_baseE [of "0xE0" a 16])
  obtain y where y: "b = byte (0x80 + y)" "y < 64"
    using b by (auto intro: is_contE dest: second_ok_cont)
  obtain z where z: "d = byte (0x80 + z)" "z < 64" using d by (rule is_contE)
  have cc: "c = x * 4096 + y * 64 + z" using x y z c by simp
  have r: "0x800 \<le> c" "c < 0x10000" "is_scalar c"
    using b x y z unfolding cc second_ok_def is_scalar_def by (auto split: if_splits)
  then have "encode_utf8 c = [byte (0xE0 + x), byte (0x80 + y), byte (0x80 + z)]"
    unfolding encode_utf8_def using y z by (simp add: cc undigits64_3)
  with r(3) x y z show ?thesis by simp
qed

lemma encode_decoded_4:
  assumes a: "0xF0 \<le> unat a" "unat a \<le> 0xF4" and b: "second_ok a b"
    and d: "is_cont d" and e: "is_cont e"
    and c: "c = (unat a - 0xF0) * 262144 + (unat b - 0x80) * 4096 + (unat d - 0x80) * 64 + (unat e - 0x80)"
  shows "is_scalar c \<and> encode_utf8 c = [a, b, d, e]"
proof -
  obtain x where x: "a = byte (0xF0 + x)" "x < 5"
    using a by (auto intro: byte_baseE [of "0xF0" a 5])
  obtain y where y: "b = byte (0x80 + y)" "y < 64"
    using b by (auto intro: is_contE dest: second_ok_cont)
  obtain z where z: "d = byte (0x80 + z)" "z < 64" using d by (rule is_contE)
  obtain w where w: "e = byte (0x80 + w)" "w < 64" using e by (rule is_contE)
  have cc: "c = x * 262144 + y * 4096 + z * 64 + w" using x y z w c by simp
  have r: "0x10000 \<le> c" "is_scalar c"
    using b x y z w unfolding cc second_ok_def is_scalar_def by (auto split: if_splits)
  then have "encode_utf8 c = [byte (0xF0 + x), byte (0x80 + y), byte (0x80 + z), byte (0x80 + w)]"
    unfolding encode_utf8_def using y z w by (simp add: cc undigits64_4)
  with r(2) x y z w show ?thesis by simp
qed

lemma utf8_next_Scalar:
  assumes "utf8_next bs = Scalar c r"
  shows "is_scalar c \<and> bs = encode_utf8 c @ r"
proof (cases bs)
  case Nil
  then show ?thesis using assms by simp
next
  case (Cons a s)
  from assms consider (one) "unat a < 0x80" "c = unat a" "r = s"
    | (two) b where "0xC2 \<le> unat a" "unat a \<le> 0xDF" "is_cont b" "s = b # r"
        "c = (unat a - 0xC0) * 64 + (unat b - 0x80)"
    | (three) b d where "0xE0 \<le> unat a" "unat a \<le> 0xEF" "second_ok a b" "is_cont d"
        "s = b # d # r" "c = (unat a - 0xE0) * 4096 + (unat b - 0x80) * 64 + (unat d - 0x80)"
    | (four) b d e where "0xF0 \<le> unat a" "unat a \<le> 0xF4" "second_ok a b" "is_cont d" "is_cont e"
        "s = b # d # e # r"
        "c = (unat a - 0xF0) * 262144 + (unat b - 0x80) * 4096 + (unat d - 0x80) * 64 + (unat e - 0x80)"
    unfolding Cons by (auto simp: second_ok_cont split: if_splits list.splits)
  then show ?thesis
  proof cases
    case one
    then show ?thesis by (simp add: Cons is_scalar_def encode_utf8_def)
  next
    case two
    then show ?thesis using encode_decoded_2 by (simp add: Cons)
  next
    case three
    then show ?thesis using encode_decoded_3 by (simp add: Cons)
  next
    case four
    then show ?thesis using encode_decoded_4 by (simp add: Cons)
  qed
qed

lemma encode_utf8_nonempty [simp]: "encode_utf8 c \<noteq> []"
  by (simp add: encode_utf8_def)

lemma into_bytes_simps [simp]:
  "into_bytes [] = []" "into_bytes (c # s) = encode_utf8 c @ into_bytes s"
  "into_bytes (s @ t) = into_bytes s @ into_bytes t"
  by (simp_all add: into_bytes_def)

lemma from_utf8_at_into_bytes: "\<forall>c\<in>set s. is_scalar c \<Longrightarrow> from_utf8_at i (into_bytes s) = Ok s"
proof (induction s arbitrary: i)
  case Nil
  show ?case by (simp add: from_utf8_at.simps)
next
  case (Cons c s)
  then show ?case
    by (subst from_utf8_at.simps) (simp add: utf8_next_encode)
qed

lemma from_utf8_at_Ok:
  "from_utf8_at i bs = Ok s \<Longrightarrow> (\<forall>c\<in>set s. is_scalar c) \<and> into_bytes s = bs"
proof (induction i bs arbitrary: s rule: from_utf8_at.induct)
  case (1 i bs)
  show ?case
  proof (cases "bs = []")
    case True
    then show ?thesis using "1.prems" by (simp add: from_utf8_at.simps)
  next
    case False
    with "1.prems" obtain c r s' where n: "utf8_next bs = Scalar c r"
      and r: "from_utf8_at (i + (length bs - length r)) r = Ok s'" and s: "s = c # s'"
      by (subst (asm) from_utf8_at.simps) (auto split: utf8_step.splits result.splits)
    have "(\<forall>c\<in>set s'. is_scalar c) \<and> into_bytes s' = r"
      using "1.IH" False n r by blast
    then show ?thesis using utf8_next_Scalar [OF n] s by simp
  qed
qed

interpretation utf8: canonical_codec into_bytes "\<lambda>bs. ok (from_utf8 bs)" "\<lambda>s. \<forall>c\<in>set s. is_scalar c"
proof unfold_locales
  fix s :: rstring
  assume "\<forall>c\<in>set s. is_scalar c"
  then show "ok (from_utf8 (into_bytes s)) = Some s"
    by (simp add: from_utf8_def from_utf8_at_into_bytes)
next
  fix bs s
  assume "ok (from_utf8 bs) = Some s"
  then have "(\<forall>c\<in>set s. is_scalar c) \<and> into_bytes s = bs"
    by (auto simp: from_utf8_def dest: from_utf8_at_Ok)
  then show "\<forall>c\<in>set s. is_scalar c" "into_bytes s = bs" by simp_all
qed

lemma from_utf8_Ok_iff: "from_utf8 bs = Ok s \<longleftrightarrow> (\<forall>c\<in>set s. is_scalar c) \<and> bs = into_bytes s"
  using utf8.dec_Some_iff [of bs s] by simp

lemma str_inject [simp]: "str s = str t \<longleftrightarrow> s = t"
  unfolding str_def by (rule inj_map_eq_map) (metis char_of_char injI)

lemma str_simps: "str [] = []" "str (c # s) = of_char c # str s" "str (s @ t) = str s @ str t"
  by (simp_all add: str_def)

lemma ascii_scalar [simp]: "c < 128 \<Longrightarrow> is_scalar c"
  by (simp add: is_scalar_def)

lemma is_ascii_simps [simp]:
  "is_ascii []" "is_ascii (c # s) \<longleftrightarrow> c < 128 \<and> is_ascii s"
  "is_ascii (s @ t) \<longleftrightarrow> is_ascii s \<and> is_ascii t"
  by (auto simp: is_ascii_def)

lemma into_bytes_ascii: "is_ascii s \<Longrightarrow> into_bytes s = map byte s"
  by (induction s) (simp_all add: encode_utf8_def)

lemma len_bytes_ascii: "is_ascii s \<Longrightarrow> len_bytes s = length s"
  by (simp add: len_bytes_def into_bytes_ascii)

lemma length_le_len_bytes: "length s \<le> len_bytes s"
  by (induction s) (auto simp: len_bytes_def encode_utf8_def)

section \<open>Lemmas: splitting\<close>

lemma strip_prefix_Some: "strip_prefix p s = Some r \<longleftrightarrow> s = p @ r"
  unfolding strip_prefix_def by (metis append_eq_conv_conj append_take_drop_id option.inject option.simps(3))

lemma strip_prefix_append [simp]: "strip_prefix p (p @ r) = Some r"
  by (simp add: strip_prefix_def)

lemma split_first_Some: "split_first p s = Some (a, b) \<Longrightarrow> s = a @ p @ b"
  by (induction p s arbitrary: a b rule: split_first.induct)
    (auto simp: strip_prefix_Some split: if_splits option.splits)

lemma split_first_None: "split_first p s = None \<longleftrightarrow> \<not> sublist p s"
proof (induction p s rule: split_first.induct)
  case (1 p)
  then show ?case by simp
next
  case (2 p c s)
  show ?case
  proof (cases "strip_prefix p (c # s)")
    case None
    then have "\<not> prefix p (c # s)"
      by (metis prefix_def strip_prefix_append option.simps(3))
    with None "2.IH" show ?thesis
      by (auto simp: sublist_Cons_right split: option.splits)
  next
    case (Some r)
    then have "prefix p (c # s)" by (metis prefixI strip_prefix_Some)
    with Some show ?thesis by (simp add: sublist_Cons_right)
  qed
qed

lemma contains_sublist: "contains s p \<longleftrightarrow> sublist p s"
  by (simp add: contains_def split_first_None)

lemma split_first_char: "c \<notin> set a \<Longrightarrow> split_first [c] (a @ c # b) = Some (a, b)"
  by (induction a) (auto simp: strip_prefix_def)

lemma split_first_char_None: "split_first [c] s = None \<longleftrightarrow> c \<notin> set s"
  by (induction s) (auto simp: strip_prefix_def split: option.splits)

lemma split_first_char_Some:
  "split_first [c] s = Some (a, b) \<Longrightarrow> s = a @ c # b \<and> c \<notin> set a"
  by (induction s arbitrary: a b) (auto simp: strip_prefix_def split: option.splits if_splits)

lemma split_last_char: "c \<notin> set b \<Longrightarrow> split_last [c] (a @ c # b) = Some (a, b)"
  using split_first_char [of c "rev b" "rev a"] by (simp add: split_last_def)

lemma split_last_char_None: "split_last [c] s = None \<longleftrightarrow> c \<notin> set s"
  using split_first_char_None [of c "rev s"]
  by (cases "split_first [c] (rev s)") (auto simp: split_last_def)

lemma split_last_char_Some:
  "split_last [c] s = Some (a, b) \<Longrightarrow> s = a @ c # b \<and> c \<notin> set b"
proof -
  assume "split_last [c] s = Some (a, b)"
  then have "split_first [c] (rev s) = Some (rev b, rev a)"
    by (auto simp: split_last_def split: option.splits)
  then have "rev s = rev b @ c # rev a \<and> c \<notin> set (rev b)"
    by (rule split_first_char_Some)
  then show ?thesis by (metis append.assoc append_Cons append_Nil rev.simps(2) rev_append rev_rev_ident set_rev)
qed

lemma contains_char: "contains s [c] \<longleftrightarrow> c \<in> set s"
  by (simp add: contains_def split_first_char_None)

section \<open>Lemmas: numbers\<close>

lemma digits_val_append:
  "digits_val r acc (s @ t) = (case digits_val r acc s of None \<Rightarrow> None | Some n \<Rightarrow> digits_val r n t)"
  by (induction s arbitrary: acc) (auto split: option.splits)

lemma to_digit_dec [simp]: "n < 10 \<Longrightarrow> to_digit 10 (48 + n) = Some n"
  by (simp add: to_digit_def)

lemma show_nat_nonempty [simp]: "show_nat n \<noteq> []"
  by (subst show_nat.simps) simp

lemma digits_val_show_nat: "digits_val 10 0 (show_nat n) = Some n"
proof (induction n rule: show_nat.induct)
  case (1 n)
  show ?case
  proof (cases "n < 10")
    case True
    then show ?thesis by (subst show_nat.simps) (simp add: to_digit_def)
  next
    case False
    with 1 have "digits_val 10 0 (show_nat (n div 10)) = Some (n div 10)" by simp
    with False show ?thesis
      by (subst show_nat.simps) (simp add: digits_val_append to_digit_def)
  qed
qed

lemma show_nat_digits: "c \<in> set (show_nat n) \<Longrightarrow> 48 \<le> c \<and> c \<le> 57"
proof (induction n rule: show_nat.induct)
  case (1 n)
  show ?case
  proof (cases "n < 10")
    case True
    then show ?thesis using "1.prems" by (subst (asm) show_nat.simps) simp
  next
    case False
    from False "1.prems" have "c \<in> set (show_nat (n div 10)) \<or> c = 48 + n mod 10"
      by (subst (asm) show_nat.simps) auto
    then show ?thesis using "1.IH" False by auto
  qed
qed

lemma parse_uint_show_nat: "n \<le> mx \<Longrightarrow> parse_uint 10 mx (show_nat n) = Some n"
proof -
  assume "n \<le> mx"
  obtain c r where s: "show_nat n = c # r" by (cases "show_nat n") auto
  then have "c \<noteq> 43" using show_nat_digits [of c n] by auto
  then show ?thesis
    using \<open>n \<le> mx\<close> digits_val_show_nat [of n]
    by (simp add: parse_uint_def parse_digits_def s)
qed

lemma parse_uint_bound: "parse_uint r mx s = Some n \<Longrightarrow> n \<le> mx"
  by (auto simp: parse_uint_def split: option.splits if_splits)

interpretation decimal: codec show_nat "parse_uint 10 mx" "\<lambda>n. n \<le> mx"
  by unfold_locales (simp_all add: parse_uint_show_nat parse_uint_bound)

lemma show_nat_ascii [simp]: "is_ascii (show_nat n)"
  by (auto simp: is_ascii_def dest: show_nat_digits)

lemmas [rust_defs] = is_whitespace_def trim_def ascii_lower_def make_ascii_lowercase_def char_lowercase_def
  to_lowercase_def strip_prefix_def contains_def to_digit_def parse_digits_def parse_uint_def

end
