(* ===== verification/Build_Config.thy ===== *)
theory Build_Config
  imports Rust_Str
begin

text \<open>
  What varies between builds of the crate: the Cargo features the sources test with \<open>cfg\<close>,
  the overflow regime of the profile, and the build script \<open>build.rs\<close> that turns the OpenSSL
  version variables into the \<open>have_min_max_version\<close> flag. Definitions whose source is under a
  \<open>cfg\<close> take the configuration as an argument, so one model covers every build.
\<close>

datatype tls_backend = Rustls | NativeTls

record cfg =
  feat_urlencoding :: bool
  feat_punycode :: bool
  feat_proxy :: bool
  feat_tls :: "tls_backend option"
  feat_manual_roots :: bool
  feat_rustls_probe :: bool
  have_min_max_version :: bool
  profile :: build

type_synonym environment = "rstring \<Rightarrow> rstring option"

definition version_line :: "nat \<Rightarrow> rstring option \<Rightarrow> rstring list option" where
  "version_line least var =
     (case var of
        None \<Rightarrow> Some []
      | Some v \<Rightarrow>
          (case parse_uint 16 (2 ^ 64 - 1) v of
             None \<Rightarrow> None
           | Some version \<Rightarrow>
               if least \<le> version then Some [str ''cargo:rustc-cfg=have_min_max_version'']
               else Some []))"

definition build_main :: "environment \<Rightarrow> rstring list poll" where
  "build_main env =
     (case version_line 0x10100000 (env (str ''DEP_OPENSSL_VERSION_NUMBER'')) of
        None \<Rightarrow> Panicked
      | Some out1 \<Rightarrow>
          (case version_line 0x20601000 (env (str ''DEP_OPENSSL_LIBRESSL_VERSION_NUMBER'')) of
             None \<Rightarrow> Panicked
           | Some out2 \<Rightarrow> Ready (out1 @ out2)))"

definition flag_set :: "rstring list \<Rightarrow> bool" where
  "flag_set out \<longleftrightarrow> str ''cargo:rustc-cfg=have_min_max_version'' \<in> set out"

lemma version_line_None: "version_line n var = None \<longleftrightarrow> (\<exists>v. var = Some v \<and> parse_uint 16 (2 ^ 64 - 1) v = None)"
  by (auto simp: version_line_def split: option.splits)

lemma version_line_flag:
  "version_line n var = Some out \<Longrightarrow>
     flag_set out \<longleftrightarrow> (\<exists>v k. var = Some v \<and> parse_uint 16 (2 ^ 64 - 1) v = Some k \<and> n \<le> k)"
  by (auto simp: version_line_def flag_set_def split: option.splits if_splits)

lemma flag_set_append: "flag_set (a @ b) \<longleftrightarrow> flag_set a \<or> flag_set b"
  by (auto simp: flag_set_def)

end
