(* ===== verification/Errors.thy ===== *)
theory Errors
  imports Build_Config
begin

text \<open>
  \<open>error.rs\<close>: the crate's error type with its \<open>Display\<close>, \<open>source\<close> and \<open>From\<close>
  implementations. \<open>io::Error\<close> is its kind and its displayed message; the errors of the
  crates \<open>serde_json\<close> and \<open>rustls\<close>, which the sources only pass on, are represented by
  their displayed message.
\<close>

datatype io_error_kind = TimedOut | WouldBlock | WriteZero | OtherKind | OsKind nat

record io_error =
  kind :: io_error_kind
  message :: rstring

datatype error =
    SerdeJsonError rstring
  | InvalidUtf8InBody utf8_error
  | RustlsCreateConnection rstring
  | IoError io_error
  | MalformedChunkLength
  | MalformedChunkEnd
  | MalformedContentLength
  | HeadersOverflow
  | StatusLineOverflow
  | AddressNotFound
  | RedirectLocationMissing
  | InfiniteRedirectionLoop
  | TooManyRedirections
  | InvalidUtf8InResponse
  | PunycodeConversionFailed
  | HttpsFeatureNotEnabled
  | PunycodeFeatureNotEnabled
  | BadProxy
  | BadProxyCreds
  | ProxyConnect
  | InvalidProxyCreds
  | Other rstring

definition utf8_error_display :: "utf8_error \<Rightarrow> rstring" where
  "utf8_error_display e =
     (case error_len e of
        Some n \<Rightarrow> str ''invalid utf-8 sequence of '' @ show_nat n
                  @ str '' bytes from index '' @ show_nat (valid_up_to e)
      | None \<Rightarrow> str ''incomplete utf-8 byte sequence from index '' @ show_nat (valid_up_to e))"

fun error_fmt :: "error \<Rightarrow> rstring" where
  "error_fmt (SerdeJsonError err) = err"
| "error_fmt (IoError err) = message err"
| "error_fmt (InvalidUtf8InBody err) = utf8_error_display err"
| "error_fmt (RustlsCreateConnection err) = str ''error creating rustls connection: '' @ err"
| "error_fmt MalformedChunkLength = str ''non-usize chunk length with transfer-encoding: chunked''"
| "error_fmt MalformedChunkEnd = str ''chunk did not end after reading the expected amount of bytes''"
| "error_fmt MalformedContentLength = str ''non-usize content length''"
| "error_fmt HeadersOverflow = str ''the headers' total size surpassed max_headers_size''"
| "error_fmt StatusLineOverflow = str ''the status line length surpassed max_status_line_length''"
| "error_fmt AddressNotFound = str ''could not resolve host to a socket address''"
| "error_fmt RedirectLocationMissing = str ''redirection location header missing''"
| "error_fmt InfiniteRedirectionLoop = str ''infinite redirection loop detected''"
| "error_fmt TooManyRedirections = str ''too many redirections (over the max)''"
| "error_fmt InvalidUtf8InResponse =
     str ''response contained invalid utf-8 where valid utf-8 was expected''"
| "error_fmt HttpsFeatureNotEnabled =
     str ''request url contains https:// but the https feature is not enabled''"
| "error_fmt PunycodeFeatureNotEnabled =
     str ''non-ascii urls needs to be converted into punycode, and the feature is missing''"
| "error_fmt PunycodeConversionFailed = str ''non-ascii url conversion to punycode failed''"
| "error_fmt BadProxy = str ''the provided proxy information is malformed''"
| "error_fmt BadProxyCreds = str ''the provided proxy credentials are malformed''"
| "error_fmt ProxyConnect = str ''could not connect to the proxy server''"
| "error_fmt InvalidProxyCreds = str ''the provided proxy credentials are invalid''"
| "error_fmt (Other msg) =
     str ''error in minreq: please open an issue in the minreq repo, include the following: ''
     @ [39] @ msg @ [39]"

datatype cause = SerdeCause rstring | IoCause io_error | Utf8Cause utf8_error | RustlsCause rstring

fun error_source :: "error \<Rightarrow> cause option" where
  "error_source (SerdeJsonError err) = Some (SerdeCause err)"
| "error_source (IoError err) = Some (IoCause err)"
| "error_source (InvalidUtf8InBody err) = Some (Utf8Cause err)"
| "error_source (RustlsCreateConnection err) = Some (RustlsCause err)"
| "error_source _ = None"

definition error_from_io :: "io_error \<Rightarrow> error" where
  [simp]: "error_from_io other = IoError other"

fun cause_fmt :: "cause \<Rightarrow> rstring" where
  "cause_fmt (SerdeCause s) = s"
| "cause_fmt (IoCause e) = message e"
| "cause_fmt (Utf8Cause e) = utf8_error_display e"
| "cause_fmt (RustlsCause s) = s"

definition unit_errors :: "error list" where
  "unit_errors =
     [MalformedChunkLength, MalformedChunkEnd, MalformedContentLength, HeadersOverflow,
      StatusLineOverflow, AddressNotFound, RedirectLocationMissing, InfiniteRedirectionLoop,
      TooManyRedirections, InvalidUtf8InResponse, PunycodeConversionFailed,
      HttpsFeatureNotEnabled, PunycodeFeatureNotEnabled, BadProxy, BadProxyCreds, ProxyConnect,
      InvalidProxyCreds]"

lemma distinct_unit_messages: "distinct (map error_fmt unit_errors)"
  by (simp add: unit_errors_def)

lemma error_fmt_unit_inject:
  "e1 \<in> set unit_errors \<Longrightarrow> e2 \<in> set unit_errors \<Longrightarrow> error_fmt e1 = error_fmt e2 \<Longrightarrow> e1 = e2"
  using distinct_unit_messages by (auto simp: distinct_map dest: inj_onD)

lemma error_fmt_source: "error_source e = Some c \<Longrightarrow> suffix (cause_fmt c) (error_fmt e)"
  by (cases e) (auto simp: suffix_def)

lemma error_source_None: "error_source e = None \<longleftrightarrow> e \<in> set unit_errors \<or> (\<exists>m. e = Other m)"
  by (cases e) (auto simp: unit_errors_def)

end
