(* ===== verification/Http_Url.thy ===== *)
theory Http_Url
  imports Errors
begin

text \<open>
  \<open>http_url.rs\<close>: URLs split into their parts. \<open>parse\<close> is the character loop of the source:
  \<open>url_step\<close> is its body, one match per parser status, over a record of the loop's variables.
  The lemmas show that the loop computes the declarative split of \<open>url_split\<close>, that printing
  and parsing are inverse (the codec interpretation), and what percent-encoding does.
\<close>

unbundle bit_operations_syntax

section \<open>Definitions\<close>

datatype port = ImplicitHttp | ImplicitHttps | Explicit u16

fun port_number :: "port \<Rightarrow> u16" where
  "port_number ImplicitHttp = 80"
| "port_number ImplicitHttps = 443"
| "port_number (Explicit p) = p"

record http_url =
  https :: bool
  host :: rstring
  url_port :: port
  path_and_query :: rstring
  fragment :: "rstring option"

datatype url_parse_status = InHost | InPort | InPathAndQuery | InFragment

record url_parse =
  status :: url_parse_status
  p_host :: rstring
  p_port :: rstring
  p_resource :: rstring
  p_path_and_query :: "rstring option"

definition to_hex_digit :: "u8 \<Rightarrow> rchar" where
  "to_hex_digit digit = (if digit \<le> 9 then unat (48 + digit) else unat (65 - 10 + digit))"

definition escape_byte :: "u8 \<Rightarrow> rstring" where
  "escape_byte b =
     (let rem = b mod 16;
          right_char = to_hex_digit rem;
          left_char = to_hex_digit (drop_bit 4 (b - rem))
      in [ch CHR ''%'', left_char, right_char])"

definition url_safe :: "rchar \<Rightarrow> bool" where
  "url_safe c \<longleftrightarrow>
     (48 \<le> c \<and> c \<le> 57) \<or> (65 \<le> c \<and> c \<le> 90) \<or> (97 \<le> c \<and> c \<le> 122)
     \<or> c \<in> set (str ''-._~&#=/?'')"

definition push_resource :: "cfg \<Rightarrow> rchar \<Rightarrow> rstring" where
  "push_resource cf c =
     (if \<not> feat_urlencoding cf then [c]
      else if url_safe c then [c]
      else concat (map escape_byte (encode_utf8 c)))"

definition url_step :: "cfg \<Rightarrow> url_parse \<Rightarrow> rchar \<Rightarrow> url_parse" where
  "url_step cf s c =
     (case status s of
        InHost \<Rightarrow>
          if c = ch CHR ''/'' \<or> c = ch CHR ''?'' then
            s\<lparr>status := InPathAndQuery, p_resource := p_resource s @ [c]\<rparr>
          else if c = ch CHR '':'' then s\<lparr>status := InPort\<rparr>
          else s\<lparr>p_host := p_host s @ [c]\<rparr>
      | InPort \<Rightarrow>
          if c = ch CHR ''/'' \<or> c = ch CHR ''?'' then
            s\<lparr>status := InPathAndQuery, p_resource := p_resource s @ [c]\<rparr>
          else s\<lparr>p_port := p_port s @ [c]\<rparr>
      | InPathAndQuery \<Rightarrow>
          if c = ch CHR ''#'' then
            s\<lparr>status := InFragment, p_path_and_query := Some (p_resource s), p_resource := []\<rparr>
          else s\<lparr>p_resource := p_resource s @ push_resource cf c\<rparr>
      | InFragment \<Rightarrow> s\<lparr>p_resource := p_resource s @ push_resource cf c\<rparr>)"

definition url_start :: url_parse where
  "url_start = \<lparr>status = InHost, p_host = [], p_port = [], p_resource = [], p_path_and_query = None\<rparr>"

definition strip_scheme :: "rstring \<Rightarrow> (rstring \<times> bool) option" where
  "strip_scheme url =
     (case strip_prefix (str ''http://'') url of
        Some after_protocol \<Rightarrow> Some (after_protocol, False)
      | None \<Rightarrow>
          (case strip_prefix (str ''https://'') url of
             Some after_protocol \<Rightarrow> Some (after_protocol, True)
           | None \<Rightarrow> None))"

definition invalid_protocol_error :: error where
  "invalid_protocol_error =
     IoError \<lparr>kind = OtherKind,
       message = str ''was redirected to an absolute url with an invalid protocol''\<rparr>"

definition parse_port :: "bool \<Rightarrow> rstring \<Rightarrow> port" where
  "parse_port is_https s =
     (case parse_uint 10 65535 s of
        Some n \<Rightarrow> Explicit (of_nat n)
      | None \<Rightarrow> if is_https then ImplicitHttps else ImplicitHttp)"

definition parse :: "cfg \<Rightarrow> rstring \<Rightarrow> http_url option \<Rightarrow> (http_url, error) result" where
  "parse cf url redirected_from =
     (case strip_scheme url of
        None \<Rightarrow> Err invalid_protocol_error
      | Some (rest, is_https) \<Rightarrow>
          let s = foldl (url_step cf) url_start rest;
              (path, frag) =
                (case p_path_and_query s of
                   Some p \<Rightarrow> (p, Some (p_resource s))
                 | None \<Rightarrow> (p_resource s, None));
              frag =
                (if frag = None then
                   (case redirected_from of
                      None \<Rightarrow> None
                    | Some old \<Rightarrow>
                        (case fragment old of None \<Rightarrow> None | Some f \<Rightarrow> Some f))
                 else frag);
              path = (if path = [] then [ch CHR ''/''] else path)
          in Ok \<lparr>https = is_https, host = p_host s, url_port = parse_port is_https (p_port s),
                 path_and_query = path, fragment = frag\<rparr>)"

definition write_base_url_to :: "http_url \<Rightarrow> rstring \<Rightarrow> rstring" where
  "write_base_url_to u dst =
     dst @ str ''http'' @ (if https u then str ''s'' else []) @ str ''://'' @ host u
     @ (case url_port u of Explicit p \<Rightarrow> str '':'' @ show_nat (unat p) | _ \<Rightarrow> [])"

definition write_resource_to :: "http_url \<Rightarrow> rstring \<Rightarrow> rstring" where
  "write_resource_to u dst =
     dst @ path_and_query u @ (if fragment u \<noteq> None then str ''#'' else [])
     @ (case fragment u of None \<Rightarrow> [] | Some f \<Rightarrow> f)"

section \<open>Specification\<close>

text \<open>The split the grammar of the source's comment describes, without a loop.\<close>

definition host_char :: "rchar \<Rightarrow> bool" where
  "host_char c \<longleftrightarrow> c \<noteq> ch CHR ''/'' \<and> c \<noteq> ch CHR ''?'' \<and> c \<noteq> ch CHR '':''"

definition port_char :: "rchar \<Rightarrow> bool" where
  "port_char c \<longleftrightarrow> c \<noteq> ch CHR ''/'' \<and> c \<noteq> ch CHR ''?''"

definition split_port :: "rstring \<Rightarrow> rstring \<times> rstring" where
  "split_port after =
     (case after of
        c # t \<Rightarrow> if c = ch CHR '':'' then (takeWhile port_char t, dropWhile port_char t)
                  else ([], after)
      | [] \<Rightarrow> ([], []))"

definition url_split :: "rstring \<Rightarrow> rstring \<times> rstring \<times> rstring \<times> rstring option" where
  "url_split r =
     (let (p, res) = split_port (dropWhile host_char r)
      in (takeWhile host_char r, p, takeWhile (\<lambda>c. c \<noteq> ch CHR ''#'') res,
          case dropWhile (\<lambda>c. c \<noteq> ch CHR ''#'') res of [] \<Rightarrow> None | _ # f \<Rightarrow> Some f))"

definition encode_resource :: "cfg \<Rightarrow> rstring \<Rightarrow> rstring" where
  "encode_resource cf s = concat (map (push_resource cf) s)"

definition print_url :: "http_url \<Rightarrow> rstring" where
  "print_url u = write_resource_to u (write_base_url_to u [])"

definition wf_url :: "http_url \<Rightarrow> bool" where
  "wf_url u \<longleftrightarrow>
     (\<forall>c\<in>set (host u). host_char c)
     \<and> (url_port u = ImplicitHttp \<longrightarrow> \<not> https u) \<and> (url_port u = ImplicitHttps \<longrightarrow> https u)
     \<and> (\<exists>c t. path_and_query u = c # t \<and> (c = ch CHR ''/'' \<or> c = ch CHR ''?''))
     \<and> ch CHR ''#'' \<notin> set (path_and_query u)"

fun percent_decode :: "rstring \<Rightarrow> u8 list" where
  "percent_decode (p # a # b # s) =
     (if p = ch CHR ''%'' then
        (case (to_digit 16 a, to_digit 16 b) of
           (Some x, Some y) \<Rightarrow> byte (x * 16 + y) # percent_decode s
         | _ \<Rightarrow> byte p # percent_decode (a # b # s))
      else byte p # percent_decode (a # b # s))"
| "percent_decode (p # s) = byte p # percent_decode s"
| "percent_decode [] = []"

section \<open>The loop computes the split\<close>

lemma encode_resource_simps [simp]:
  "encode_resource cf [] = []"
  "encode_resource cf (c # s) = push_resource cf c @ encode_resource cf s"
  "encode_resource cf (s @ t) = encode_resource cf s @ encode_resource cf t"
  by (simp_all add: encode_resource_def)

lemma push_resource_safe [simp]: "url_safe c \<Longrightarrow> push_resource cf c = [c]"
  by (simp add: push_resource_def)

lemma url_safe_delims [simp]: "url_safe 47" "url_safe 63" "url_safe 35"
  by (simp_all add: url_safe_def str_def)

lemma url_loop_host:
  "\<forall>c\<in>set cs. host_char c \<Longrightarrow> status s = InHost \<Longrightarrow>
     foldl (url_step cf) s cs = s\<lparr>p_host := p_host s @ cs\<rparr>"
  by (induction cs arbitrary: s) (simp_all add: url_step_def host_char_def)

lemma url_loop_port:
  "\<forall>c\<in>set cs. port_char c \<Longrightarrow> status s = InPort \<Longrightarrow>
     foldl (url_step cf) s cs = s\<lparr>p_port := p_port s @ cs\<rparr>"
  by (induction cs arbitrary: s) (simp_all add: url_step_def port_char_def)

lemma url_loop_path:
  "35 \<notin> set cs \<Longrightarrow> status s = InPathAndQuery \<Longrightarrow>
     foldl (url_step cf) s cs = s\<lparr>p_resource := p_resource s @ encode_resource cf cs\<rparr>"
  by (induction cs arbitrary: s) (simp_all add: url_step_def)

lemma url_loop_fragment:
  "status s = InFragment \<Longrightarrow>
     foldl (url_step cf) s cs = s\<lparr>p_resource := p_resource s @ encode_resource cf cs\<rparr>"
  by (induction cs arbitrary: s) (simp_all add: url_step_def)

text \<open>What the loop leaves of its variables, as the split's four parts.\<close>

definition loop_parts :: "url_parse \<Rightarrow> rstring \<times> rstring \<times> rstring \<times> rstring option" where
  "loop_parts s =
     (case p_path_and_query s of
        Some p \<Rightarrow> (p_host s, p_port s, p, Some (p_resource s))
      | None \<Rightarrow> (p_host s, p_port s, p_resource s, None))"

lemma url_loop_resource:
  assumes "status s = InPathAndQuery" "p_path_and_query s = None"
  shows "loop_parts (foldl (url_step cf) s res) =
    (p_host s, p_port s, p_resource s @ encode_resource cf (takeWhile (\<lambda>c. c \<noteq> 35) res),
     case dropWhile (\<lambda>c. c \<noteq> 35) res of [] \<Rightarrow> None | _ # f \<Rightarrow> Some (encode_resource cf f))"
proof (cases "dropWhile (\<lambda>c. c \<noteq> 35) res")
  case Nil
  then have t: "takeWhile (\<lambda>c. c \<noteq> 35) res = res" and "35 \<notin> set res" by auto
  then show ?thesis unfolding Nil t using assms by (simp add: url_loop_path loop_parts_def)
next
  case (Cons h f)
  then have h: "h = 35" by (auto dest: dropWhile_ConsD)
  let ?p = "takeWhile (\<lambda>c. c \<noteq> 35) res"
  have r: "res = ?p @ 35 # f" using Cons h by (auto dest: dropWhile_ConsD)
  have n: "35 \<notin> set ?p" by (auto dest: set_takeWhileD)
  have "loop_parts (foldl (url_step cf) s (?p @ 35 # f)) =
      (p_host s, p_port s, p_resource s @ encode_resource cf ?p, Some (encode_resource cf f))"
    using assms n by (simp add: url_loop_path url_step_def url_loop_fragment loop_parts_def)
  then show ?thesis using r Cons by simp
qed

lemma url_loop_enter_resource:
  assumes "status s = InHost \<or> status s = InPort" "p_path_and_query s = None" "p_resource s = []"
    and "c = 47 \<or> c = 63"
  shows "loop_parts (foldl (url_step cf) s (c # t)) =
    (p_host s, p_port s, encode_resource cf (takeWhile (\<lambda>c. c \<noteq> 35) (c # t)),
     case dropWhile (\<lambda>c. c \<noteq> 35) (c # t) of [] \<Rightarrow> None | _ # f \<Rightarrow> Some (encode_resource cf f))"
proof -
  have "url_step cf s c = s\<lparr>status := InPathAndQuery, p_resource := [c]\<rparr>"
    using assms by (auto simp: url_step_def)
  then show ?thesis using assms(2,4) by (auto simp: url_loop_resource)
qed

lemma url_loop_port_part:
  assumes "status s = InPort" "p_path_and_query s = None" "p_resource s = []"
  shows "loop_parts (foldl (url_step cf) s t) =
    (p_host s, p_port s @ takeWhile port_char t,
     encode_resource cf (takeWhile (\<lambda>c. c \<noteq> 35) (dropWhile port_char t)),
     case dropWhile (\<lambda>c. c \<noteq> 35) (dropWhile port_char t) of
       [] \<Rightarrow> None | _ # f \<Rightarrow> Some (encode_resource cf f))"
proof -
  let ?q = "takeWhile port_char t" and ?r = "dropWhile port_char t"
  have q: "\<forall>c\<in>set ?q. port_char c" by (auto dest: set_takeWhileD)
  have "foldl (url_step cf) s t = foldl (url_step cf) (foldl (url_step cf) s ?q) ?r"
    by (metis foldl_append takeWhile_dropWhile_id)
  also have "\<dots> = foldl (url_step cf) (s\<lparr>p_port := p_port s @ ?q\<rparr>) ?r"
    using assms q by (simp add: url_loop_port)
  finally have e: "foldl (url_step cf) s t = \<dots>" .
  show ?thesis
  proof (cases ?r)
    case Nil
    show ?thesis unfolding e Nil using assms by (simp add: loop_parts_def)
  next
    case (Cons c u)
    then have "c = 47 \<or> c = 63" by (auto simp: port_char_def dest: dropWhile_ConsD)
    then show ?thesis unfolding e Cons using assms by (subst url_loop_enter_resource) simp_all
  qed
qed

lemma url_loop_spec:
  "loop_parts (foldl (url_step cf) url_start r) =
     (case url_split r of (h, p, path, frag) \<Rightarrow>
        (h, p, encode_resource cf path, map_option (encode_resource cf) frag))"
proof -
  let ?h = "takeWhile host_char r" and ?a = "dropWhile host_char r"
  have h: "\<forall>c\<in>set ?h. host_char c" by (auto dest: set_takeWhileD)
  have "foldl (url_step cf) url_start r = foldl (url_step cf) (foldl (url_step cf) url_start ?h) ?a"
    by (metis foldl_append takeWhile_dropWhile_id)
  also have "foldl (url_step cf) url_start ?h = url_start\<lparr>p_host := ?h\<rparr>"
    using h by (simp add: url_loop_host url_start_def)
  finally have e: "foldl (url_step cf) url_start r = foldl (url_step cf) (url_start\<lparr>p_host := ?h\<rparr>) ?a" .
  show ?thesis
  proof (cases ?a)
    case Nil
    show ?thesis unfolding e url_split_def split_port_def Nil by (simp add: loop_parts_def url_start_def)
  next
    case (Cons c t)
    then have "\<not> host_char c" by (auto dest: dropWhile_ConsD)
    then consider "c = 58" | "c = 47 \<or> c = 63" "c \<noteq> 58" by (auto simp: host_char_def)
    then show ?thesis
    proof cases
      case 1
      have "url_step cf (url_start\<lparr>p_host := ?h\<rparr>) c = url_start\<lparr>p_host := ?h, status := InPort\<rparr>"
        using 1 by (simp add: url_step_def url_start_def)
      then show ?thesis unfolding e Cons using 1 Cons
        by (simp add: url_loop_port_part url_split_def split_port_def url_start_def case_tail_map_option [where g = "encode_resource cf"])
    next
      case 2
      then show ?thesis unfolding e Cons using Cons
        by (subst url_loop_enter_resource)
          (auto simp: url_split_def split_port_def url_start_def case_tail_map_option [where g = "encode_resource cf"])
    qed
  qed
qed

section \<open>Parsing, printing and their laws\<close>

lemma push_resource_nonempty [simp]: "push_resource cf c \<noteq> []"
  by (auto simp: push_resource_def escape_byte_def Let_def)

lemma encode_resource_Nil_iff [simp]: "encode_resource cf s = [] \<longleftrightarrow> s = []"
  by (cases s) simp_all

lemma encode_resource_plain [simp]: "\<not> feat_urlencoding cf \<Longrightarrow> encode_resource cf s = s"
  by (induction s) (simp_all add: push_resource_def)

lemma encode_resource_safe: "\<forall>c\<in>set s. url_safe c \<Longrightarrow> encode_resource cf s = s"
  by (induction s) simp_all

lemma parse_eq_split:
  "parse cf url from =
     (case strip_scheme url of
        None \<Rightarrow> Err invalid_protocol_error
      | Some (rest, sec) \<Rightarrow>
          (case url_split rest of (h, p, path, frag) \<Rightarrow>
             Ok \<lparr>https = sec, host = h, url_port = parse_port sec p,
                 path_and_query = (if path = [] then [ch CHR ''/''] else encode_resource cf path),
                 fragment = (case frag of Some f \<Rightarrow> Some (encode_resource cf f)
                             | None \<Rightarrow> Option.bind from fragment)\<rparr>))"
proof (cases "strip_scheme url")
  case None
  then show ?thesis by (simp add: parse_def)
next
  case (Some a)
  obtain rest sec where a: "a = (rest, sec)" by fastforce
  obtain h p path frag where sp: "url_split rest = (h, p, path, frag)" by (cases "url_split rest") auto
  have "loop_parts (foldl (url_step cf) url_start rest)
      = (h, p, encode_resource cf path, map_option (encode_resource cf) frag)"
    by (simp add: url_loop_spec sp)
  then show ?thesis
    using Some a sp
    by (cases frag; cases "from")
      (auto simp: parse_def loop_parts_def Let_def bind_eq_None_conv split: option.splits)
qed

lemma parse_Err_iff: "(\<exists>e. parse cf url from = Err e) \<longleftrightarrow> strip_scheme url = None"
  by (auto simp: parse_eq_split split: option.splits prod.splits)

lemma parse_Err_kind: "parse cf url from = Err e \<Longrightarrow> e = invalid_protocol_error"
  by (auto simp: parse_eq_split split: option.splits prod.splits)

lemma strip_scheme_http [simp]: "strip_scheme (str ''http://'' @ r) = Some (r, False)"
  by (simp add: strip_scheme_def)

lemma strip_scheme_https [simp]: "strip_scheme (str ''https://'' @ r) = Some (r, True)"
  by (simp add: strip_scheme_def) (simp add: strip_prefix_def str_def)

lemma split_port_resource:
  assumes "split_port (dropWhile host_char r) = (p, res)" "res \<noteq> []"
  shows "hd res = 47 \<or> hd res = 63"
proof (cases "dropWhile host_char r")
  case Nil
  then show ?thesis using assms unfolding Nil by (simp add: split_port_def)
next
  case (Cons c t)
  show ?thesis
  proof (cases "c = 58")
    case True
    then have "\<not> port_char (hd res)"
      using assms unfolding Cons by (auto simp: split_port_def hd_dropWhile)
    then show ?thesis by (auto simp: port_char_def)
  next
    case False
    moreover have "\<not> host_char c" using Cons by (auto dest: dropWhile_ConsD)
    ultimately show ?thesis using assms unfolding Cons by (auto simp: split_port_def host_char_def)
  qed
qed

lemma url_split_wf:
  assumes "url_split r = (h, p, path, frag)"
  shows "\<forall>c\<in>set h. host_char c" "35 \<notin> set path"
    and "path \<noteq> [] \<Longrightarrow> hd path = 47 \<or> hd path = 63"
proof -
  obtain q res where sp: "split_port (dropWhile host_char r) = (q, res)" by fastforce
  then have h: "h = takeWhile host_char r" and path: "path = takeWhile (\<lambda>c. c \<noteq> 35) res"
    using assms by (auto simp: url_split_def)
  show "\<forall>c\<in>set h. host_char c" "35 \<notin> set path"
    unfolding h path by (auto dest: set_takeWhileD)
  assume "path \<noteq> []"
  then obtain c t where "res = c # t" "hd path = c"
    unfolding path by (cases res) (auto split: if_splits)
  then show "hd path = 47 \<or> hd path = 63" using split_port_resource [OF sp] by simp
qed

lemma parse_wf:
  assumes "parse cf url from = Ok u" "\<not> feat_urlencoding cf"
  shows "wf_url u"
proof -
  obtain rest sec where s: "strip_scheme url = Some (rest, sec)"
    using assms(1) by (auto simp: parse_eq_split split: option.splits)
  obtain h p path frag where sp: "url_split rest = (h, p, path, frag)" by (cases "url_split rest") auto
  have u: "host u = h" "https u = sec" "url_port u = parse_port sec p"
    "path_and_query u = (if path = [] then [47] else path)"
    using assms s sp by (auto simp: parse_eq_split)
  show ?thesis
    using url_split_wf [OF sp] unfolding wf_url_def u
    by (cases path) (auto simp: parse_port_def split: option.splits)
qed

lemma parse_port_show: "parse_port sec (show_nat (unat (p :: u16))) = Explicit p"
proof -
  have "unat p \<le> 65535" using unsigned_less [where 'a = nat, of p] by simp
  then show ?thesis by (simp add: parse_port_def parse_uint_show_nat)
qed

lemma parse_port_empty: "parse_port sec [] = (if sec then ImplicitHttps else ImplicitHttp)"
  by (simp add: parse_port_def parse_uint_def parse_digits_def)

lemma split_port_resource_only: "c = 47 \<or> c = 63 \<Longrightarrow> split_port (c # t) = ([], c # t)"
  by (auto simp: split_port_def)

lemma split_port_digits:
  assumes "c = 47 \<or> c = 63"
  shows "split_port (58 # show_nat n @ c # t) = (show_nat n, c # t)"
proof -
  have "\<forall>d\<in>set (show_nat n). port_char d" "\<not> port_char c"
    using assms by (auto simp: port_char_def dest: show_nat_digits)
  then show ?thesis by (simp add: split_port_def takeWhile_append_stop dropWhile_append_stop)
qed

lemma split_fragment:
  fixes path :: rstring
  assumes "35 \<notin> set path"
  shows "takeWhile (\<lambda>c. c \<noteq> 35) (path @ (case frag of None \<Rightarrow> [] | Some f \<Rightarrow> 35 # f)) = path"
    and "(case dropWhile (\<lambda>c. c \<noteq> 35) (path @ (case frag of None \<Rightarrow> [] | Some f \<Rightarrow> 35 # f)) of
            [] \<Rightarrow> None | _ # f \<Rightarrow> Some f) = frag"
proof -
  have p: "\<forall>c\<in>set path. c \<noteq> 35" using assms by auto
  have s: "takeWhile (\<lambda>c. c \<noteq> 35) (path @ 35 # f) = path"
    "dropWhile (\<lambda>c. c \<noteq> 35) (path @ 35 # f) = 35 # f" for f
    using p by (auto intro!: takeWhile_append_stop dropWhile_append_stop)
  have n: "takeWhile (\<lambda>c. c \<noteq> 35) path = path" "dropWhile (\<lambda>c. c \<noteq> 35) path = []"
    using p by simp_all
  show "takeWhile (\<lambda>c. c \<noteq> 35) (path @ (case frag of None \<Rightarrow> [] | Some f \<Rightarrow> 35 # f)) = path"
    by (cases frag) (simp_all only: option.case append_Nil2 n s)
  show "(case dropWhile (\<lambda>c. c \<noteq> 35) (path @ (case frag of None \<Rightarrow> [] | Some f \<Rightarrow> 35 # f)) of
            [] \<Rightarrow> None | _ # f \<Rightarrow> Some f) = frag"
    by (cases frag) (simp_all only: option.case append_Nil2 n s list.case)
qed

lemma url_split_parts:
  assumes h: "\<forall>c\<in>set h. host_char c" and path: "path = c # t" "c = 47 \<or> c = 63" "35 \<notin> set path"
    and q: "q = [] \<and> p = [] \<or> q = 58 # show_nat n \<and> p = show_nat n"
  shows "url_split (h @ q @ path @ (case frag of None \<Rightarrow> [] | Some f \<Rightarrow> 35 # f)) = (h, p, path, frag)"
proof -
  let ?f = "case frag of None \<Rightarrow> [] | Some f \<Rightarrow> 35 # f"
  have stop: "\<not> host_char (hd (q @ path))" "q @ path \<noteq> []"
    using q path(1,2) by (auto simp: host_char_def)
  then obtain d u where du: "q @ path @ ?f = d # u" "\<not> host_char d"
    by (metis append.assoc append_is_Nil_conv hd_append2 list.collapse)
  have t: "takeWhile host_char (h @ q @ path @ ?f) = h"
    and d: "dropWhile host_char (h @ q @ path @ ?f) = q @ path @ ?f"
    unfolding du(1) using h du(2) by (simp_all add: takeWhile_append_stop dropWhile_append_stop)
  have "split_port (q @ path @ ?f) = (p, path @ ?f)"
    using q path(1,2) by (auto simp: split_port_resource_only split_port_digits)
  then show ?thesis
    unfolding url_split_def t d using split_fragment [OF path(3)] by simp
qed

lemma print_url_eq:
  "print_url u = str (if https u then ''https://'' else ''http://'') @ host u
     @ (case url_port u of Explicit p \<Rightarrow> 58 # show_nat (unat p) | _ \<Rightarrow> [])
     @ path_and_query u @ (case fragment u of None \<Rightarrow> [] | Some f \<Rightarrow> 35 # f)"
  by (auto simp: print_url_def write_base_url_to_def write_resource_to_def str_def
      split: option.splits port.splits)

lemma parse_print_general:
  assumes wf: "wf_url u"
    and enc: "encode_resource cf (path_and_query u) = path_and_query u"
    and encf: "\<And>f. fragment u = Some f \<Longrightarrow> encode_resource cf f = f"
  shows "parse cf (print_url u) None = Ok u"
proof -
  define q where "q = (case url_port u of Explicit p \<Rightarrow> 58 # show_nat (unat p) | _ \<Rightarrow> [])"
  define p where "p = (case url_port u of Explicit p \<Rightarrow> show_nat (unat p) | _ \<Rightarrow> [])"
  obtain c t where path: "path_and_query u = c # t" "c = 47 \<or> c = 63" "35 \<notin> set (path_and_query u)"
    and h: "\<forall>c\<in>set (host u). host_char c"
    using wf by (auto simp: wf_url_def)
  have "q = [] \<and> p = [] \<or> (\<exists>n. q = 58 # show_nat n \<and> p = show_nat n)"
    by (auto simp: q_def p_def split: port.split)
  then have "url_split (host u @ q @ path_and_query u
      @ (case fragment u of None \<Rightarrow> [] | Some f \<Rightarrow> 35 # f)) = (host u, p, path_and_query u, fragment u)"
    using url_split_parts [OF h path] by blast
  moreover have "parse_port (https u) p = url_port u"
    using wf by (auto simp: p_def wf_url_def parse_port_show parse_port_empty split: port.split)
  moreover have "strip_scheme (print_url u) = Some (host u @ q @ path_and_query u
      @ (case fragment u of None \<Rightarrow> [] | Some f \<Rightarrow> 35 # f), https u)"
    unfolding print_url_eq q_def [symmetric] by simp
  ultimately show ?thesis
    using path(1) enc encf by (simp add: parse_eq_split split: option.splits)
qed

text \<open>
  Without percent-encoding, printing and parsing of URLs are a codec: every parsed URL is well
  formed, and reparsing its text gives it back.
\<close>

interpretation url: codec print_url "\<lambda>s. ok (parse (c\<lparr>feat_urlencoding := False\<rparr>) s None)" wf_url
  by unfold_locales (auto simp: parse_print_general intro: parse_wf)

section \<open>Percent-encoding\<close>

lemma to_hex_digit_eq: "unat d < 16 \<Longrightarrow> to_hex_digit d = (if unat d < 10 then 48 + unat d else 55 + unat d)"
  by (auto simp: to_hex_digit_def word_le_nat_alt unat_word_ariths)

lemma to_digit_hex: "n < 16 \<Longrightarrow> to_digit 16 (if n < 10 then 48 + n else 55 + n) = Some n"
  by (auto simp: to_digit_def)

lemma unat_nibbles: "unat (b mod 16 :: u8) = unat b mod 16"
  "unat (drop_bit 4 (b - b mod 16) :: u8) = unat b div 16"
proof -
  show m: "unat (b mod 16 :: u8) = unat b mod 16" by (simp add: unat_word_ariths)
  have "unat (b - b mod 16) = unat b - unat b mod 16"
    using m by (metis unat_sub word_le_nat_alt mod_less_eq_dividend)
  then have "unat (drop_bit 4 (b - b mod 16) :: u8) = (unat b - unat b mod 16) div 16"
    by (simp add: unat_div drop_bit_eq_div)
  then show "unat (drop_bit 4 (b - b mod 16) :: u8) = unat b div 16"
    by (simp add: minus_mod_eq_mult_div)
qed

lemma escape_byte_eq:
  "escape_byte b =
     [37, if unat b div 16 < 10 then 48 + unat b div 16 else 55 + unat b div 16,
      if unat b mod 16 < 10 then 48 + unat b mod 16 else 55 + unat b mod 16]"
  by (simp add: escape_byte_def Let_def to_hex_digit_eq unat_nibbles)

lemma percent_decode_escape: "percent_decode (escape_byte b @ s) = b # percent_decode s"
proof -
  have n: "unat b div 16 < 16" "unat b mod 16 < 16" by simp_all
  have "unat b div 16 * 16 + unat b mod 16 = unat b" by simp
  then show ?thesis
    unfolding escape_byte_eq by (simp add: to_digit_hex [OF n(1)] to_digit_hex [OF n(2)])
qed

lemma percent_decode_Cons: "c \<noteq> 37 \<Longrightarrow> percent_decode (c # s) = byte c # percent_decode s"
  by (cases s rule: percent_decode.cases) auto

lemma percent_decode_escapes:
  "percent_decode (concat (map escape_byte bs) @ s) = bs @ percent_decode s"
  by (induction bs) (simp_all add: percent_decode_escape)

lemma url_safe_ascii: "url_safe c \<Longrightarrow> c < 128 \<and> c \<noteq> 37"
  by (auto simp: url_safe_def str_def)

lemma percent_decode_encode:
  "feat_urlencoding cf \<Longrightarrow> percent_decode (encode_resource cf s) = into_bytes s"
proof (induction s)
  case Nil
  show ?case by simp
next
  case (Cons c s)
  show ?case
  proof (cases "url_safe c")
    case True
    then show ?thesis using Cons url_safe_ascii [OF True]
      by (simp add: percent_decode_Cons encode_utf8_def)
  next
    case False
    then show ?thesis using Cons by (simp add: push_resource_def percent_decode_escapes)
  qed
qed

lemma hex_digit_safe: "n < 16 \<Longrightarrow> url_safe (if n < 10 then 48 + n else 55 + n)"
  by (auto simp: url_safe_def)

lemma escape_byte_set: "c \<in> set (escape_byte b) \<Longrightarrow> url_safe c \<or> c = 37"
  unfolding escape_byte_eq list.set insert_iff empty_iff
  using hex_digit_safe [of "unat b div 16"] hex_digit_safe [of "unat b mod 16"] by auto

lemma encode_resource_set:
  "feat_urlencoding cf \<Longrightarrow> c \<in> set (encode_resource cf s) \<Longrightarrow> url_safe c \<or> c = 37"
  by (induction s) (auto simp: push_resource_def dest: escape_byte_set split: if_splits)

end
