(* ===== verification/Proxy.thy ===== *)
theory Proxy
  imports Http_Url
begin

text \<open>
  \<open>proxy.rs\<close>: proxy configurations, how they are read from a URL-like string and how the
  answer of a proxy to a CONNECT request is judged. \<open>Proxy::connect\<close>, which prints the CONNECT
  request, is in the theory of requests, whose type it takes.
\<close>

section \<open>Definitions\<close>

datatype proxy_kind = Basic

record proxy =
  proxy_server :: rstring
  proxy_port :: u32
  proxy_user :: "rstring option"
  proxy_password :: "rstring option"
  proxy_kind :: proxy_kind

definition split_once :: "rstring \<Rightarrow> rstring \<Rightarrow> (rstring \<times> rstring) option" where
  "split_once s pattern = split_first pattern s"

definition rsplit_once :: "rstring \<Rightarrow> rstring \<Rightarrow> (rstring \<times> rstring) option" where
  "rsplit_once s pattern = split_last pattern s"

definition parse_creds :: "rstring \<Rightarrow> rstring option \<times> rstring option" where
  "parse_creds creds =
     (case split_once creds (str '':'') of
        Some (user, pass) \<Rightarrow> (Some user, Some pass)
      | None \<Rightarrow> (Some creds, None))"

definition parse_address :: "rstring \<Rightarrow> (rstring \<times> u32 option, error) result" where
  "parse_address h =
     (case split_once h (str '':'') of
        Some (h', port) \<Rightarrow>
          (case parse_uint 10 (2 ^ 32 - 1) port of
             None \<Rightarrow> Err BadProxy
           | Some n \<Rightarrow> Ok (h', Some (of_nat n)))
      | None \<Rightarrow> Ok (h, None))"

definition proxy_authority :: "rstring \<Rightarrow> (proxy, error) result" where
  "proxy_authority authority =
     (let ((user, password), h) =
        (case rsplit_once authority (str ''@'') of
           Some (userinfo, h) \<Rightarrow> (parse_creds userinfo, h)
         | None \<Rightarrow> ((None, None), authority))
      in and_then (parse_address h)
           (\<lambda>(h, port). Ok \<lparr>proxy_server = h,
              proxy_port = (case port of Some p \<Rightarrow> p | None \<Rightarrow> 8080),
              proxy_user = user, proxy_password = password, proxy_kind = Basic\<rparr>))"

definition proxy_new :: "rstring \<Rightarrow> (proxy, error) result" where
  "proxy_new s =
     and_then
       (case split_once s (str ''://'') of
          Some (proto, auth) \<Rightarrow> if proto \<noteq> str ''http'' then Err BadProxy else Ok auth
        | None \<Rightarrow> Ok s)
       proxy_authority"

definition verify_response :: "u8 list \<Rightarrow> (unit, error) result" where
  "verify_response response =
     (let response_string = from_utf8_lossy response in
      and_then (ok_or (first_line response_string) ProxyConnect)
        (\<lambda>top_line.
           and_then
             (ok_or (case split_whitespace top_line of _ # code # _ \<Rightarrow> Some code | _ \<Rightarrow> None) BadProxy)
             (\<lambda>status_code.
                if status_code = str ''200'' then Ok ()
                else if status_code = str ''401'' \<or> status_code = str ''407'' then
                  Err InvalidProxyCreds
                else Err BadProxy)))"

section \<open>Specification\<close>

text \<open>The documented format \<open>http://[user[:password]@]host:port\<close> of a configuration.\<close>

definition print_proxy :: "proxy \<Rightarrow> rstring" where
  "print_proxy p =
     str ''http://''
     @ (case proxy_user p of
          None \<Rightarrow> []
        | Some u \<Rightarrow> u @ (case proxy_password p of None \<Rightarrow> [] | Some pw \<Rightarrow> str '':'' @ pw) @ str ''@'')
     @ proxy_server p @ str '':'' @ show_nat (unat (proxy_port p))"

definition wf_proxy :: "proxy \<Rightarrow> bool" where
  "wf_proxy p \<longleftrightarrow>
     ch CHR '':'' \<notin> set (proxy_server p) \<and> ch CHR ''@'' \<notin> set (proxy_server p)
     \<and> (case proxy_user p of None \<Rightarrow> proxy_password p = None | Some u \<Rightarrow> ch CHR '':'' \<notin> set u)"

section \<open>Lemmas\<close>

lemma str_colon_at: "str '':'' = [58]" "str ''@'' = [64]"
  by (simp_all add: str_def)

lemma split_first_scheme: "split_first (str ''://'') (str ''http://'' @ r) = Some (str ''http'', r)"
  by (simp add: str_def strip_prefix_def)

lemma parse_address_print:
  assumes "58 \<notin> set h"
  shows "parse_address (h @ 58 # show_nat (unat (p :: u32))) = Ok (h, Some p)"
proof -
  have "unat p \<le> 2 ^ 32 - 1" using unsigned_less [where 'a = nat, of p] by simp
  then show ?thesis
    using assms by (simp add: parse_address_def split_once_def str_colon_at split_first_char parse_uint_show_nat)
qed

lemma parse_creds_print:
  assumes "58 \<notin> set u"
  shows "parse_creds (u @ (case pw of None \<Rightarrow> [] | Some w \<Rightarrow> 58 # w)) = (Some u, pw)"
  using assms split_first_char_None [of 58 u]
  by (cases pw) (simp_all add: parse_creds_def split_once_def str_colon_at split_first_char)

lemma proxy_authority_creds:
  assumes "64 \<notin> set h" "parse_creds i = (u, pw)" "parse_address h = Ok (h', q)"
  shows "proxy_authority (i @ 64 # h) = Ok \<lparr>proxy_server = h',
    proxy_port = (case q of Some p \<Rightarrow> p | None \<Rightarrow> 8080), proxy_user = u, proxy_password = pw, proxy_kind = Basic\<rparr>"
  using assms by (simp add: proxy_authority_def rsplit_once_def str_colon_at split_last_char)

lemma proxy_authority_plain:
  assumes "64 \<notin> set h" "parse_address h = Ok (h', q)"
  shows "proxy_authority h = Ok \<lparr>proxy_server = h',
    proxy_port = (case q of Some p \<Rightarrow> p | None \<Rightarrow> 8080), proxy_user = None, proxy_password = None, proxy_kind = Basic\<rparr>"
proof -
  have "split_last [64] h = None" using assms(1) by (simp add: split_last_char_None)
  with assms(2) show ?thesis by (simp add: proxy_authority_def rsplit_once_def str_colon_at)
qed

lemma proxy_new_http: "proxy_new (str ''http://'' @ a) = proxy_authority a"
  by (simp add: proxy_new_def split_once_def split_first_scheme)

lemma parse_print_proxy:
  assumes "wf_proxy p"
  shows "proxy_new (print_proxy p) = Ok p"
proof -
  let ?h = "proxy_server p @ 58 # show_nat (unat (proxy_port p))"
  have n: "64 \<notin> set ?h" "58 \<notin> set (proxy_server p)"
    using assms by (auto simp: wf_proxy_def dest: show_nat_digits)
  have k: "proxy_kind p = Basic" by (cases "proxy_kind p")
  note addr = parse_address_print [OF n(2), of "proxy_port p"]
  show ?thesis
  proof (cases "proxy_user p")
    case None
    then have "print_proxy p = str ''http://'' @ ?h" "proxy_password p = None"
      using assms by (simp_all add: wf_proxy_def print_proxy_def str_colon_at)
    then show ?thesis using None k proxy_authority_plain [OF n(1) addr]
      by (simp add: proxy_new_http)
  next
    case (Some u)
    let ?i = "u @ (case proxy_password p of None \<Rightarrow> [] | Some pw \<Rightarrow> 58 # pw)"
    have "print_proxy p = str ''http://'' @ ?i @ 64 # ?h"
      using Some by (simp add: print_proxy_def str_colon_at split: option.split)
    moreover have "parse_creds ?i = (Some u, proxy_password p)"
      using assms Some by (simp add: wf_proxy_def parse_creds_print)
    ultimately show ?thesis using Some k proxy_authority_creds [OF n(1) _ addr, of ?i]
      by (simp add: proxy_new_http)
  qed
qed

lemma parse_address_wf:
  "parse_address h = Ok (h', q) \<Longrightarrow> 58 \<notin> set h' \<and> set h' \<subseteq> set h"
  using split_first_char_None [of 58 h]
  by (auto simp: parse_address_def split_once_def str_colon_at split: option.splits
      dest: split_first_char_Some)

lemma parse_creds_wf: "parse_creds c = (u, pw) \<Longrightarrow> \<exists>v. u = Some v \<and> 58 \<notin> set v"
  using split_first_char_None [of 58 c]
  by (auto simp: parse_creds_def split_once_def str_colon_at split: option.splits
      dest: split_first_char_Some)

lemma proxy_authority_wf: "proxy_authority a = Ok p \<Longrightarrow> wf_proxy p"
proof (cases "split_last [64] a")
  case None
  then have "64 \<notin> set a" by (simp add: split_last_char_None)
  moreover assume "proxy_authority a = Ok p"
  ultimately show ?thesis using None
    by (cases "parse_address a")
      (auto simp: proxy_authority_def rsplit_once_def str_colon_at wf_proxy_def dest!: parse_address_wf)
next
  case (Some ih)
  obtain i h where ih: "ih = (i, h)" by fastforce
  then have "64 \<notin> set h" using Some by (auto dest: split_last_char_Some)
  moreover obtain u pw where c: "parse_creds i = (u, pw)" by fastforce
  moreover assume "proxy_authority a = Ok p"
  ultimately show ?thesis using Some ih parse_creds_wf [OF c]
    by (cases "parse_address h")
      (auto simp: proxy_authority_def rsplit_once_def str_colon_at wf_proxy_def dest!: parse_address_wf)
qed

lemma proxy_new_authority: "proxy_new s = Ok p \<Longrightarrow> \<exists>a. proxy_authority a = Ok p"
  by (auto simp: proxy_new_def split: option.splits if_splits)

interpretation proxy: codec print_proxy "\<lambda>s. ok (proxy_new s)" wf_proxy
  by unfold_locales (auto simp: parse_print_proxy dest: proxy_new_authority proxy_authority_wf)

lemma proxy_new_Err: "proxy_new s = Err e \<Longrightarrow> e = BadProxy"
  by (auto simp: proxy_new_def proxy_authority_def parse_address_def Let_def
      split: option.splits if_splits prod.splits)

end
