(* ===== verification/Hash_Map.thy ===== *)
theory Hash_Map
  imports Rust_Str "HOL-Library.AList"
begin

text \<open>
  \<open>HashMap<String, String>\<close> as the sources use it, and the interface its users rely on. A map is
  an association list with distinct keys; the order in which Rust iterates over it is
  unspecified, so functions that iterate take an argument \<open>iter\<close> that permutes the entries.
\<close>

type_synonym hashmap = "(rstring \<times> rstring) list"

definition hm_insert :: "rstring \<Rightarrow> rstring \<Rightarrow> hashmap \<Rightarrow> hashmap" where
  "hm_insert k v m = AList.update k v m"

definition hm_remove :: "rstring \<Rightarrow> hashmap \<Rightarrow> hashmap" where
  "hm_remove k m = AList.delete k m"

definition hm_get :: "hashmap \<Rightarrow> rstring \<Rightarrow> rstring option" where
  "hm_get m k = map_of m k"

definition hm_extend :: "hashmap \<Rightarrow> (rstring \<times> rstring) list \<Rightarrow> hashmap" where
  "hm_extend m kvs = fold (\<lambda>(k, v). hm_insert k v) kvs m"

definition wf_hm :: "hashmap \<Rightarrow> bool" where
  "wf_hm m \<longleftrightarrow> distinct (map fst m)"

definition hash_order :: "(hashmap \<Rightarrow> hashmap) \<Rightarrow> bool" where
  "hash_order iter \<longleftrightarrow> (\<forall>m. mset (iter m) = mset m)"

text \<open>The contract of a string-keyed map and what follows from it.\<close>

locale string_map =
  fixes ins :: "'k \<Rightarrow> 'v \<Rightarrow> 'm \<Rightarrow> 'm"
    and rem :: "'k \<Rightarrow> 'm \<Rightarrow> 'm"
    and look :: "'m \<Rightarrow> 'k \<Rightarrow> 'v option"
    and inv :: "'m \<Rightarrow> bool"
  assumes look_ins: "look (ins k v m) = (look m)(k \<mapsto> v)"
    and look_rem: "inv m \<Longrightarrow> look (rem k m) = (look m)(k := None)"
    and inv_ins: "inv m \<Longrightarrow> inv (ins k v m)"
    and inv_rem: "inv m \<Longrightarrow> inv (rem k m)"
begin

lemma look_ins_same: "look (ins k v m) k = Some v"
  by (simp add: look_ins)

lemma look_ins_other: "k' \<noteq> k \<Longrightarrow> look (ins k v m) k' = look m k'"
  by (simp add: look_ins)

lemma inv_fold_ins: "inv m \<Longrightarrow> inv (fold (\<lambda>(k, v). ins k v) kvs m)"
  by (induction kvs arbitrary: m) (auto simp: inv_ins)

text \<open>Inserting a sequence of entries keeps the last value given for each key.\<close>

lemma look_fold_ins: "look (fold (\<lambda>(k, v). ins k v) kvs m) = look m ++ map_of (rev kvs)"
  by (induction kvs arbitrary: m) (auto simp: look_ins)

end

interpretation hm: string_map hm_insert hm_remove hm_get wf_hm
proof unfold_locales
  fix k v m
  show "hm_get (hm_insert k v m) = (hm_get m)(k \<mapsto> v)"
    by (rule ext) (simp add: hm_get_def hm_insert_def update_conv)
  show "wf_hm m \<Longrightarrow> hm_get (hm_remove k m) = (hm_get m)(k := None)"
    by (rule ext) (simp add: hm_get_def hm_remove_def delete_conv)
  show "wf_hm m \<Longrightarrow> wf_hm (hm_insert k v m)"
    by (simp add: wf_hm_def hm_insert_def distinct_update)
  show "wf_hm m \<Longrightarrow> wf_hm (hm_remove k m)"
    by (simp add: wf_hm_def hm_remove_def distinct_delete)
qed

lemma hm_extend_get: "hm_get (hm_extend m kvs) = hm_get m ++ map_of (rev kvs)"
  unfolding hm_extend_def by (rule hm.look_fold_ins)

lemma wf_hm_empty [simp]: "wf_hm []"
  by (simp add: wf_hm_def)

lemma hm_get_eq: "hm_get m = map_of m"
  by (rule ext) (simp add: hm_get_def)

lemma hm_get_empty [simp]: "hm_get [] = Map.empty"
  by (simp add: hm_get_eq)

lemma hm_insert_set: "set (hm_insert k v m) \<subseteq> insert (k, v) (set m)"
  unfolding hm_insert_def by (induction m) auto

lemma hm_remove_set: "set (hm_remove k m) \<subseteq> set m"
  by (auto simp: hm_remove_def AList.delete_eq)

lemma hash_order_get: "hash_order iter \<Longrightarrow> wf_hm m \<Longrightarrow> hm_get (iter m) = hm_get m"
  unfolding hm_get_eq by (rule mset_eq_map_of) (simp_all add: hash_order_def wf_hm_def)

lemma hash_order_set: "hash_order iter \<Longrightarrow> set (iter m) = set m"
  by (metis hash_order_def set_mset_mset)

lemma hash_order_id [simp]: "hash_order (\<lambda>m. m)" "hash_order rev"
  by (simp_all add: hash_order_def)

end
