(* ===== verification/Request.thy ===== *)
theory Request
  imports Proxy Hash_Map
begin

text \<open>
  \<open>request.rs\<close>: the request builder, the parsed request and its printed form, redirection of a
  parsed request, and \<open>Proxy::connect\<close> of \<open>proxy.rs\<close>, which prints the CONNECT request.

  Functions that iterate over a hash map take the iteration order as the argument \<open>iter\<close>. The crates \<open>urlencoding\<close>, \<open>serde_json\<close> and
  \<open>base64\<close> are the arguments \<open>uenc\<close>, \<open>to_string\<close> and \<open>b64\<close>. The environment variables
  are the argument \<open>env\<close>.
\<close>

section \<open>Methods and requests\<close>

type_synonym URL = rstring

datatype http_method =
  Get | Head | Post | Put | Delete | Connect | Options | Trace | Patch | Custom rstring

fun method_fmt :: "http_method \<Rightarrow> rstring" where
  "method_fmt Get = str ''GET''"
| "method_fmt Head = str ''HEAD''"
| "method_fmt Post = str ''POST''"
| "method_fmt Put = str ''PUT''"
| "method_fmt Delete = str ''DELETE''"
| "method_fmt Connect = str ''CONNECT''"
| "method_fmt Options = str ''OPTIONS''"
| "method_fmt Trace = str ''TRACE''"
| "method_fmt Patch = str ''PATCH''"
| "method_fmt (Custom s) = s"

record request =
  req_method :: http_method
  req_url :: URL
  req_params :: rstring
  req_headers :: hashmap
  req_body :: "u8 list option"
  req_timeout :: "nat option"
  req_max_headers_size :: "usize option"
  req_max_status_line_len :: "usize option"
  req_max_redirects :: usize
  req_proxy :: "proxy option"

definition request_new :: "http_method \<Rightarrow> URL \<Rightarrow> request" where
  "request_new m url =
     \<lparr>req_method = m, req_url = url, req_params = [], req_headers = [], req_body = None,
      req_timeout = None, req_max_headers_size = None, req_max_status_line_len = None,
      req_max_redirects = 100, req_proxy = None\<rparr>"

definition with_headers :: "(rstring \<times> rstring) list \<Rightarrow> request \<Rightarrow> request" where
  "with_headers hs r = r\<lparr>req_headers := hm_extend (req_headers r) hs\<rparr>"

definition with_header :: "rstring \<Rightarrow> rstring \<Rightarrow> request \<Rightarrow> request" where
  "with_header k v r = r\<lparr>req_headers := hm_insert k v (req_headers r)\<rparr>"

definition with_body :: "u8 list \<Rightarrow> request \<Rightarrow> request" where
  "with_body body r =
     (let body_length = length body
      in with_header (str ''Content-Length'') (show_nat body_length) (r\<lparr>req_body := Some body\<rparr>))"

definition with_param :: "cfg \<Rightarrow> (rstring \<Rightarrow> rstring) \<Rightarrow> rstring \<Rightarrow> rstring \<Rightarrow> request \<Rightarrow> request" where
  "with_param cf uenc k v r =
     (let k = (if feat_urlencoding cf then uenc k else k);
          v = (if feat_urlencoding cf then uenc v else v);
          params = (if req_params r \<noteq> [] then req_params r @ [ch CHR ''&''] else req_params r)
      in r\<lparr>req_params := params @ k @ [ch CHR ''=''] @ v\<rparr>)"

definition with_json ::
    "('j \<Rightarrow> (rstring, rstring) result) \<Rightarrow> 'j \<Rightarrow> request \<Rightarrow> (request, error) result" where
  "with_json to_string body r =
     (let r = r\<lparr>req_headers := hm_insert (str ''Content-Type'')
                   (str ''application/json; charset=UTF-8'') (req_headers r)\<rparr>
      in case to_string body of
           Ok json \<Rightarrow> Ok (with_body (into_bytes json) r)
         | Err err \<Rightarrow> Err (SerdeJsonError err))"

definition with_timeout :: "nat \<Rightarrow> request \<Rightarrow> request" where
  "with_timeout t r = r\<lparr>req_timeout := Some t\<rparr>"

definition with_max_redirects :: "usize \<Rightarrow> request \<Rightarrow> request" where
  "with_max_redirects n r = r\<lparr>req_max_redirects := n\<rparr>"

definition with_max_headers_size :: "usize option \<Rightarrow> request \<Rightarrow> request" where
  "with_max_headers_size n r = r\<lparr>req_max_headers_size := n\<rparr>"

definition with_max_status_line_length :: "usize option \<Rightarrow> request \<Rightarrow> request" where
  "with_max_status_line_length n r = r\<lparr>req_max_status_line_len := n\<rparr>"

definition with_proxy :: "proxy \<Rightarrow> request \<Rightarrow> request" where
  "with_proxy p r = r\<lparr>req_proxy := Some p\<rparr>"

definition get :: "URL \<Rightarrow> request" where "get url = request_new Get url"
definition head :: "URL \<Rightarrow> request" where "head url = request_new Head url"
definition post :: "URL \<Rightarrow> request" where "post url = request_new Post url"
definition put :: "URL \<Rightarrow> request" where "put url = request_new Put url"
definition delete :: "URL \<Rightarrow> request" where "delete url = request_new Delete url"
definition connect :: "URL \<Rightarrow> request" where "connect url = request_new Connect url"
definition options :: "URL \<Rightarrow> request" where "options url = request_new Options url"
definition trace :: "URL \<Rightarrow> request" where "trace url = request_new Trace url"
definition patch :: "URL \<Rightarrow> request" where "patch url = request_new Patch url"

section \<open>Parsed requests\<close>

record parsed_request =
  pr_url :: http_url
  pr_redirects :: "http_url list"
  pr_config :: request

definition append_params :: "rstring \<Rightarrow> http_url \<Rightarrow> http_url" where
  "append_params params u =
     (if params \<noteq> [] then
        u\<lparr>path_and_query := path_and_query u
             @ (if contains (path_and_query u) (str ''?'') then str ''&'' else str ''?'') @ params\<rparr>
      else u)"

definition set_env_proxy :: "rstring option \<Rightarrow> request \<Rightarrow> request" where
  "set_env_proxy var config =
     (case var of
        None \<Rightarrow> config
      | Some v \<Rightarrow>
          (case proxy_new v of Ok p \<Rightarrow> config\<lparr>req_proxy := Some p\<rparr> | Err _ \<Rightarrow> config))"

definition default_proxy :: "cfg \<Rightarrow> environment \<Rightarrow> bool \<Rightarrow> request \<Rightarrow> request" where
  "default_proxy cf env is_https config =
     (if feat_proxy cf \<and> req_proxy config = None then
        if is_https then set_env_proxy (env (str ''https_proxy'')) config
        else if env (str ''http_proxy'') \<noteq> None then set_env_proxy (env (str ''http_proxy'')) config
        else set_env_proxy (env (str ''all_proxy'')) config
      else config)"

definition parsed_request_new ::
    "cfg \<Rightarrow> environment \<Rightarrow> request \<Rightarrow> (parsed_request, error) result" where
  "parsed_request_new cf env config =
     and_then (parse cf (req_url config) None)
       (\<lambda>url.
          let url = append_params (req_params config) url;
              config = default_proxy cf env (https url) config
          in Ok \<lparr>pr_url = url, pr_redirects = [], pr_config = config\<rparr>)"

definition not_length :: "rstring \<Rightarrow> bool" where
  "not_length key =
     (let key = to_lowercase key
      in key \<noteq> str ''content-length'' \<and> key \<noteq> str ''transfer-encoding'')"

definition header_line :: "rstring \<times> rstring \<Rightarrow> rstring" where
  "header_line kv = fst kv @ str '': '' @ snd kv @ crlf"

definition get_http_head :: "(hashmap \<Rightarrow> hashmap) \<Rightarrow> parsed_request \<Rightarrow> rstring" where
  "get_http_head iter r =
     (let config = pr_config r;
          http = method_fmt (req_method config) @ str '' '' @ path_and_query (pr_url r)
                 @ str '' HTTP/1.1'' @ crlf @ str ''Host: '' @ host (pr_url r);
          http = (case url_port (pr_url r) of
                    Explicit port \<Rightarrow> http @ str '':'' @ show_nat (unat port)
                  | _ \<Rightarrow> http);
          http = http @ crlf;
          http = fold (\<lambda>kv http. http @ header_line kv) (iter (req_headers config)) http;
          http = (if (req_method config = Post \<or> req_method config = Put \<or> req_method config = Patch)
                     \<and> list_all not_length (map fst (req_headers config))
                  then http @ str ''Content-Length: 0'' @ crlf else http)
      in http @ crlf)"

definition as_bytes :: "(hashmap \<Rightarrow> hashmap) \<Rightarrow> parsed_request \<Rightarrow> u8 list" where
  "as_bytes iter r =
     (let head = into_bytes (get_http_head iter r)
      in case req_body (pr_config r) of Some body \<Rightarrow> head @ body | None \<Rightarrow> head)"

definition push_redirect :: "http_url \<Rightarrow> parsed_request \<Rightarrow> parsed_request" where
  "push_redirect url r = r\<lparr>pr_url := url, pr_redirects := pr_redirects r @ [pr_url r]\<rparr>"

definition check_redirects :: "parsed_request \<Rightarrow> (unit, error) result" where
  "check_redirects r =
     (if length (pr_redirects r) > req_max_redirects (pr_config r) then Err TooManyRedirections
      else if list_ex (\<lambda>u. u = pr_url r) (pr_redirects r) then Err InfiniteRedirectionLoop
      else Ok ())"

definition redirect_to ::
    "cfg \<Rightarrow> rstring \<Rightarrow> parsed_request \<Rightarrow> parsed_request \<times> (unit, error) result" where
  "redirect_to cf url r =
     (let target =
        (if contains url (str ''://'') then
           map_err (\<lambda>_. invalid_protocol_error) (parse cf url (Some (pr_url r)))
         else parse cf (write_base_url_to (pr_url r) [] @ url) (Some (pr_url r)))
      in case target of
           Err e \<Rightarrow> (r, Err e)
         | Ok u \<Rightarrow> (let r' = push_redirect u r in (r', check_redirects r')))"

definition proxy_connect :: "(u8 list \<Rightarrow> rstring) \<Rightarrow> proxy \<Rightarrow> parsed_request \<Rightarrow> rstring" where
  "proxy_connect b64 p proxied_req =
     (let authorization =
        (case proxy_user p of
           Some user \<Rightarrow>
             (case proxy_kind p of
                Basic \<Rightarrow>
                  (let creds = (case proxy_password p of
                        Some password \<Rightarrow> b64 (into_bytes (user @ str '':'' @ password))
                      | None \<Rightarrow> b64 (into_bytes user))
                   in str ''Proxy-Authorization: Basic '' @ creds @ crlf))
         | None \<Rightarrow> []);
          host = host (pr_url proxied_req);
          port = port_number (url_port (pr_url proxied_req))
      in str ''CONNECT '' @ host @ str '':'' @ show_nat (unat port) @ str '' HTTP/1.1'' @ crlf
         @ authorization @ crlf)"

section \<open>Specification\<close>

definition request_line :: "parsed_request \<Rightarrow> rstring" where
  "request_line r = method_fmt (req_method (pr_config r)) @ str '' '' @ path_and_query (pr_url r) @ str '' HTTP/1.1''"

definition host_line :: "parsed_request \<Rightarrow> rstring" where
  "host_line r = str ''Host: '' @ host (pr_url r)
     @ (case url_port (pr_url r) of Explicit port \<Rightarrow> str '':'' @ show_nat (unat port) | _ \<Rightarrow> [])"

definition needs_length :: "request \<Rightarrow> bool" where
  "needs_length c \<longleftrightarrow> (req_method c = Post \<or> req_method c = Put \<or> req_method c = Patch)
     \<and> list_all not_length (map fst (req_headers c))"

definition head_lines :: "(hashmap \<Rightarrow> hashmap) \<Rightarrow> parsed_request \<Rightarrow> rstring list" where
  "head_lines iter r =
     [request_line r, host_line r]
     @ map (\<lambda>(k, v). k @ str '': '' @ v) (iter (req_headers (pr_config r)))
     @ (if needs_length (pr_config r) then [str ''Content-Length: 0''] else [])
     @ [[]]"

definition crlf_lines :: "rstring list \<Rightarrow> rstring" where
  "crlf_lines ls = concat (map (\<lambda>l. l @ crlf) ls)"

definition join_params :: "(rstring \<times> rstring) list \<Rightarrow> rstring" where
  "join_params kvs = concat (case map (\<lambda>(k, v). k @ str ''='' @ v) kvs of
     [] \<Rightarrow> [] | x # xs \<Rightarrow> x # map (\<lambda>y. str ''&'' @ y) xs)"

definition redirect_inv :: "parsed_request \<Rightarrow> bool" where
  "redirect_inv r \<longleftrightarrow>
     distinct (pr_redirects r @ [pr_url r]) \<and> length (pr_redirects r) \<le> req_max_redirects (pr_config r)"

section \<open>The printed request\<close>

lemma fold_append_lines: "fold (\<lambda>kv http. http @ f kv) kvs acc = acc @ concat (map f kvs)"
  by (induction kvs arbitrary: acc) simp_all

lemma crlf_lines_simps [simp]:
  "crlf_lines [] = []" "crlf_lines (l # ls) = l @ [13, 10] @ crlf_lines ls"
  "crlf_lines (ls @ ms) = crlf_lines ls @ crlf_lines ms"
  by (simp_all add: crlf_lines_def)

lemma header_lines: "concat (map header_line kvs) = crlf_lines (map (\<lambda>(k, v). k @ str '': '' @ v) kvs)"
  by (induction kvs) (auto simp: header_line_def)

lemma get_http_head_lines: "get_http_head iter r = crlf_lines (head_lines iter r)"
  by (auto simp: get_http_head_def head_lines_def request_line_def host_line_def needs_length_def
      fold_append_lines header_lines Let_def split: port.split)

lemma split_char_nonempty [simp]: "split_char d s \<noteq> []"
  by (induction s) (auto split: list.splits)

lemma split_char_append_delim: "d \<notin> set w \<Longrightarrow> split_char d (w @ d # s) = w # split_char d s"
  by (induction w) (auto split: list.splits)

lemma split_char_no_delim: "d \<notin> set s \<Longrightarrow> split_char d s = [s]"
  by (induction s) auto

lemma split_crlf_lines:
  "\<forall>l\<in>set ls. 10 \<notin> set l \<Longrightarrow> split_char 10 (crlf_lines ls) = map (\<lambda>l. l @ [13]) ls @ [[]]"
proof (induction ls)
  case Nil
  show ?case by simp
next
  case (Cons l ls)
  have "split_char 10 (crlf_lines (l # ls)) = split_char 10 ((l @ [13]) @ 10 # crlf_lines ls)" by simp
  also have "\<dots> = (l @ [13]) # split_char 10 (crlf_lines ls)"
    using Cons.prems by (intro split_char_append_delim) simp
  finally show ?case using Cons by simp
qed

lemma with_param_join_append:
  assumes "\<not> feat_urlencoding cf"
  shows "req_params (fold (\<lambda>(k, v). with_param cf uenc k v) kvs r) =
    (if req_params r = [] then join_params kvs
     else req_params r @ concat (map (\<lambda>(k, v). str ''&'' @ k @ str ''='' @ v) kvs))"
proof (induction kvs arbitrary: r)
  case Nil
  show ?case by (simp add: join_params_def)
next
  case (Cons kv kvs)
  obtain k v where kv: "kv = (k, v)" by fastforce
  have p: "req_params (with_param cf uenc k v r)
      = (if req_params r \<noteq> [] then req_params r @ str ''&'' else []) @ k @ str ''='' @ v"
    using assms by (simp add: with_param_def Let_def str_def)
  have n: "req_params (with_param cf uenc k v r) \<noteq> []" unfolding p by (simp add: str_def)
  have "req_params (fold (\<lambda>(k, v). with_param cf uenc k v) (kv # kvs) r)
      = req_params (with_param cf uenc k v r) @ concat (map (\<lambda>(k, v). str ''&'' @ k @ str ''='' @ v) kvs)"
    using Cons.IH [of "with_param cf uenc k v r"] n by (simp add: kv)
  then show ?case
    by (simp add: p kv join_params_def comp_def case_prod_unfold)
qed

section \<open>Redirection\<close>

lemma check_redirects_Ok:
  "check_redirects r = Ok u \<longleftrightarrow>
     length (pr_redirects r) \<le> req_max_redirects (pr_config r) \<and> pr_url r \<notin> set (pr_redirects r)"
  by (cases u) (auto simp: check_redirects_def list_ex_iff)

lemma redirect_to_Ok:
  assumes "redirect_to cf url r = (r', Ok u)"
  obtains v where "r' = push_redirect v r" "check_redirects r' = Ok ()"
    and "parse cf (if contains url (str ''://'') then url else write_base_url_to (pr_url r) [] @ url)
           (Some (pr_url r)) = Ok v"
  using assms
  by (cases u) (auto simp: redirect_to_def Let_def split: result.splits if_splits)

lemma redirect_to_config: "pr_config (fst (redirect_to cf url r)) = pr_config r"
  by (auto simp: redirect_to_def push_redirect_def Let_def split: result.splits)

lemma redirect_to_inv:
  assumes "redirect_to cf url r = (r', Ok u)" "redirect_inv r"
  shows "redirect_inv r'" "pr_redirects r' = pr_redirects r @ [pr_url r]"
  using assms by (auto elim!: redirect_to_Ok simp: redirect_inv_def check_redirects_Ok push_redirect_def)

lemma parsed_request_config:
  assumes "parsed_request_new cf env req = Ok pr"
  shows "req_timeout (pr_config pr) = req_timeout req" "req_max_headers_size (pr_config pr) = req_max_headers_size req"
    "req_method (pr_config pr) = req_method req"
  using assms
  by (cases "parse cf (req_url req) None";
      auto simp: parsed_request_new_def default_proxy_def set_env_proxy_def Let_def split: option.splits result.splits)+

lemma parsed_request_new_inv: "parsed_request_new cf env c = Ok r \<Longrightarrow> redirect_inv r"
  by (cases "parse cf (req_url c) None") (auto simp: parsed_request_new_def redirect_inv_def Let_def)

end
