(* ===== verification/Response_Reader.thy ===== *)
theory Response_Reader
  imports Request
begin

text \<open>
  The reading half of \<open>response.rs\<close>: the byte stream under a response, its two line readers,
  the status line and header parsers and \<open>read_metadata\<close>.

  The stream is \<open>ReaderStream<BufReader<HttpStream>>\<close>; what it will yield is a script of
  events, one per poll: a chunk, an I/O error, the end, or \<open>NotReady\<close>. The end repeats when it
  is polled again. After an I/O error \<open>ReaderStream\<close> has ended; scripts that go on with anything but
  \<open>Eof\<close> there are more than can happen. An exhausted script means that nothing more has arrived: the poll is pending.
  Polling a \<open>Secured\<close> stream reaches the \<open>todo!()\<close> of \<open>HttpStream::poll_read\<close> and panics.
  An \<open>async fn\<close> waits out every \<open>NotReady\<close>; a poll function returns \<open>Pending\<close> on it.
\<close>

section \<open>The stream\<close>

datatype stream_event = Chunk "u8 list" | Fail io_error | Eof | NotReady

datatype http_stream =
    Unsecured (events: "stream_event list") (timeout_at: "nat option")
  | Secured (events: "stream_event list") (timeout_at: "nat option")

type_synonym stream_item = "(u8 list, io_error) result option"

fun poll_next :: "http_stream \<Rightarrow> stream_item poll \<times> http_stream" where
  "poll_next (Unsecured [] t) = (Pending, Unsecured [] t)"
| "poll_next (Unsecured (Chunk b # es) t) = (Ready (Some (Ok b)), Unsecured es t)"
| "poll_next (Unsecured (Fail e # es) t) = (Ready (Some (Err e)), Unsecured es t)"
| "poll_next (Unsecured (Eof # es) t) = (Ready None, Unsecured (Eof # es) t)"
| "poll_next (Unsecured (NotReady # es) t) = (Pending, Unsecured es t)"
| "poll_next (Secured es t) = (Panicked, Secured es t)"

definition wait_ready :: "http_stream \<Rightarrow> http_stream" where
  "wait_ready s =
     (case s of
        Unsecured es t \<Rightarrow> Unsecured (dropWhile (\<lambda>e. e = NotReady) es) t
      | Secured es t \<Rightarrow> Secured es t)"

definition next_await :: "http_stream \<Rightarrow> stream_item poll \<times> http_stream" where
  "next_await s = poll_next (wait_ready s)"

section \<open>Reading a line\<close>

record line_acc =
  l_bytes :: "u8 list"
  new_line_flag :: bool
  l_trailing :: "u8 list"

definition line_start :: line_acc where
  "line_start = \<lparr>l_bytes = [], new_line_flag = True, l_trailing = []\<rparr>"

definition pop_cr :: "u8 list \<Rightarrow> u8 list" where
  "pop_cr bs = (if bs \<noteq> [] \<and> last bs = 13 then butlast bs else bs)"

definition push_byte :: "u8 \<Rightarrow> line_acc \<Rightarrow> line_acc" where
  "push_byte b acc =
     (if new_line_flag acc then
        if b = 10 then acc\<lparr>l_bytes := pop_cr (l_bytes acc), new_line_flag := False\<rparr>
        else acc\<lparr>l_bytes := l_bytes acc @ [b]\<rparr>
      else acc\<lparr>l_trailing := l_trailing acc @ [b]\<rparr>)"

fun push_bytes_capped :: "usize \<Rightarrow> error \<Rightarrow> u8 list \<Rightarrow> line_acc \<Rightarrow> (line_acc, error) result" where
  "push_bytes_capped max_len overflow_error [] acc = Ok acc"
| "push_bytes_capped max_len overflow_error (b # bs) acc =
     (if new_line_flag acc \<and> length (l_bytes acc) \<ge> max_len then Err overflow_error
      else push_bytes_capped max_len overflow_error bs (push_byte b acc))"

definition finish_line :: "line_acc \<Rightarrow> (rstring \<times> u8 list, error) result" where
  "finish_line acc =
     (case from_utf8 (l_bytes acc) of
        Ok line \<Rightarrow> Ok (line, l_trailing acc)
      | Err _ \<Rightarrow> Err InvalidUtf8InResponse)"

lemma wait_ready_events: "length (events (wait_ready s)) \<le> length (events s)"
  by (cases s) (simp_all add: wait_ready_def length_dropWhile_le)

lemma poll_next_Chunk:
  "poll_next s = (Ready (Some (Ok c)), s') \<longleftrightarrow> (\<exists>es t. s = Unsecured (Chunk c # es) t \<and> s' = Unsecured es t)"
  by (cases s rule: poll_next.cases) auto

lemma poll_next_shrinks:
  "poll_next s = (Ready (Some (Ok c)), s') \<Longrightarrow> length (events s') < length (events s)"
  by (auto simp: poll_next_Chunk)

lemma next_await_shrinks:
  "next_await s = (Ready (Some (Ok c)), s') \<Longrightarrow> length (events s') < length (events s)"
  unfolding next_await_def poll_next_Chunk using wait_ready_events [of s] by auto

function line_loop_async ::
    "usize \<Rightarrow> error \<Rightarrow> line_acc \<Rightarrow> http_stream \<Rightarrow> (line_acc, error) result poll \<times> http_stream" where
  "line_loop_async max_len overflow_error acc s =
     (case next_await s of
        (Ready (Some (Ok chunk)), s') \<Rightarrow>
          (case push_bytes_capped max_len overflow_error chunk acc of
             Err e \<Rightarrow> (Ready (Err e), s')
           | Ok acc' \<Rightarrow>
               if \<not> new_line_flag acc' then (Ready (Ok acc'), s')
               else line_loop_async max_len overflow_error acc' s')
      | (Ready (Some (Err err)), s') \<Rightarrow> (Ready (Err (IoError err)), s')
      | (Ready None, s') \<Rightarrow> (Ready (Ok acc), s')
      | (Pending, s') \<Rightarrow> (Pending, s')
      | (Panicked, s') \<Rightarrow> (Panicked, s'))"
  by pat_completeness auto
termination
  by (relation "measure (\<lambda>(m, e, acc, s). length (events s))") (auto dest: sym [THEN next_await_shrinks])

declare line_loop_async.simps [simp del]

definition read_line_async ::
    "usize option \<Rightarrow> error \<Rightarrow> u8 list \<Rightarrow> http_stream
      \<Rightarrow> (rstring \<times> u8 list, error) result poll \<times> http_stream" where
  "read_line_async max_len overflow_error pre s =
     (let max_len = (case max_len of Some m \<Rightarrow> m | None \<Rightarrow> usize_MAX) in
      case push_bytes_capped max_len overflow_error pre line_start of
        Err e \<Rightarrow> (Ready (Err e), s)
      | Ok acc \<Rightarrow>
          if new_line_flag acc then
            (case line_loop_async max_len overflow_error acc s of
               (Ready (Ok acc'), s') \<Rightarrow> (Ready (finish_line acc'), s')
             | (Ready (Err e), s') \<Rightarrow> (Ready (Err e), s')
             | (Pending, s') \<Rightarrow> (Pending, s')
             | (Panicked, s') \<Rightarrow> (Panicked, s'))
          else (Ready (finish_line acc), s))"

definition over_cap :: "usize option \<Rightarrow> line_acc \<Rightarrow> bool" where
  "over_cap max_len acc = (case max_len of Some m \<Rightarrow> length (l_bytes acc) \<ge> m | None \<Rightarrow> False)"

function line_loop ::
    "usize option \<Rightarrow> error \<Rightarrow> line_acc \<Rightarrow> http_stream \<Rightarrow> (line_acc, error) result poll \<times> http_stream" where
  "line_loop max_len overflow_error acc s =
     (case poll_next s of
        (Ready (Some (Ok chunk)), s') \<Rightarrow>
          if over_cap max_len acc then (Ready (Err overflow_error), s')
          else
            (let acc' = fold push_byte chunk acc in
             if \<not> new_line_flag acc' then (Ready (Ok acc'), s')
             else line_loop max_len overflow_error acc' s')
      | (Ready (Some (Err err)), s') \<Rightarrow> (Ready (Err (IoError err)), s')
      | (Ready None, s') \<Rightarrow> (Ready (Ok acc), s')
      | (Pending, s') \<Rightarrow> (Pending, s')
      | (Panicked, s') \<Rightarrow> (Panicked, s'))"
  by pat_completeness auto
termination
  by (relation "measure (\<lambda>(m, e, acc, s). length (events s))") (auto dest: sym [THEN poll_next_shrinks])

declare line_loop.simps [simp del]

definition read_line ::
    "usize option \<Rightarrow> error \<Rightarrow> u8 list \<Rightarrow> http_stream
      \<Rightarrow> (rstring \<times> u8 list, error) result poll \<times> http_stream" where
  "read_line max_len overflow_error pre s =
     (let acc = fold push_byte pre line_start in
      if new_line_flag acc then
        (case line_loop max_len overflow_error acc s of
           (Ready (Ok acc'), s') \<Rightarrow> (Ready (finish_line acc'), s')
         | (Ready (Err e), s') \<Rightarrow> (Ready (Err e), s')
         | (Pending, s') \<Rightarrow> (Pending, s')
         | (Panicked, s') \<Rightarrow> (Panicked, s'))
      else (Ready (finish_line acc), s))"

section \<open>Status line and headers\<close>

definition status_step :: "rchar \<Rightarrow> nat \<times> rstring \<times> rstring \<Rightarrow> nat \<times> rstring \<times> rstring" where
  "status_step c st =
     (case st of (spaces, status_code, reason_phrase) \<Rightarrow>
        let reason_phrase = (if spaces \<ge> 2 then reason_phrase @ [c] else reason_phrase) in
        if c = ch CHR '' '' then (spaces + 1, status_code, reason_phrase)
        else if spaces = 1 then (spaces, status_code @ [c], reason_phrase)
        else (spaces, status_code, reason_phrase))"

definition parse_status_line :: "rstring \<Rightarrow> int \<times> rstring" where
  "parse_status_line line =
     (case fold status_step line (0, [], []) of (spaces, status_code, reason_phrase) \<Rightarrow>
        (case parse_i32 status_code of
           Some code \<Rightarrow> (code, reason_phrase)
         | None \<Rightarrow> (503, str ''Server did not provide a status line'')))"

definition parse_header :: "rstring \<Rightarrow> (rstring \<times> rstring) option" where
  "parse_header line =
     (case split_first [ch CHR '':''] line of
        None \<Rightarrow> None
      | Some (name, rest) \<Rightarrow>
          let sp = (case rest of c # _ \<Rightarrow> if c < 128 then Some [c] else None | [] \<Rightarrow> None);
              value = (case sp of
                         Some s \<Rightarrow> if s = str '' '' then tl rest else rest
                       | None \<Rightarrow> rest)
          in Some (make_ascii_lowercase name, value))"

section \<open>Metadata\<close>

datatype stream_state = EndOnClose | ContentLength usize | Chunked bool usize usize

record response_metadata =
  m_status_code :: int
  m_reason_phrase :: rstring
  m_headers :: hashmap
  m_state :: stream_state
  m_max_trailing_headers_size :: "usize option"
  m_trailing_content :: "u8 list"

definition lower_cap :: "build \<Rightarrow> usize option \<Rightarrow> rstring \<Rightarrow> usize option option" where
  "lower_cap b max_headers_size line =
     (case max_headers_size of
        None \<Rightarrow> Some None
      | Some m \<Rightarrow> map_option Some (usize_sub b m (len_bytes line + 2)))"

definition insert_header :: "rstring \<Rightarrow> hashmap \<Rightarrow> hashmap" where
  "insert_header line headers =
     (case parse_header line of Some (k, v) \<Rightarrow> hm_insert k v headers | None \<Rightarrow> headers)"

text \<open>
  The header loop ends because every line that does not end it takes bytes from what the
  environment will deliver; \<open>line_loop_weight\<close> counts them.
\<close>

definition stream_weight :: "http_stream \<Rightarrow> nat" where
  "stream_weight s = sum_list (map (\<lambda>e. case e of Chunk b \<Rightarrow> length b | _ \<Rightarrow> 0) (events s))"

definition acc_weight :: "line_acc \<Rightarrow> nat" where
  "acc_weight acc = length (l_bytes acc) + length (l_trailing acc)"

lemma push_byte_weight: "acc_weight (push_byte b acc) \<le> Suc (acc_weight acc)"
  by (auto simp: push_byte_def acc_weight_def pop_cr_def)

lemma push_bytes_capped_weight:
  "push_bytes_capped m e bs acc = Ok acc' \<Longrightarrow> acc_weight acc' \<le> length bs + acc_weight acc"
proof (induction bs arbitrary: acc)
  case Nil
  then show ?case by simp
next
  case (Cons b bs)
  then have "acc_weight acc' \<le> length bs + acc_weight (push_byte b acc)"
    by (auto split: if_splits)
  then show ?case using push_byte_weight [of b acc] by simp
qed

lemma wait_ready_weight: "stream_weight (wait_ready s) = stream_weight s"
proof -
  have "sum_list (map f (dropWhile (\<lambda>e. e = NotReady) es)) = sum_list (map f es)"
    if "f NotReady = 0" for es and f :: "stream_event \<Rightarrow> nat"
    using that by (induction es) auto
  then show ?thesis by (cases s) (simp_all add: wait_ready_def stream_weight_def)
qed

lemma next_await_weight:
  "next_await s = (Ready (Some (Ok c)), s') \<Longrightarrow> stream_weight s = length c + stream_weight s'"
  "next_await s = (Ready None, s') \<Longrightarrow> stream_weight s' = stream_weight s"
proof -
  assume "next_await s = (Ready (Some (Ok c)), s')"
  then show "stream_weight s = length c + stream_weight s'"
    unfolding next_await_def poll_next_Chunk wait_ready_weight [of s, symmetric]
    by (auto simp: stream_weight_def)
next
  assume "next_await s = (Ready None, s')"
  then have "s' = wait_ready s" unfolding next_await_def by (cases "wait_ready s" rule: poll_next.cases) auto
  then show "stream_weight s' = stream_weight s" by (simp add: wait_ready_weight)
qed

lemma line_loop_weight:
  "line_loop_async m e acc s = (Ready (Ok acc'), s') \<Longrightarrow>
     acc_weight acc' + stream_weight s' \<le> acc_weight acc + stream_weight s"
proof (induction m e acc s rule: line_loop_async.induct)
  case (1 m e acc s)
  from "1.prems" consider "next_await s = (Ready None, s')" "acc' = acc"
    | chunk s1 acc1 where "next_await s = (Ready (Some (Ok chunk)), s1)"
        "push_bytes_capped m e chunk acc = Ok acc1"
        "acc' = acc1 \<and> s' = s1 \<or> new_line_flag acc1 \<and> line_loop_async m e acc1 s1 = (Ready (Ok acc'), s')"
    by (subst (asm) line_loop_async.simps)
      (auto split: prod.splits poll.splits option.splits result.splits if_splits)
  then show ?case
  proof cases
    case 1
    then show ?thesis by (simp add: next_await_weight)
  next
    case (2 chunk s1 acc1)
    have "acc_weight acc' + stream_weight s' \<le> acc_weight acc1 + stream_weight s1"
      using 2 "1.IH" by fastforce
    then show ?thesis
      using next_await_weight(1) [OF 2(1)] push_bytes_capped_weight [OF 2(2)] by simp
  qed
qed

lemma finish_line_Ok:
  "finish_line acc = Ok (line, tr) \<longleftrightarrow> from_utf8 (l_bytes acc) = Ok line \<and> tr = l_trailing acc"
  by (auto simp: finish_line_def split: result.splits)

lemma finish_line_weight: "finish_line acc = Ok (line, tr) \<Longrightarrow> len_bytes line + length tr = acc_weight acc"
  by (auto simp: finish_line_Ok from_utf8_Ok_iff len_bytes_def acc_weight_def)

lemma read_line_async_weight:
  assumes "read_line_async m e pre s = (Ready (Ok (line, tr)), s')"
  shows "len_bytes line + length tr + stream_weight s' \<le> length pre + stream_weight s"
proof -
  let ?m = "case m of Some m \<Rightarrow> m | None \<Rightarrow> usize_MAX"
  obtain acc where acc: "push_bytes_capped ?m e pre line_start = Ok acc"
    using assms by (auto simp: read_line_async_def Let_def split: result.splits)
  have a: "acc_weight acc \<le> length pre"
    using push_bytes_capped_weight [OF acc] by (simp add: acc_weight_def line_start_def)
  from assms acc obtain acc' where "finish_line acc' = Ok (line, tr)"
    "acc' = acc \<and> s' = s \<or> line_loop_async ?m e acc s = (Ready (Ok acc'), s')"
    by (auto simp: read_line_async_def Let_def split: prod.splits poll.splits result.splits if_splits)
  then show ?thesis
    using a finish_line_weight [of acc' line tr] line_loop_weight [of ?m e acc s acc' s'] by auto
qed

lemma len_bytes_pos: "line \<noteq> [] \<Longrightarrow> 0 < len_bytes line"
  using length_le_len_bytes [of line] by (cases line) auto

function header_loop ::
    "build \<Rightarrow> usize option \<Rightarrow> u8 list \<Rightarrow> hashmap \<Rightarrow> http_stream
      \<Rightarrow> (usize option \<times> u8 list \<times> hashmap, error) result poll \<times> http_stream" where
  "header_loop b max_headers_size trailing headers s =
     (case read_line_async max_headers_size HeadersOverflow trailing s of
        (Ready (Ok (line, trailing')), s') \<Rightarrow>
          if line = [] then (Ready (Ok (max_headers_size, trailing', headers)), s')
          else
            (case lower_cap b max_headers_size line of
               None \<Rightarrow> (Panicked, s')
             | Some cap \<Rightarrow> header_loop b cap trailing' (insert_header line headers) s')
      | (Ready (Err e), s') \<Rightarrow> (Ready (Err e), s')
      | (Pending, s') \<Rightarrow> (Pending, s')
      | (Panicked, s') \<Rightarrow> (Panicked, s'))"
  by pat_completeness auto
termination
  by (relation "measure (\<lambda>(b, m, tr, h, s). length tr + stream_weight s)")
    (auto dest!: sym [THEN read_line_async_weight] len_bytes_pos)

declare header_loop.simps [simp del]

fun scan_headers :: "hashmap \<Rightarrow> bool \<times> usize option \<Rightarrow> (bool \<times> usize option, error) result" where
  "scan_headers [] st = Ok st"
| "scan_headers ((header, val) # hs) (chunked, content_length) =
     (let chunked = (chunked \<or> trim (to_lowercase header) = str ''transfer-encoding''
                       \<and> trim (to_lowercase val) = str ''chunked'')
      in if trim (to_lowercase header) = str ''content-length'' then
           (case parse_uint 10 usize_MAX (trim val) of
              Some n \<Rightarrow> scan_headers hs (chunked, Some n)
            | None \<Rightarrow> Err MalformedContentLength)
         else scan_headers hs (chunked, content_length))"

definition choose_state :: "bool \<times> usize option \<Rightarrow> stream_state" where
  "choose_state st =
     (case st of (chunked, content_length) \<Rightarrow>
        if chunked then Chunked True 0 0
        else case content_length of Some n \<Rightarrow> ContentLength n | None \<Rightarrow> EndOnClose)"

definition read_metadata ::
    "build \<Rightarrow> (hashmap \<Rightarrow> hashmap) \<Rightarrow> usize option \<Rightarrow> usize option \<Rightarrow> http_stream
      \<Rightarrow> (response_metadata, error) result poll \<times> http_stream" where
  "read_metadata b iter max_headers_size max_status_line_len s =
     (case read_line_async max_status_line_len StatusLineOverflow [] s of
        (Ready (Ok (line, trailing)), s1) \<Rightarrow>
          (case header_loop b max_headers_size trailing [] s1 of
             (Ready (Ok (cap, trailing', headers)), s2) \<Rightarrow>
               (case scan_headers (iter headers) (False, None) of
                  Err e \<Rightarrow> (Ready (Err e), s2)
                | Ok st \<Rightarrow>
                    (Ready (Ok \<lparr>m_status_code = fst (parse_status_line line),
                       m_reason_phrase = snd (parse_status_line line), m_headers = headers,
                       m_state = choose_state st, m_max_trailing_headers_size = cap,
                       m_trailing_content = trailing'\<rparr>), s2))
           | (Ready (Err e), s2) \<Rightarrow> (Ready (Err e), s2)
           | (Pending, s2) \<Rightarrow> (Pending, s2)
           | (Panicked, s2) \<Rightarrow> (Panicked, s2))
      | (Ready (Err e), s1) \<Rightarrow> (Ready (Err e), s1)
      | (Pending, s1) \<Rightarrow> (Pending, s1)
      | (Panicked, s1) \<Rightarrow> (Panicked, s1))"

end
