(* ===== verification/Response_Body.thy ===== *)
theory Response_Body
  imports Response_Reader
begin

text \<open>
  The delivering half of \<open>response.rs\<close>: the lazily loaded response with its \<open>Stream\<close> and
  \<open>AsyncRead\<close> implementations, one poll function per kind of body, and \<open>Response::create\<close>,
  which drains it. Every poll function returns its outcome together with the state it leaves
  behind, also when it is pending or fails.
\<close>

definition MAX_CONTENT_LENGTH :: usize where
  "MAX_CONTENT_LENGTH = 16 * 1024"

type_synonym body_item = "(u8 list \<times> usize, error) result option"

record response_lazy =
  lz_status_code :: int
  lz_reason_phrase :: rstring
  lz_headers :: hashmap
  lz_url :: rstring
  lz_stream :: http_stream
  lz_state :: stream_state
  lz_max_trailing_headers_size :: "usize option"
  lz_trailing_content :: "u8 list option"

record response =
  resp_status_code :: int
  resp_reason_phrase :: rstring
  resp_headers :: hashmap
  resp_url :: rstring
  resp_body :: "u8 list"

definition from_stream ::
    "build \<Rightarrow> (hashmap \<Rightarrow> hashmap) \<Rightarrow> usize option \<Rightarrow> usize option \<Rightarrow> http_stream
      \<Rightarrow> (response_lazy, error) result poll" where
  "from_stream b iter max_headers_size max_status_line_len stream =
     (case read_metadata b iter max_headers_size max_status_line_len stream of
        (Ready (Ok m), stream') \<Rightarrow>
          let trailing_content = (if length (m_trailing_content m) = 0 then None
                                  else Some (m_trailing_content m))
          in Ready (Ok \<lparr>lz_status_code = m_status_code m, lz_reason_phrase = m_reason_phrase m,
               lz_headers = m_headers m, lz_url = [], lz_stream = stream', lz_state = m_state m,
               lz_max_trailing_headers_size = m_max_trailing_headers_size m,
               lz_trailing_content = trailing_content\<rparr>)
      | (Ready (Err e), stream') \<Rightarrow> Ready (Err e)
      | (Pending, stream') \<Rightarrow> Pending
      | (Panicked, stream') \<Rightarrow> Panicked)"

section \<open>The poll functions\<close>

definition process_prefix :: "u8 list \<Rightarrow> body_item poll" where
  "process_prefix pre = Ready (Some (Ok (pre, length pre)))"

definition read_until_closed :: "u8 list \<Rightarrow> http_stream \<Rightarrow> body_item poll \<times> http_stream" where
  "read_until_closed pre s =
     (if length pre > 0 then (process_prefix pre, s)
      else case poll_next s of
        (Ready (Some (Ok chunk)), s') \<Rightarrow> (Ready (Some (Ok (chunk, length chunk))), s')
      | (Ready (Some (Err err)), s') \<Rightarrow> (Ready (Some (Err (IoError err))), s')
      | (Ready None, s') \<Rightarrow> (Ready None, s')
      | (Pending, s') \<Rightarrow> (Pending, s')
      | (Panicked, s') \<Rightarrow> (Panicked, s'))"

definition read_with_content_length ::
    "build \<Rightarrow> u8 list \<Rightarrow> http_stream \<Rightarrow> usize \<Rightarrow> body_item poll \<times> http_stream \<times> usize" where
  "read_with_content_length b pre s content_length =
     (if length pre > 0 then
        (case usize_sub b content_length (length pre) of
           None \<Rightarrow> (Panicked, s, content_length)
         | Some n \<Rightarrow> (process_prefix pre, s, n))
      else if content_length > 0 then
        (case poll_next s of
           (Ready (Some (Ok chunk)), s') \<Rightarrow>
             (case usize_sub b content_length (length chunk) of
                None \<Rightarrow> (Panicked, s', content_length)
              | Some n \<Rightarrow>
                  (Ready (Some (Ok (chunk, min n MAX_CONTENT_LENGTH + length chunk))), s', n))
         | (Ready (Some (Err err)), s') \<Rightarrow> (Ready (Some (Err (IoError err))), s', content_length)
         | (Ready None, s') \<Rightarrow> (Ready None, s', content_length)
         | (Pending, s') \<Rightarrow> (Pending, s', content_length)
         | (Panicked, s') \<Rightarrow> (Panicked, s', content_length))
      else (Ready None, s, content_length))"

lemma fold_push_byte_weight: "acc_weight (fold push_byte bs acc) \<le> length bs + acc_weight acc"
proof (induction bs arbitrary: acc)
  case Nil
  show ?case by simp
next
  case (Cons b bs)
  show ?case using Cons [of "push_byte b acc"] push_byte_weight [of b acc] by simp
qed

lemma poll_next_weight:
  "poll_next s = (Ready (Some (Ok c)), s') \<Longrightarrow> stream_weight s = length c + stream_weight s'"
  "poll_next s = (Ready None, s') \<Longrightarrow> s' = s"
  by (cases s rule: poll_next.cases; auto simp: stream_weight_def)+

lemma line_loop_sync_weight:
  "line_loop m e acc s = (Ready (Ok acc'), s') \<Longrightarrow>
     acc_weight acc' + stream_weight s' \<le> acc_weight acc + stream_weight s"
proof (induction m e acc s rule: line_loop.induct)
  case (1 m e acc s)
  from "1.prems" consider "poll_next s = (Ready None, s')" "acc' = acc"
    | chunk s1 where "poll_next s = (Ready (Some (Ok chunk)), s1)" "\<not> over_cap m acc"
        "acc' = fold push_byte chunk acc \<and> s' = s1
         \<or> new_line_flag (fold push_byte chunk acc)
           \<and> line_loop m e (fold push_byte chunk acc) s1 = (Ready (Ok acc'), s')"
    by (subst (asm) line_loop.simps)
      (auto simp: Let_def split: prod.splits poll.splits option.splits result.splits if_splits)
  then show ?case
  proof cases
    case 1
    then show ?thesis by (auto dest: poll_next_weight(2))
  next
    case (2 chunk s1)
    have "acc_weight acc' + stream_weight s' \<le> acc_weight (fold push_byte chunk acc) + stream_weight s1"
      using 2 "1.IH" by fastforce
    then show ?thesis
      using poll_next_weight(1) [OF 2(1)] fold_push_byte_weight [of chunk acc] by simp
  qed
qed

lemma read_line_weight:
  assumes "read_line m e pre s = (Ready (Ok (line, tr)), s')"
  shows "len_bytes line + length tr + stream_weight s' \<le> length pre + stream_weight s"
proof -
  let ?acc = "fold push_byte pre line_start"
  have a: "acc_weight ?acc \<le> length pre"
    using fold_push_byte_weight [of pre line_start] by (simp add: acc_weight_def line_start_def)
  from assms obtain acc' where "finish_line acc' = Ok (line, tr)"
    "acc' = ?acc \<and> s' = s \<or> line_loop m e ?acc s = (Ready (Ok acc'), s')"
    by (auto simp: read_line_def Let_def split: prod.splits poll.splits result.splits if_splits)
  then show ?thesis
    using a finish_line_weight [of acc' line tr] line_loop_sync_weight [of m e ?acc s acc' s'] by auto
qed

lemma parse_header_nonempty: "parse_header line = Some kv \<Longrightarrow> 0 < len_bytes line"
  by (cases "line = []") (auto simp: parse_header_def len_bytes_pos)

function read_trailers ::
    "build \<Rightarrow> http_stream \<Rightarrow> hashmap \<Rightarrow> usize option \<Rightarrow> u8 list
      \<Rightarrow> (unit, error) result poll \<times> http_stream \<times> hashmap" where
  "read_trailers b s headers max_headers_size trailing =
     (case read_line max_headers_size HeadersOverflow trailing s of
        (Ready (Ok (trailer_line, trailing')), s') \<Rightarrow>
          (case lower_cap b max_headers_size trailer_line of
             None \<Rightarrow> (Panicked, s', headers)
           | Some cap \<Rightarrow>
               (case parse_header trailer_line of
                  Some (header, val) \<Rightarrow>
                    read_trailers b s' (hm_insert header val headers) cap trailing'
                | None \<Rightarrow> (Ready (Ok ()), s', headers)))
      | (Ready (Err e), s') \<Rightarrow> (Ready (Err e), s', headers)
      | (Pending, s') \<Rightarrow> (Pending, s', headers)
      | (Panicked, s') \<Rightarrow> (Panicked, s', headers))"
  by pat_completeness auto
termination
  by (relation "measure (\<lambda>(b, s, h, m, tr). length tr + stream_weight s)")
    (auto dest!: sym [THEN read_line_weight] parse_header_nonempty)

declare read_trailers.simps [simp del]

record chunk_state =
  ck_stream :: http_stream
  ck_headers :: hashmap
  expecting_more_chunks :: bool
  chunk_length :: usize
  ck_content_length :: usize

definition parse_chunk_length :: "rstring \<Rightarrow> usize option" where
  "parse_chunk_length length_line =
     (if length_line = [] then Some 0
      else
        let len = (case split_first [ch CHR '';''] length_line of
                     Some (i, _) \<Rightarrow> trim i
                   | None \<Rightarrow> trim length_line)
        in parse_uint 16 usize_MAX len)"

definition end_of_chunks :: "chunk_state \<Rightarrow> chunk_state" where
  "end_of_chunks c =
     c\<lparr>expecting_more_chunks := False,
       ck_headers := hm_remove (str ''transfer-encoding'')
         (hm_insert (str ''content-length'') (show_nat (ck_content_length c)) (ck_headers c))\<rparr>"

definition poll_chunk_data :: "chunk_state \<Rightarrow> body_item poll \<times> chunk_state" where
  "poll_chunk_data c =
     (if chunk_length c > 0 then
        let c = c\<lparr>chunk_length := chunk_length c - 1\<rparr> in
        (case poll_next (ck_stream c) of
           (Ready (Some (Ok chunk)), s') \<Rightarrow>
             (Ready (Some (Ok (chunk, length chunk))), c\<lparr>ck_stream := s'\<rparr>)
         | (Ready (Some (Err err)), s') \<Rightarrow>
             (Ready (Some (Err (IoError err))), c\<lparr>ck_stream := s'\<rparr>)
         | (Ready None, s') \<Rightarrow> (Ready None, c\<lparr>ck_stream := s'\<rparr>)
         | (Pending, s') \<Rightarrow> (Pending, c\<lparr>ck_stream := s'\<rparr>)
         | (Panicked, s') \<Rightarrow> (Panicked, c\<lparr>ck_stream := s'\<rparr>))
      else (Ready None, c))"

text \<open>The part of \<open>read_chunked\<close> that reads a size line: an early return on the left.\<close>

definition begin_chunk ::
    "build \<Rightarrow> u8 list \<Rightarrow> usize option \<Rightarrow> chunk_state
      \<Rightarrow> (body_item poll \<times> chunk_state) + chunk_state" where
  "begin_chunk b pre max_trailing_headers_size c =
     (case read_line (Some 1024) MalformedChunkLength pre (ck_stream c) of
        (Ready (Ok (length_line, trailing)), s') \<Rightarrow>
          let c = c\<lparr>ck_stream := s'\<rparr> in
          (case parse_chunk_length length_line of
             None \<Rightarrow> Inl (Ready (Some (Err MalformedChunkLength)), c)
           | Some incoming_length \<Rightarrow>
               if incoming_length = 0 then
                 (case read_trailers b s' (ck_headers c) max_trailing_headers_size trailing of
                    (res, s'', h) \<Rightarrow>
                      let c = c\<lparr>ck_stream := s'', ck_headers := h\<rparr> in
                      (case res of
                         Ready (Err e) \<Rightarrow> Inl (Ready (Some (Err e)), c)
                       | Pending \<Rightarrow> Inl (Pending, c)
                       | Panicked \<Rightarrow> Inl (Panicked, c)
                       | Ready (Ok u) \<Rightarrow> Inl (Ready None, end_of_chunks c)))
               else
                 (case usize_add b (ck_content_length c) incoming_length of
                    None \<Rightarrow> Inl (Panicked, c\<lparr>chunk_length := incoming_length\<rparr>)
                  | Some n \<Rightarrow> Inr (c\<lparr>chunk_length := incoming_length, ck_content_length := n\<rparr>)))
      | (Ready (Err e), s') \<Rightarrow> Inl (Ready (Some (Err e)), c\<lparr>ck_stream := s'\<rparr>)
      | (Pending, s') \<Rightarrow> Inl (Pending, c\<lparr>ck_stream := s'\<rparr>)
      | (Panicked, s') \<Rightarrow> Inl (Panicked, c\<lparr>ck_stream := s'\<rparr>))"

definition read_chunked ::
    "build \<Rightarrow> u8 list \<Rightarrow> usize option \<Rightarrow> chunk_state \<Rightarrow> body_item poll \<times> chunk_state" where
  "read_chunked b pre max_trailing_headers_size c =
     (if \<not> expecting_more_chunks c \<and> chunk_length c = 0 then (Ready None, c)
      else
        (case (if chunk_length c = 0 then begin_chunk b pre max_trailing_headers_size c else Inr c) of
           Inl return \<Rightarrow> return
         | Inr c \<Rightarrow> poll_chunk_data c))"

section \<open>The lazy response\<close>

definition lazy_poll_next :: "build \<Rightarrow> response_lazy \<Rightarrow> body_item poll \<times> response_lazy" where
  "lazy_poll_next b r =
     (let pre = (case lz_trailing_content r of Some trailing \<Rightarrow> trailing | None \<Rightarrow> []);
          r = r\<lparr>lz_trailing_content := None\<rparr>
      in case lz_state r of
           EndOnClose \<Rightarrow>
             (case read_until_closed pre (lz_stream r) of (item, s') \<Rightarrow> (item, r\<lparr>lz_stream := s'\<rparr>))
         | ContentLength n \<Rightarrow>
             (case read_with_content_length b pre (lz_stream r) n of
                (item, s', n') \<Rightarrow> (item, r\<lparr>lz_stream := s', lz_state := ContentLength n'\<rparr>))
         | Chunked expecting len sofar \<Rightarrow>
             (case read_chunked b pre (lz_max_trailing_headers_size r)
                 \<lparr>ck_stream = lz_stream r, ck_headers = lz_headers r,
                  expecting_more_chunks = expecting, chunk_length = len,
                  ck_content_length = sofar\<rparr> of
                (item, c) \<Rightarrow>
                  (item, r\<lparr>lz_stream := ck_stream c, lz_headers := ck_headers c,
                     lz_state := Chunked (expecting_more_chunks c) (chunk_length c)
                                   (ck_content_length c)\<rparr>)))"

definition lazy_poll_read ::
    "usize \<Rightarrow> response_lazy \<Rightarrow> (unit, io_error) result poll \<times> u8 list \<times> response_lazy" where
  "lazy_poll_read remaining r =
     (let pre = (case lz_trailing_content r of Some p \<Rightarrow> p | None \<Rightarrow> []) in
      if length pre > remaining then (Panicked, [], r)
      else
        let remaining = remaining - length pre; r = r\<lparr>lz_trailing_content := None\<rparr> in
        (case poll_next (lz_stream r) of
           (Ready (Some (Ok bytes)), s') \<Rightarrow>
             let len = min remaining (length bytes)
             in (Ready (Ok ()), pre @ take len bytes, r\<lparr>lz_stream := s'\<rparr>)
         | (Ready (Some (Err e)), s') \<Rightarrow> (Ready (Err e), pre, r\<lparr>lz_stream := s'\<rparr>)
         | (Ready None, s') \<Rightarrow> (Ready (Ok ()), pre, r\<lparr>lz_stream := s'\<rparr>)
         | (Pending, s') \<Rightarrow> (Pending, pre, r\<lparr>lz_stream := s'\<rparr>)
         | (Panicked, s') \<Rightarrow> (Panicked, pre, r\<lparr>lz_stream := s'\<rparr>)))"


function lazy_next :: "build \<Rightarrow> response_lazy \<Rightarrow> body_item poll \<times> response_lazy" where
  "lazy_next b r =
     (case lazy_poll_next b r of
        (Pending, r') \<Rightarrow>
          if length (events (lz_stream r')) < length (events (lz_stream r)) then lazy_next b r'
          else (Pending, r')
      | (Ready item, r') \<Rightarrow> (Ready item, r')
      | (Panicked, r') \<Rightarrow> (Panicked, r'))"
  by pat_completeness auto
termination
  by (relation "measure (\<lambda>(b, r). length (events (lz_stream r)))") auto

declare lazy_next.simps [simp del]

text \<open>
  A drained item takes an event from the stream or the bytes left over from the head, so the
  loop of \<open>Response::create\<close> ends.
\<close>

definition lazy_weight :: "response_lazy \<Rightarrow> nat" where
  "lazy_weight r = length (events (lz_stream r)) + (if lz_trailing_content r = None then 0 else 1)"

lemma poll_next_events: "poll_next s = (x, s') \<Longrightarrow> length (events s') \<le> length (events s)"
  by (cases s rule: poll_next.cases) auto

lemma line_loop_events: "line_loop m e acc s = (x, s') \<Longrightarrow> length (events s') \<le> length (events s)"
proof (induction m e acc s rule: line_loop.induct)
  case (1 m e acc s)
  obtain y s1 where y: "poll_next s = (y, s1)" by fastforce
  then have le: "length (events s1) \<le> length (events s)" by (rule poll_next_events)
  show ?case
  proof (cases "\<exists>chunk. y = Ready (Some (Ok chunk)) \<and> \<not> over_cap m acc \<and> new_line_flag (fold push_byte chunk acc)")
    case True
    then obtain chunk where c: "y = Ready (Some (Ok chunk))" "\<not> over_cap m acc"
      "new_line_flag (fold push_byte chunk acc)" by blast
    then have "line_loop m e (fold push_byte chunk acc) s1 = (x, s')"
      using "1.prems" y by (subst (asm) line_loop.simps) simp
    then have "length (events s') \<le> length (events s1)"
      using "1.IH" [OF y [symmetric] c(1) refl refl c(2) refl] c(3) by simp
    with le show ?thesis by simp
  next
    case False
    then have "s' = s1" using "1.prems" y
      by (subst (asm) line_loop.simps)
        (auto simp: Let_def split: poll.splits option.splits result.splits if_splits)
    with le show ?thesis by simp
  qed
qed

lemma read_line_events:
  assumes "read_line m e pre s = (x, s')"
  shows "length (events s') \<le> length (events s)"
proof -
  obtain y s1 where y: "line_loop m e (fold push_byte pre line_start) s = (y, s1)" by fastforce
  then have "s' = s \<or> s' = s1" using assms
    by (auto simp: read_line_def Let_def split: poll.splits result.splits if_splits)
  then show ?thesis using line_loop_events [OF y] by auto
qed

lemma poll_chunk_data_shrinks:
  assumes "poll_chunk_data c = (Ready (Some (Ok d)), c')"
  shows "length (events (ck_stream c')) < length (events (ck_stream c))"
proof -
  obtain y s where y: "poll_next (ck_stream c) = (y, s)" by fastforce
  then have "ck_stream c' = s" "\<exists>ch. y = Ready (Some (Ok ch))"
    using assms by (auto simp: poll_chunk_data_def Let_def split: if_splits poll.splits option.splits result.splits)
  then show ?thesis using y poll_next_shrinks by blast
qed

lemma begin_chunk_events:
  assumes "begin_chunk b pre m c = Inr c'"
  shows "length (events (ck_stream c')) \<le> length (events (ck_stream c))"
proof -
  obtain y s where y: "read_line (Some 1024) MalformedChunkLength pre (ck_stream c) = (y, s)" by fastforce
  then have "ck_stream c' = s" using assms
    by (auto simp: begin_chunk_def Let_def split: if_splits poll.splits result.splits option.splits prod.splits)
  then show ?thesis using read_line_events [OF y] by simp
qed

lemma begin_chunk_no_item: "begin_chunk b pre m c \<noteq> Inl (Ready (Some (Ok d)), c')"
  by (auto simp: begin_chunk_def Let_def split: if_splits poll.splits result.splits option.splits prod.splits)

lemma read_chunked_shrinks:
  assumes "read_chunked b pre m c = (Ready (Some (Ok d)), c')"
  shows "length (events (ck_stream c')) < length (events (ck_stream c))"
proof -
  from assms consider "poll_chunk_data c = (Ready (Some (Ok d)), c')"
    | c1 where "begin_chunk b pre m c = Inr c1" "poll_chunk_data c1 = (Ready (Some (Ok d)), c')"
    by (auto simp: read_chunked_def begin_chunk_no_item split: if_splits sum.splits)
  then show ?thesis by cases (use poll_chunk_data_shrinks begin_chunk_events in fastforce)+
qed

lemma lazy_poll_next_shrinks:
  assumes "lazy_poll_next b r = (Ready (Some (Ok d)), r')"
  shows "lazy_weight r' < lazy_weight r"
proof -
  define pre where "pre = (case lz_trailing_content r of Some trailing \<Rightarrow> trailing | None \<Rightarrow> [])"
  have n: "lz_trailing_content r' = None"
    using assms by (auto simp: lazy_poll_next_def Let_def split: stream_state.splits prod.splits)
  show ?thesis
  proof (cases "lz_stream r' = lz_stream r \<and> pre \<noteq> []")
    case True
    then have "lz_trailing_content r \<noteq> None" by (auto simp: pre_def split: option.splits)
    with True n show ?thesis by (simp add: lazy_weight_def)
  next
    case False
    have "length (events (lz_stream r')) < length (events (lz_stream r))"
    proof (cases "lz_state r")
      case (Chunked x y z)
      then show ?thesis using assms
        by (auto simp: lazy_poll_next_def pre_def [symmetric] Let_def split: prod.splits dest!: read_chunked_shrinks)
    next
      case EndOnClose
      then show ?thesis using assms False
        by (auto simp: lazy_poll_next_def pre_def [symmetric] read_until_closed_def process_prefix_def Let_def
            split: prod.splits if_splits poll.splits option.splits result.splits dest!: poll_next_shrinks)
    next
      case (ContentLength x)
      then show ?thesis using assms False
        by (auto simp: lazy_poll_next_def pre_def [symmetric] read_with_content_length_def process_prefix_def Let_def
            split: prod.splits if_splits poll.splits option.splits result.splits dest!: poll_next_shrinks)
    qed
    with n show ?thesis by (simp add: lazy_weight_def)
  qed
qed

lemma lazy_poll_next_pending:
  assumes "lazy_poll_next b r = (Pending, r')" shows "lz_trailing_content r' = None"
  using assms by (auto simp: lazy_poll_next_def Let_def split: stream_state.splits prod.splits)

lemma lazy_next_shrinks:
  "lazy_next b r = (Ready (Some (Ok d)), r') \<Longrightarrow> lazy_weight r' < lazy_weight r"
proof (induction b r rule: lazy_next.induct)
  case (1 b r)
  obtain y r1 where y: "lazy_poll_next b r = (y, r1)" by fastforce
  show ?case
  proof (cases y)
    case Pending
    then have l: "length (events (lz_stream r1)) < length (events (lz_stream r))"
      and "lazy_next b r1 = (Ready (Some (Ok d)), r')"
      using "1.prems" y by (simp_all add: lazy_next.simps [of b r] split: if_splits)
    then have "lazy_weight r' < lazy_weight r1" using "1.IH" y Pending by simp
    then show ?thesis using l lazy_poll_next_pending y Pending by (auto simp: lazy_weight_def)
  qed (use "1.prems" y in \<open>auto simp: lazy_next.simps [of b r] intro: lazy_poll_next_shrinks\<close>)
qed

function drain :: "build \<Rightarrow> response_lazy \<Rightarrow> u8 list \<Rightarrow> (u8 list \<times> response_lazy, error) result poll" where
  "drain b parent body =
     (case lazy_next b parent of
        (Ready (Some (Ok (bytes, len))), parent') \<Rightarrow> drain b parent' (body @ bytes)
      | (Ready (Some (Err e)), parent') \<Rightarrow> Ready (Err e)
      | (Ready None, parent') \<Rightarrow> Ready (Ok (body, parent'))
      | (Pending, parent') \<Rightarrow> Pending
      | (Panicked, parent') \<Rightarrow> Panicked)"
  by pat_completeness auto
termination
  by (relation "measure (\<lambda>(b, r, body). lazy_weight r)") (auto dest: sym [THEN lazy_next_shrinks])

declare drain.simps [simp del]

section \<open>The response\<close>

definition create :: "build \<Rightarrow> response_lazy \<Rightarrow> bool \<Rightarrow> (response, error) result poll" where
  "create b parent is_head =
     (case (if \<not> is_head \<and> lz_status_code parent \<noteq> 204 \<and> lz_status_code parent \<noteq> 304
            then drain b parent [] else Ready (Ok ([], parent))) of
        Ready (Ok (body, parent')) \<Rightarrow>
          Ready (Ok \<lparr>resp_status_code = lz_status_code parent',
            resp_reason_phrase = lz_reason_phrase parent', resp_headers = lz_headers parent',
            resp_url = lz_url parent', resp_body = body\<rparr>)
      | Ready (Err e) \<Rightarrow> Ready (Err e)
      | Pending \<Rightarrow> Pending
      | Panicked \<Rightarrow> Panicked)"

definition as_str :: "response \<Rightarrow> (rstring, error) result" where
  "as_str r = (case from_utf8 (resp_body r) of Ok s \<Rightarrow> Ok s | Err err \<Rightarrow> Err (InvalidUtf8InBody err))"

definition response_as_bytes :: "response \<Rightarrow> u8 list" where
  "response_as_bytes r = resp_body r"

definition response_into_bytes :: "response \<Rightarrow> u8 list" where
  "response_into_bytes r = resp_body r"

definition json :: "(rstring \<Rightarrow> ('j, rstring) result) \<Rightarrow> response \<Rightarrow> ('j, error) result" where
  "json from_str r =
     (case as_str r of
        Err _ \<Rightarrow> Err InvalidUtf8InResponse
      | Ok s \<Rightarrow> (case from_str s of Ok json \<Rightarrow> Ok json | Err err \<Rightarrow> Err (SerdeJsonError err)))"

end
