(* ===== verification/Line_Spec.thy ===== *)
theory Line_Spec
  imports Response_Reader
begin

text \<open>
  What the line readers of \<open>response.rs\<close> promise, as an interface, and its two
  implementations. A reader is given a prefix of bytes and a stream; what counts is the bytes
  they hold together, never how the network cut them into chunks.
\<close>

section \<open>The bytes a stream will deliver\<close>

fun stream_bytes :: "stream_event list \<Rightarrow> u8 list" where
  "stream_bytes [] = []"
| "stream_bytes (Chunk b # es) = b @ stream_bytes es"
| "stream_bytes (NotReady # es) = stream_bytes es"
| "stream_bytes (Eof # es) = []"
| "stream_bytes (Fail e # es) = []"

definition avail :: "u8 list \<Rightarrow> http_stream \<Rightarrow> u8 list" where
  "avail pre s = pre @ stream_bytes (events s)"

fun is_unsecured :: "http_stream \<Rightarrow> bool" where
  "is_unsecured (Unsecured es t) = True"
| "is_unsecured (Secured es t) = False"

definition all_ready :: "http_stream \<Rightarrow> bool" where
  "all_ready s \<longleftrightarrow> is_unsecured s \<and> NotReady \<notin> set (events s)"

definition fits_cap :: "usize option \<Rightarrow> u8 list \<Rightarrow> bool" where
  "fits_cap cap l \<longleftrightarrow> length l < (case cap of Some m \<Rightarrow> m | None \<Rightarrow> usize_MAX)"

lemma pop_cr_eq: "pop_cr l = (if suffix [13] l then take (length l - 1) l else l)"
  by (cases l rule: rev_cases) (simp_all add: pop_cr_def suffix_def)

section \<open>The contract of a line reader\<close>

locale line_reader =
  fixes rl :: "u8 list \<Rightarrow> http_stream \<Rightarrow> (rstring \<times> u8 list, error) result poll \<times> http_stream"
    and good :: "http_stream \<Rightarrow> bool"
    and fits :: "u8 list \<Rightarrow> bool"
  assumes reads:
    "good s \<Longrightarrow> avail pre s = l @ 10 # r \<Longrightarrow> 10 \<notin> set l \<Longrightarrow> fits l \<Longrightarrow>
       \<exists>acc s'. rl pre s = (Ready (finish_line acc), s') \<and> l_bytes acc = pop_cr l
              \<and> good s' \<and> avail (l_trailing acc) s' = r"
begin

lemma reads_line:
  assumes "good s" "avail pre s = l @ 10 # r" "10 \<notin> set l" "fits l" "from_utf8 (pop_cr l) = Ok line"
  obtains tr s' where "rl pre s = (Ready (Ok (line, tr)), s')" "good s'" "avail tr s' = r"
  using reads [OF assms(1-4)] assms(5) by (auto simp: finish_line_def)

lemma rejects_line:
  assumes "good s" "avail pre s = l @ 10 # r" "10 \<notin> set l" "fits l" "from_utf8 (pop_cr l) = Err e"
  shows "fst (rl pre s) = Ready (Err InvalidUtf8InResponse)"
  using reads [OF assms(1-4)] assms(5) by (auto simp: finish_line_def)

text \<open>Two deliveries of the same bytes give the same line and leave the same bytes.\<close>

lemma chunking_independent:
  assumes "good s1" "good s2" "avail p1 s1 = l @ 10 # r" "avail p2 s2 = l @ 10 # r"
    and "10 \<notin> set l" "fits l" "rl p1 s1 = (Ready (Ok (line, tr1)), t1)"
  shows "\<exists>tr2 t2. rl p2 s2 = (Ready (Ok (line, tr2)), t2) \<and> avail tr2 t2 = avail tr1 t1"
proof -
  obtain a1 where a1: "finish_line a1 = Ok (line, tr1)" "l_bytes a1 = pop_cr l" "avail (l_trailing a1) t1 = r"
    using reads [OF assms(1,3,5,6)] assms(7) by auto
  obtain a2 s' where a2: "rl p2 s2 = (Ready (finish_line a2), s')" "l_bytes a2 = pop_cr l"
    "avail (l_trailing a2) s' = r"
    using reads [OF assms(2,4,5,6)] by auto
  have "finish_line a2 = Ok (line, l_trailing a2)" "tr1 = l_trailing a1"
    using a1 a2(2) by (simp_all add: finish_line_Ok)
  then show ?thesis using a1(3) a2 by auto
qed

end

section \<open>Both readers meet it\<close>

lemma split_at_delim_unique:
  assumes "xs @ d # ys = xs' @ d # ys'" "d \<notin> set xs" "d \<notin> set xs'"
  shows "xs = xs' \<and> ys = ys'"
proof -
  have "takeWhile (\<lambda>x. x \<noteq> d) (xs @ d # ys) = xs" "takeWhile (\<lambda>x. x \<noteq> d) (xs' @ d # ys') = xs'"
    using assms(2,3) by (auto intro!: takeWhile_append_stop)
  then have "xs = xs'" using assms(1) by simp
  then show ?thesis using assms(1) by simp
qed

lemma first_delim_in_chunk:
  assumes "B @ b @ rest = l @ d # r" "d \<notin> set l" "d \<notin> set B" "d \<in> set b"
  obtains u v where "b = u @ d # v" "l = B @ u" "r = v @ rest" "d \<notin> set u"
proof -
  obtain u v where uv: "b = u @ d # v" "d \<notin> set u" using assms(4) by (metis split_list_first)
  then have "l @ d # r = (B @ u) @ d # (v @ rest)" using assms(1) by simp
  moreover have "d \<notin> set (B @ u)" using assms(3) uv by simp
  ultimately have "l = B @ u \<and> r = v @ rest"
    using assms(2) split_at_delim_unique by metis
  then show ?thesis using that uv by blast
qed

lemma delim_not_in_chunk:
  assumes "B @ b @ rest = l @ d # r" "d \<notin> set B" "d \<notin> set b"
  shows "length B + length b \<le> length l"
proof (rule ccontr)
  assume n: "\<not> ?thesis"
  have "((B @ b) @ rest) ! length l = d" using assms(1) by (metis append.assoc nth_append_length)
  then have "(B @ b) ! length l = d" using n by (metis nth_append length_append not_le)
  then have "d \<in> set (B @ b)" using n by (metis length_append not_le nth_mem)
  then show False using assms(2,3) by simp
qed

lemma push_bytes_capped_line:
  assumes "new_line_flag acc" "10 \<notin> set bs" "length (l_bytes acc) + length bs \<le> m"
  shows "push_bytes_capped m e bs acc = Ok (acc\<lparr>l_bytes := l_bytes acc @ bs\<rparr>)"
  using assms by (induction bs arbitrary: acc) (auto simp: push_byte_def)

lemma push_bytes_capped_rest:
  "\<not> new_line_flag acc \<Longrightarrow> push_bytes_capped m e bs acc = Ok (acc\<lparr>l_trailing := l_trailing acc @ bs\<rparr>)"
  by (induction bs arbitrary: acc) (auto simp: push_byte_def)

lemma push_bytes_capped_append:
  "push_bytes_capped m e (bs @ cs) acc = and_then (push_bytes_capped m e bs acc) (push_bytes_capped m e cs)"
  by (induction bs arbitrary: acc) auto

lemma push_bytes_capped_newline:
  assumes "new_line_flag acc" "10 \<notin> set u" "length (l_bytes acc) + length u < m"
  shows "push_bytes_capped m e (u @ 10 # v) acc =
    Ok (acc\<lparr>l_bytes := pop_cr (l_bytes acc @ u), new_line_flag := False, l_trailing := l_trailing acc @ v\<rparr>)"
  using assms
  by (simp add: push_bytes_capped_append push_bytes_capped_line push_byte_def push_bytes_capped_rest)

lemma fold_push_byte_eq: "push_bytes_capped m e bs acc = Ok acc' \<Longrightarrow> fold push_byte bs acc = acc'"
  by (induction bs arbitrary: acc) (auto split: if_splits)

lemma fold_push_byte_line:
  "new_line_flag acc \<Longrightarrow> 10 \<notin> set bs \<Longrightarrow> fold push_byte bs acc = acc\<lparr>l_bytes := l_bytes acc @ bs\<rparr>"
  by (rule fold_push_byte_eq) (rule push_bytes_capped_line, auto)

lemma fold_push_byte_newline:
  assumes "new_line_flag acc" "10 \<notin> set u"
  shows "fold push_byte (u @ 10 # v) acc =
    acc\<lparr>l_bytes := pop_cr (l_bytes acc @ u), new_line_flag := False, l_trailing := l_trailing acc @ v\<rparr>"
  by (rule fold_push_byte_eq) (rule push_bytes_capped_newline [OF assms lessI])

lemma next_await_simps [simp]:
  "next_await (Unsecured [] t) = (Pending, Unsecured [] t)"
  "next_await (Unsecured (Chunk b # es) t) = (Ready (Some (Ok b)), Unsecured es t)"
  "next_await (Unsecured (Fail x # es) t) = (Ready (Some (Err x)), Unsecured es t)"
  "next_await (Unsecured (Eof # es) t) = (Ready None, Unsecured (Eof # es) t)"
  "next_await (Unsecured (NotReady # es) t) = next_await (Unsecured es t)"
  "next_await (Secured es t) = (Panicked, Secured es t)"
  by (simp_all add: next_await_def wait_ready_def)

lemma line_loop_async_NotReady:
  "line_loop_async m e acc (Unsecured (NotReady # es) t) = line_loop_async m e acc (Unsecured es t)"
  by (simp add: line_loop_async.simps)

text \<open>An accumulator that is still before the newline and has kept every byte so far.\<close>

definition reading :: "line_acc \<Rightarrow> bool" where
  "reading acc \<longleftrightarrow> new_line_flag acc \<and> l_trailing acc = [] \<and> 10 \<notin> set (l_bytes acc)"

lemma line_loop_async_reads:
  assumes "reading acc" "l_bytes acc @ stream_bytes es = l @ 10 # r" "10 \<notin> set l" "length l < m"
  shows "\<exists>acc' es'. line_loop_async m e acc (Unsecured es t) = (Ready (Ok acc'), Unsecured es' t)
      \<and> l_bytes acc' = pop_cr l \<and> avail (l_trailing acc') (Unsecured es' t) = r"
  using assms
proof (induction es arbitrary: acc)
  case Nil
  then have "10 \<in> set (l_bytes acc)" by simp
  then show ?case using Nil.prems(1) by (simp add: reading_def)
next
  case (Cons ev es)
  have acc: "new_line_flag acc" "l_trailing acc = []" "10 \<notin> set (l_bytes acc)"
    using Cons.prems(1) by (auto simp: reading_def)
  show ?case
  proof (cases ev)
    case NotReady
    then show ?thesis using Cons by (simp add: line_loop_async_NotReady)
  next
    case (Chunk b)
    then have d: "l_bytes acc @ b @ stream_bytes es = l @ 10 # r" using Cons.prems(2) by simp
    show ?thesis
    proof (cases "10 \<in> set b")
      case True
      then obtain u v where uv: "b = u @ 10 # v" "l = l_bytes acc @ u" "r = v @ stream_bytes es" "10 \<notin> set u"
        using first_delim_in_chunk [OF d Cons.prems(3) acc(3)] by blast
      then show ?thesis using Chunk acc Cons.prems(4)
        by (subst line_loop_async.simps) (simp add: push_bytes_capped_newline avail_def)
    next
      case False
      have le: "length (l_bytes acc) + length b \<le> m"
        using delim_not_in_chunk [OF d acc(3) False] Cons.prems(4) by simp
      let ?acc = "acc\<lparr>l_bytes := l_bytes acc @ b\<rparr>"
      have "reading ?acc" using acc False by (simp add: reading_def)
      moreover have "line_loop_async m e acc (Unsecured (ev # es) t) = line_loop_async m e ?acc (Unsecured es t)"
        using Chunk acc le False by (subst line_loop_async.simps) (simp add: push_bytes_capped_line)
      ultimately show ?thesis using Cons.IH [of ?acc] d Cons.prems(3,4) by simp
    qed
  qed (use Cons.prems acc in \<open>auto dest: arg_cong [where f = set]\<close>)
qed

lemma line_loop_reads:
  assumes "reading acc" "l_bytes acc @ stream_bytes es = l @ 10 # r" "10 \<notin> set l" "fits_cap cap l"
    and "NotReady \<notin> set es"
  shows "\<exists>acc' es'. line_loop cap e acc (Unsecured es t) = (Ready (Ok acc'), Unsecured es' t)
      \<and> l_bytes acc' = pop_cr l \<and> avail (l_trailing acc') (Unsecured es' t) = r \<and> NotReady \<notin> set es'"
  using assms
proof (induction es arbitrary: acc)
  case Nil
  then have "10 \<in> set (l_bytes acc)" by simp
  then show ?case using Nil.prems(1) by (simp add: reading_def)
next
  case (Cons ev es)
  have acc: "new_line_flag acc" "l_trailing acc = []" "10 \<notin> set (l_bytes acc)"
    using Cons.prems(1) by (auto simp: reading_def)
  have "length (l_bytes acc) \<le> length l"
    using delim_not_in_chunk [of "l_bytes acc" "[]"] Cons.prems(2) acc(3) by simp
  then have cap: "\<not> over_cap cap acc"
    using Cons.prems(4) by (auto simp: over_cap_def fits_cap_def split: option.splits)
  show ?case
  proof (cases ev)
    case (Chunk b)
    then have d: "l_bytes acc @ b @ stream_bytes es = l @ 10 # r" using Cons.prems(2) by simp
    show ?thesis
    proof (cases "10 \<in> set b")
      case True
      then obtain u v where uv: "b = u @ 10 # v" "l = l_bytes acc @ u" "r = v @ stream_bytes es" "10 \<notin> set u"
        using first_delim_in_chunk [OF d Cons.prems(3) acc(3)] by blast
      have "line_loop cap e acc (Unsecured (ev # es) t) = (Ready (Ok (fold push_byte b acc)), Unsecured es t)"
        using Chunk acc cap uv(4) unfolding uv(1)
        by (subst line_loop.simps) (simp add: fold_push_byte_newline del: fold_append fold.simps)
      then show ?thesis using acc uv Cons.prems(5) fold_push_byte_newline [OF acc(1) uv(4), of v]
        by (auto simp: avail_def)
    next
      case False
      let ?acc = "acc\<lparr>l_bytes := l_bytes acc @ b\<rparr>"
      have "reading ?acc" using acc False by (simp add: reading_def)
      moreover have "line_loop cap e acc (Unsecured (ev # es) t) = line_loop cap e ?acc (Unsecured es t)"
        using Chunk acc cap False by (subst line_loop.simps) (simp add: fold_push_byte_line)
      ultimately show ?thesis using Cons.IH [of ?acc] d Cons.prems(3-5) by simp
    qed
  qed (use Cons.prems acc in \<open>auto dest: arg_cong [where f = set]\<close>)
qed

lemma reading_line_start [simp]: "reading line_start"
  by (simp add: reading_def line_start_def)

lemma line_start_simps [simp]:
  "l_bytes line_start = []" "new_line_flag line_start" "l_trailing line_start = []"
  by (simp_all add: line_start_def)

lemma read_line_async_reads:
  assumes s: "is_unsecured s" and a: "avail pre s = l @ 10 # r" and l: "10 \<notin> set l" and f: "fits_cap cap l"
  shows "\<exists>acc s'. read_line_async cap e pre s = (Ready (finish_line acc), s') \<and> l_bytes acc = pop_cr l
    \<and> is_unsecured s' \<and> avail (l_trailing acc) s' = r"
proof -
  obtain es t where u: "s = Unsecured es t" using s by (cases s) auto
  let ?m = "case cap of Some m \<Rightarrow> m | None \<Rightarrow> usize_MAX"
  have m: "length l < ?m" using f by (simp add: fits_cap_def)
  have d: "[] @ pre @ stream_bytes es = l @ 10 # r" using a u by (simp add: avail_def)
  show ?thesis
  proof (cases "10 \<in> set pre")
    case True
    then obtain w v where "pre = w @ 10 # v" "l = w" "r = v @ stream_bytes es" "10 \<notin> set w"
      using first_delim_in_chunk [OF d l] by auto
    then show ?thesis using u m
      by (auto simp: read_line_async_def Let_def push_bytes_capped_newline avail_def)
  next
    case False
    let ?acc = "line_start\<lparr>l_bytes := pre\<rparr>"
    have "length pre \<le> ?m" using delim_not_in_chunk [OF d _ False] m by simp
    then have p: "push_bytes_capped ?m e pre line_start = Ok ?acc"
      using False by (simp add: push_bytes_capped_line)
    have "reading ?acc" using False by (simp add: reading_def)
    then obtain acc' es' where "line_loop_async ?m e ?acc s = (Ready (Ok acc'), Unsecured es' t)"
      "l_bytes acc' = pop_cr l" "avail (l_trailing acc') (Unsecured es' t) = r"
      using line_loop_async_reads [of ?acc es l r ?m e t] d l m u by auto
    then show ?thesis using p by (auto simp: read_line_async_def Let_def)
  qed
qed

lemma read_line_reads:
  assumes s: "all_ready s" and a: "avail pre s = l @ 10 # r" and l: "10 \<notin> set l" and f: "fits_cap cap l"
  shows "\<exists>acc s'. read_line cap e pre s = (Ready (finish_line acc), s') \<and> l_bytes acc = pop_cr l
    \<and> all_ready s' \<and> avail (l_trailing acc) s' = r"
proof -
  obtain es t where u: "s = Unsecured es t" and n: "NotReady \<notin> set es"
    using s by (cases s) (auto simp: all_ready_def)
  have d: "[] @ pre @ stream_bytes es = l @ 10 # r" using a u by (simp add: avail_def)
  show ?thesis
  proof (cases "10 \<in> set pre")
    case True
    then obtain w v where w: "pre = w @ 10 # v" "l = w" "r = v @ stream_bytes es" "10 \<notin> set w"
      using first_delim_in_chunk [OF d l] by auto
    have "fold push_byte pre line_start
        = line_start\<lparr>l_bytes := pop_cr w, new_line_flag := False, l_trailing := v\<rparr>"
      unfolding w(1) using fold_push_byte_newline [of line_start w v] w(4) by simp
    then show ?thesis using u n w
      by (auto simp: read_line_def Let_def avail_def all_ready_def)
  next
    case False
    let ?acc = "line_start\<lparr>l_bytes := pre\<rparr>"
    have p: "fold push_byte pre line_start = ?acc"
      using False fold_push_byte_line [of line_start pre] by simp
    have "reading ?acc" using False by (simp add: reading_def)
    then obtain acc' es' where "line_loop cap e ?acc s = (Ready (Ok acc'), Unsecured es' t)"
      "l_bytes acc' = pop_cr l" "avail (l_trailing acc') (Unsecured es' t) = r" "NotReady \<notin> set es'"
      using line_loop_reads [of ?acc es l r cap e t] d l f n u by auto
    then show ?thesis using p by (auto simp: read_line_def Let_def all_ready_def)
  qed
qed

interpretation async_reader: line_reader "read_line_async cap e" is_unsecured "fits_cap cap"
  by unfold_locales (rule read_line_async_reads)

interpretation poll_reader: line_reader "read_line cap e" all_ready "fits_cap cap"
  by unfold_locales (rule read_line_reads)

section \<open>Overflow\<close>

lemma push_bytes_capped_overflow:
  assumes "new_line_flag acc" "length (l_bytes acc) \<le> m" "m < length (l_bytes acc) + length bs"
    and "10 \<notin> set (take (m - length (l_bytes acc)) bs)"
  shows "push_bytes_capped m e bs acc = Err e"
proof -
  let ?k = "m - length (l_bytes acc)"
  have "?k < length bs" using assms(2,3) by linarith
  then obtain b cs where d: "drop ?k bs = b # cs" by (metis Cons_nth_drop_Suc)
  have "push_bytes_capped m e (take ?k bs) acc = Ok (acc\<lparr>l_bytes := l_bytes acc @ take ?k bs\<rparr>)"
    using assms by (intro push_bytes_capped_line) auto
  moreover have "length (l_bytes acc) + length (take ?k bs) = m" using assms(2,3) by simp
  ultimately have "push_bytes_capped m e (take ?k bs @ drop ?k bs) acc = Err e"
    unfolding d push_bytes_capped_append using assms(1) by simp
  then show ?thesis by simp
qed

lemma line_loop_async_overflow:
  assumes "new_line_flag acc" "length (l_bytes acc) \<le> m" "m < length (l_bytes acc) + length (stream_bytes es)"
    and "10 \<notin> set (take (m - length (l_bytes acc)) (stream_bytes es))"
  shows "fst (line_loop_async m e acc (Unsecured es t)) = Ready (Err e)"
  using assms
proof (induction es arbitrary: acc)
  case Nil
  then show ?case by simp
next
  case (Cons ev es)
  show ?case
  proof (cases ev)
    case NotReady
    then show ?thesis using Cons by (simp add: line_loop_async_NotReady)
  next
    case (Chunk b)
    show ?thesis
    proof (cases "m < length (l_bytes acc) + length b")
      case True
      then have "push_bytes_capped m e b acc = Err e"
        using Cons.prems Chunk by (intro push_bytes_capped_overflow) auto
      then show ?thesis using Chunk by (subst line_loop_async.simps) simp
    next
      case False
      let ?acc = "acc\<lparr>l_bytes := l_bytes acc @ b\<rparr>"
      have p: "push_bytes_capped m e b acc = Ok ?acc"
        using Cons.prems Chunk False by (intro push_bytes_capped_line) auto
      have "fst (line_loop_async m e ?acc (Unsecured es t)) = Ready (Err e)"
        using Cons.prems Chunk False by (intro Cons.IH) auto
      then show ?thesis using Chunk p Cons.prems(1) by (subst line_loop_async.simps) simp
    qed
  qed (use Cons.prems in auto)
qed

lemma read_line_async_overflow:
  assumes "is_unsecured s" "m < length (avail pre s)" "10 \<notin> set (take m (avail pre s))"
  shows "fst (read_line_async (Some m) e pre s) = Ready (Err e)"
proof (cases "m < length pre")
  case True
  then have "push_bytes_capped m e pre line_start = Err e"
    using assms(3) by (intro push_bytes_capped_overflow) (auto simp: avail_def)
  then show ?thesis by (simp add: read_line_async_def)
next
  case False
  obtain es t where u: "s = Unsecured es t" using assms(1) by (cases s) auto
  let ?acc = "line_start\<lparr>l_bytes := pre\<rparr>"
  have p: "push_bytes_capped m e pre line_start = Ok ?acc"
    using False assms(3) push_bytes_capped_line [of line_start pre m e] by (simp add: avail_def)
  have "fst (line_loop_async m e ?acc s) = Ready (Err e)"
    unfolding u using False assms(2,3) u by (intro line_loop_async_overflow) (auto simp: avail_def)
  then show ?thesis using p
    by (cases "line_loop_async m e ?acc s") (simp add: read_line_async_def)
qed

end
