(* ===== verification/Metadata_Spec.thy ===== *)
theory Metadata_Spec
  imports Line_Spec
begin

text \<open>
  What \<open>read_metadata\<close> and its parsers compute: the fields of a status line, the name and value
  of a header line, and the whole head of a response, read back from its printed form however
  the network cuts it into chunks; and what the header cap does.
\<close>

section \<open>Status lines\<close>

lemma status_step_version:
  "32 \<notin> set v \<Longrightarrow> fold status_step v (0, c, r) = (0, c, r)"
  by (induction v) (auto simp: status_step_def)

lemma status_step_code:
  "32 \<notin> set v \<Longrightarrow> fold status_step v (Suc 0, c, r) = (Suc 0, c @ v, r)"
  by (induction v arbitrary: c) (auto simp: status_step_def)

lemma status_step_reason:
  "2 \<le> n \<Longrightarrow> snd (fold status_step v (n, c, r)) = (c, r @ v)"
  by (induction v arbitrary: n r) (auto simp: status_step_def Let_def)

lemma parse_status_line_fields:
  assumes "32 \<notin> set version" "32 \<notin> set code"
  shows "parse_status_line (version @ [32] @ code @ [32] @ reason) =
    (case parse_i32 code of Some n \<Rightarrow> (n, reason)
     | None \<Rightarrow> (503, str ''Server did not provide a status line''))"
proof -
  let ?st = "fold status_step (version @ [32] @ code @ [32] @ reason) (0, [], [])"
  have "?st = fold status_step reason (2, code, [])"
    using assms by (simp add: status_step_version status_step_def [of 32] status_step_code numeral_2_eq_2)
  then have "snd ?st = (code, reason)" by (simp add: status_step_reason)
  then show ?thesis
    by (cases ?st) (auto simp: parse_status_line_def split: option.split)
qed

lemma parse_i32_show: "n < 2 ^ 31 \<Longrightarrow> parse_i32 (show_nat n) = Some (int n)"
proof -
  assume n: "n < 2 ^ 31"
  obtain c r where s: "show_nat n = c # r" by (cases "show_nat n") auto
  then have "c \<noteq> 45" using show_nat_digits [of c n] by auto
  then show ?thesis using n parse_uint_show_nat [of n "2 ^ 31 - 1"] by (simp add: parse_i32_def s)
qed

section \<open>Header lines\<close>

lemma parse_header_eq:
  assumes "58 \<notin> set k"
  shows "parse_header (k @ 58 # v) =
    Some (make_ascii_lowercase k, if v \<noteq> [] \<and> hd v = 32 then tl v else v)"
  using assms by (cases v) (auto simp: parse_header_def split_first_char str_def)

lemma parse_header_None: "parse_header line = None \<longleftrightarrow> 58 \<notin> set line"
  by (auto simp: parse_header_def split_first_char_None Let_def split: option.splits)
    (metis option.distinct(1) split_first_char_None)+

lemma ascii_lower_idem [simp]: "ascii_lower (ascii_lower c) = ascii_lower c"
  by (simp add: ascii_lower_def)

lemma parse_header_lowercase:
  "parse_header line = Some (k, v) \<Longrightarrow> make_ascii_lowercase k = k \<and> 58 \<notin> set k"
  by (auto simp: parse_header_def Let_def make_ascii_lowercase_def ascii_lower_def
      split: option.splits if_splits dest!: split_first_char_Some)

section \<open>The header block\<close>

lemma byte_LF_iff: "n < 256 \<Longrightarrow> byte n = 10 \<longleftrightarrow> n = 10"
proof -
  assume n: "n < 256"
  have "byte 10 = 10" by (simp add: byte_def)
  then show ?thesis using unat_byte [OF n] unat_byte [of 10] by fastforce
qed

lemma encode_utf8_LF: "is_scalar c \<Longrightarrow> 10 \<in> set (encode_utf8 c) \<longleftrightarrow> c = 10"
proof -
  assume "is_scalar c"
  then have "c < 1114112" by (auto simp: is_scalar_def)
  then have "c div 262144 < 5" by auto
  then show ?thesis
    by (auto simp: encode_utf8_def byte_LF_iff eq_commute [of 10] less_mult_imp_div_less)
qed

lemma into_bytes_LF: "\<forall>c\<in>set s. is_scalar c \<Longrightarrow> 10 \<in> set (into_bytes s) \<longleftrightarrow> 10 \<in> set s"
  by (induction s) (auto simp: encode_utf8_LF)

text \<open>A line of text that the printed form can carry, and the bytes of lines in that form.\<close>

definition plain_line :: "rstring \<Rightarrow> bool" where
  "plain_line l \<longleftrightarrow> (\<forall>c\<in>set l. is_scalar c) \<and> 10 \<notin> set l"

definition line_bytes :: "rstring \<Rightarrow> u8 list" where
  "line_bytes l = into_bytes l @ [13, 10]"

definition block_bytes :: "rstring list \<Rightarrow> u8 list" where
  "block_bytes ls = concat (map line_bytes ls)"

definition block_size :: "rstring list \<Rightarrow> nat" where
  "block_size ls = sum_list (map (\<lambda>l. len_bytes l + 2) ls)"

lemma block_simps [simp]:
  "block_bytes [] = []" "block_bytes (l # ls) = line_bytes l @ block_bytes ls"
  "block_size [] = 0" "block_size (l # ls) = len_bytes l + 2 + block_size ls"
  by (simp_all add: block_bytes_def block_size_def)

lemma plain_line_read:
  assumes "plain_line l"
  shows "line_bytes l = (into_bytes l @ [13]) @ 10 # []" "10 \<notin> set (into_bytes l @ [13])"
    "from_utf8 (pop_cr (into_bytes l @ [13])) = Ok l" "length (into_bytes l @ [13]) = len_bytes l + 1"
  using assms
  by (simp_all add: line_bytes_def plain_line_def into_bytes_LF pop_cr_def from_utf8_Ok_iff len_bytes_def)

lemma read_plain_line:
  assumes "is_unsecured s" "avail pre s = line_bytes l @ r" "plain_line l"
    and "len_bytes l + 1 < (case cap of Some m \<Rightarrow> m | None \<Rightarrow> usize_MAX)"
  obtains tr s' where "read_line_async cap e pre s = (Ready (Ok (l, tr)), s')" "is_unsecured s'" "avail tr s' = r"
proof -
  note p = plain_line_read [OF assms(3)]
  have "avail pre s = (into_bytes l @ [13]) @ 10 # r" using assms(2) p(1) by simp
  moreover have "fits_cap cap (into_bytes l @ [13])" unfolding fits_cap_def p(4) by (rule assms(4))
  ultimately show ?thesis using async_reader.reads_line [OF assms(1) _ p(2) _ p(3)] that by blast
qed

definition block_fits :: "usize option \<Rightarrow> rstring list \<Rightarrow> bool" where
  "block_fits cap ls \<longleftrightarrow>
     (case cap of Some m \<Rightarrow> block_size ls + 2 \<le> m | None \<Rightarrow> \<forall>l\<in>set ls. len_bytes l + 1 < usize_MAX)"

lemma header_loop_end:
  assumes "is_unsecured s" "avail tr s = [13, 10] @ r" "block_fits cap []"
  shows "\<exists>tr' s'. header_loop b cap tr hm s = (Ready (Ok (cap, tr', hm)), s') \<and> is_unsecured s' \<and> avail tr' s' = r"
proof -
  have "plain_line []" "avail tr s = line_bytes [] @ r"
    using assms(2) by (simp_all add: plain_line_def line_bytes_def)
  moreover have "len_bytes [] + 1 < (case cap of Some m \<Rightarrow> m | None \<Rightarrow> usize_MAX)"
    using assms(3) by (auto simp: len_bytes_def block_fits_def usize_MAX_def split: option.splits)
  ultimately obtain tr' s' where "read_line_async cap HeadersOverflow tr s = (Ready (Ok ([], tr')), s')"
    "is_unsecured s'" "avail tr' s' = r"
    using read_plain_line [OF assms(1)] by blast
  then show ?thesis by (subst header_loop.simps) auto
qed

lemma header_loop_reads:
  assumes "is_unsecured s" "avail tr s = block_bytes hs @ [13, 10] @ body"
    and "\<forall>h\<in>set hs. plain_line h \<and> h \<noteq> []" "block_fits cap hs"
  shows "\<exists>tr' s'. header_loop b cap tr hm s =
      (Ready (Ok (map_option (\<lambda>m. m - block_size hs) cap, tr', fold insert_header hs hm)), s')
    \<and> is_unsecured s' \<and> avail tr' s' = body"
  using assms
proof (induction hs arbitrary: cap tr hm s)
  case Nil
  then show ?case using header_loop_end [of s tr body cap b hm] by (simp add: option.map_ident)
next
  case (Cons h hs)
  have a: "avail tr s = line_bytes h @ block_bytes hs @ [13, 10] @ body" using Cons.prems(2) by simp
  have p: "plain_line h" "h \<noteq> []" using Cons.prems(3) by simp_all
  have "len_bytes h + 1 < (case cap of Some m \<Rightarrow> m | None \<Rightarrow> usize_MAX)"
    using Cons.prems(4) by (auto simp: block_fits_def split: option.splits)
  then obtain tr1 s1 where r: "read_line_async cap HeadersOverflow tr s = (Ready (Ok (h, tr1)), s1)"
    "is_unsecured s1" "avail tr1 s1 = block_bytes hs @ [13, 10] @ body"
    using read_plain_line [OF Cons.prems(1) a p(1)] by blast
  define cap1 where "cap1 = map_option (\<lambda>m. m - (len_bytes h + 2)) cap"
  have c: "lower_cap b cap h = Some cap1" "block_fits cap1 hs"
    "map_option (\<lambda>m. m - block_size hs) cap1 = map_option (\<lambda>m. m - block_size (h # hs)) cap"
    using Cons.prems(4) by (auto simp: lower_cap_def block_fits_def cap1_def split: option.splits)
  have "header_loop b cap tr hm s = header_loop b cap1 tr1 (insert_header h hm) s1"
    using r(1) p(2) c(1) by (subst header_loop.simps) simp
  then show ?case using Cons.IH [OF r(2,3) _ c(2)] Cons.prems(3) c(3) by simp
qed

section \<open>The header cap\<close>

lemma read_line_capped_overflow:
  assumes "is_unsecured s" "avail tr s = line_bytes l @ r" "plain_line l" "m < len_bytes l + 2"
  shows "fst (read_line_async (Some m) e tr s) = Ready (Err e)"
proof (rule read_line_async_overflow [OF assms(1)])
  show "m < length (avail tr s)" using assms(2,4) by (simp add: line_bytes_def len_bytes_def)
  have "take m (avail tr s) = take m (into_bytes l @ [13])"
    using assms(2,4) by (auto simp: line_bytes_def len_bytes_def take_Cons' not_less)
  then show "10 \<notin> set (take m (avail tr s))"
    using plain_line_read(2) [OF assms(3)] by (metis in_set_takeD)
qed

lemma header_loop_overflow:
  assumes "is_unsecured s" "avail tr s = block_bytes hs @ [13, 10] @ body"
    and "\<forall>h\<in>set hs. plain_line h \<and> h \<noteq> []" "m < block_size hs + 2"
  shows "fst (header_loop b (Some m) tr hm s) = Ready (Err HeadersOverflow)"
  using assms
proof (induction hs arbitrary: m tr hm s)
  case Nil
  then have "fst (read_line_async (Some m) HeadersOverflow tr s) = Ready (Err HeadersOverflow)"
    using read_line_capped_overflow [of s tr "[]" body m]
    by (simp add: plain_line_def line_bytes_def len_bytes_def)
  then show ?case
    by (subst header_loop.simps) (cases "read_line_async (Some m) HeadersOverflow tr s", auto)
next
  case (Cons h hs)
  have a: "avail tr s = line_bytes h @ block_bytes hs @ [13, 10] @ body" using Cons.prems(2) by simp
  have p: "plain_line h" "h \<noteq> []" using Cons.prems(3) by simp_all
  show ?case
  proof (cases "m < len_bytes h + 2")
    case True
    then have "fst (read_line_async (Some m) HeadersOverflow tr s) = Ready (Err HeadersOverflow)"
      by (rule read_line_capped_overflow [OF Cons.prems(1) a p(1)])
    then show ?thesis
      by (subst header_loop.simps) (cases "read_line_async (Some m) HeadersOverflow tr s", auto)
  next
    case False
    then have "len_bytes h + 1 < (case Some m of Some m \<Rightarrow> m | None \<Rightarrow> usize_MAX)" by simp
    then obtain tr1 s1 where r: "read_line_async (Some m) HeadersOverflow tr s = (Ready (Ok (h, tr1)), s1)"
      "is_unsecured s1" "avail tr1 s1 = block_bytes hs @ [13, 10] @ body"
      using read_plain_line [OF Cons.prems(1) a p(1)] by blast
    have "header_loop b (Some m) tr hm s
        = header_loop b (Some (m - (len_bytes h + 2))) tr1 (insert_header h hm) s1"
      using r(1) p(2) False by (subst header_loop.simps) (simp add: lower_cap_def)
    moreover have "m - (len_bytes h + 2) < block_size hs + 2"
      using Cons.prems(4) False by simp
    ultimately show ?thesis using Cons.IH [OF r(2,3)] Cons.prems(3) by simp
  qed
qed

lemma header_loop_bare_lf:
  assumes "is_unsecured s" "avail tr s = into_bytes h @ 10 # r" "plain_line h" "h \<noteq> []" "last h \<noteq> 13"
    and m: "m = len_bytes h + 1"
  shows "fst (header_loop Debug (Some m) tr hm s) = Panicked"
    and "\<exists>tr' s'. avail tr' s' = r \<and> is_unsecured s' \<and>
      header_loop Release (Some m) tr hm s = header_loop Release (Some usize_MAX) tr' (insert_header h hm) s'"
proof -
  have sc: "\<forall>c\<in>set h. is_scalar c" and lf: "10 \<notin> set (into_bytes h)"
    using assms(3) into_bytes_LF by (auto simp: plain_line_def)
  have "last (into_bytes h) \<noteq> 13"
  proof -
    have "into_bytes h = into_bytes (butlast h) @ encode_utf8 (last h)"
      using assms(4) by (metis append_butlast_last_id append_Nil2 into_bytes_simps(1,2,3))
    moreover have "last (encode_utf8 c) = byte 13 \<Longrightarrow> c = 13" for c
      by (drule arg_cong [of _ _ unat]) (auto simp: encode_utf8_def split: if_splits)
    ultimately show ?thesis using assms(5) by (auto simp: byte_def)
  qed
  then have pc: "from_utf8 (pop_cr (into_bytes h)) = Ok h"
    using sc by (simp add: pop_cr_def from_utf8_Ok_iff)
  have fc: "fits_cap (Some m) (into_bytes h)" by (simp add: fits_cap_def m len_bytes_def)
  obtain tr1 s1 where r: "read_line_async (Some m) HeadersOverflow tr s = (Ready (Ok (h, tr1)), s1)"
    "is_unsecured s1" "avail tr1 s1 = r"
    using async_reader.reads_line [OF assms(1,2) lf fc pc] by blast
  have "lower_cap Debug (Some m) h = None" "lower_cap Release (Some m) h = Some (Some usize_MAX)"
    by (simp_all add: lower_cap_def usize_sub_def m usize_MAX_def)
  then show "fst (header_loop Debug (Some m) tr hm s) = Panicked"
    and "\<exists>tr' s'. avail tr' s' = r \<and> is_unsecured s' \<and>
      header_loop Release (Some m) tr hm s = header_loop Release (Some usize_MAX) tr' (insert_header h hm) s'"
    using r assms(4) by (auto simp: header_loop.simps [of _ "Some m"])
qed

section \<open>Reading the whole head\<close>

lemma read_metadata_reads:
  assumes s: "is_unsecured s" and a: "avail [] s = line_bytes sl @ block_bytes hs @ [13, 10] @ body"
    and p: "plain_line sl" "\<forall>h\<in>set hs. plain_line h \<and> h \<noteq> []"
    and f: "len_bytes sl + 1 < (case scap of Some m \<Rightarrow> m | None \<Rightarrow> usize_MAX)" "block_fits cap hs"
  shows "\<exists>tr s'. is_unsecured s' \<and> avail tr s' = body \<and>
    read_metadata b iter cap scap s =
      (Ready (case scan_headers (iter (fold insert_header hs [])) (False, None) of
         Err e \<Rightarrow> Err e
       | Ok st \<Rightarrow> Ok \<lparr>m_status_code = fst (parse_status_line sl),
             m_reason_phrase = snd (parse_status_line sl), m_headers = fold insert_header hs [],
             m_state = choose_state st,
             m_max_trailing_headers_size = map_option (\<lambda>m. m - block_size hs) cap,
             m_trailing_content = tr\<rparr>), s')"
proof -
  obtain tr1 s1 where r: "read_line_async scap StatusLineOverflow [] s = (Ready (Ok (sl, tr1)), s1)"
    "is_unsecured s1" "avail tr1 s1 = block_bytes hs @ [13, 10] @ body"
    using read_plain_line [OF s a p(1) f(1)] by blast
  obtain tr2 s2 where h: "header_loop b cap tr1 [] s1 =
      (Ready (Ok (map_option (\<lambda>m. m - block_size hs) cap, tr2, fold insert_header hs [])), s2)"
    "is_unsecured s2" "avail tr2 s2 = body"
    using header_loop_reads [OF r(2,3) p(2) f(2)] by blast
  then show ?thesis
    using r(1) by (intro exI [of _ tr2] exI [of _ s2]) (simp add: read_metadata_def split: result.split)
qed

lemma read_metadata_status_overflow:
  assumes "is_unsecured s" "avail [] s = line_bytes sl @ r" "plain_line sl" "m < len_bytes sl + 2"
  shows "fst (read_metadata b iter cap (Some m) s) = Ready (Err StatusLineOverflow)"
  using read_line_capped_overflow [OF assms, of StatusLineOverflow]
  by (cases "read_line_async (Some m) StatusLineOverflow [] s") (simp add: read_metadata_def)

lemma read_metadata_headers_overflow:
  assumes s: "is_unsecured s" and a: "avail [] s = line_bytes sl @ block_bytes hs @ [13, 10] @ body"
    and p: "plain_line sl" "\<forall>h\<in>set hs. plain_line h \<and> h \<noteq> []"
    and f: "len_bytes sl + 1 < (case scap of Some m \<Rightarrow> m | None \<Rightarrow> usize_MAX)" "m < block_size hs + 2"
  shows "fst (read_metadata b iter (Some m) scap s) = Ready (Err HeadersOverflow)"
proof -
  obtain tr1 s1 where r: "read_line_async scap StatusLineOverflow [] s = (Ready (Ok (sl, tr1)), s1)"
    "is_unsecured s1" "avail tr1 s1 = block_bytes hs @ [13, 10] @ body"
    using read_plain_line [OF s a p(1) f(1)] by blast
  show ?thesis using r(1) header_loop_overflow [OF r(2,3) p(2) f(2), of b "[]"]
    by (cases "header_loop b (Some m) tr1 [] s1") (simp add: read_metadata_def)
qed

lemma scan_headers_Err: "scan_headers hs st = Err e \<Longrightarrow> e = MalformedContentLength"
  by (induction hs st rule: scan_headers.induct) (auto simp: Let_def split: option.splits if_splits)

end
