(* ===== verification/Body_Spec.thy ===== *)
theory Body_Spec
  imports Response_Body Metadata_Spec
begin

text \<open>
  What \<open>Response::create\<close> delivers. The contract of a body whose extent is known is the locale
  \<open>body_reader\<close>; bodies that end with the connection and bodies with a content length meet it.
\<close>

section \<open>The contract of a body\<close>

definition body_avail :: "response_lazy \<Rightarrow> u8 list" where
  "body_avail r = avail (case lz_trailing_content r of Some t \<Rightarrow> t | None \<Rightarrow> []) (lz_stream r)"

definition same_head :: "response_lazy \<Rightarrow> response_lazy \<Rightarrow> bool" where
  "same_head r r' \<longleftrightarrow> lz_status_code r' = lz_status_code r \<and> lz_reason_phrase r' = lz_reason_phrase r
     \<and> lz_headers r' = lz_headers r \<and> lz_url r' = lz_url r"

definition response_of :: "response_lazy \<Rightarrow> u8 list \<Rightarrow> response" where
  "response_of r body = \<lparr>resp_status_code = lz_status_code r, resp_reason_phrase = lz_reason_phrase r,
     resp_headers = lz_headers r, resp_url = lz_url r, resp_body = body\<rparr>"

definition has_body :: "bool \<Rightarrow> response_lazy \<Rightarrow> bool" where
  "has_body is_head r \<longleftrightarrow> \<not> is_head \<and> lz_status_code r \<noteq> 204 \<and> lz_status_code r \<noteq> 304"

locale body_reader =
  fixes b :: build
    and good :: "response_lazy \<Rightarrow> bool"
    and left :: "response_lazy \<Rightarrow> u8 list"
  assumes step:
    "good r \<Longrightarrow>
       (\<exists>bytes n r'. lazy_next b r = (Ready (Some (Ok (bytes, n))), r') \<and> good r' \<and> same_head r r'
          \<and> left r = bytes @ left r')
     \<or> (\<exists>r'. lazy_next b r = (Ready None, r') \<and> same_head r r' \<and> left r = [])"
begin

lemma drain_left:
  "good r \<Longrightarrow> \<exists>r'. drain b r body = Ready (Ok (body @ left r, r')) \<and> same_head r r'"
proof (induction r arbitrary: body rule: measure_induct_rule [where f = lazy_weight])
  case (less r)
  from step [OF less.prems] show ?case
  proof (elim disjE exE conjE)
    fix bytes n r1
    assume r1: "lazy_next b r = (Ready (Some (Ok (bytes, n))), r1)" "good r1" "same_head r r1"
      "left r = bytes @ left r1"
    obtain r2 where "drain b r1 (body @ bytes) = Ready (Ok ((body @ bytes) @ left r1, r2))" "same_head r1 r2"
      using less.IH [OF lazy_next_shrinks [OF r1(1)] r1(2)] by blast
    then show ?thesis using r1 by (subst drain.simps) (auto simp: same_head_def)
  qed (subst drain.simps, simp)
qed

theorem create_left: "good r \<Longrightarrow> has_body h r \<Longrightarrow> create b r h = Ready (Ok (response_of r (left r)))"
  using drain_left [of r "[]"] by (auto simp: create_def has_body_def response_of_def same_head_def)

end

section \<open>Bodies that end with the connection\<close>

fun closes :: "stream_event list \<Rightarrow> bool" where
  "closes [] = False"
| "closes (Chunk b # es) = closes es"
| "closes (NotReady # es) = closes es"
| "closes (Eof # es) = True"
| "closes (Fail e # es) = False"

definition until_closed :: "response_lazy \<Rightarrow> bool" where
  "until_closed r \<longleftrightarrow> lz_state r = EndOnClose \<and> is_unsecured (lz_stream r) \<and> closes (events (lz_stream r))"

text \<open>
  With a content length the server may close early: the body then is what had arrived.
\<close>

definition within_length :: "response_lazy \<Rightarrow> bool" where
  "within_length r \<longleftrightarrow> is_unsecured (lz_stream r) \<and>
     (\<exists>n. lz_state r = ContentLength n \<and>
        (length (body_avail r) = n \<or> length (body_avail r) < n \<and> closes (events (lz_stream r))))"

lemma lazy_poll_prefix:
  assumes "lz_trailing_content r = Some pre" "pre \<noteq> []"
  shows "lz_state r = EndOnClose \<Longrightarrow>
      lazy_next b r = (Ready (Some (Ok (pre, length pre))), r\<lparr>lz_trailing_content := None\<rparr>)"
    and "lz_state r = ContentLength n \<Longrightarrow> length pre \<le> n \<Longrightarrow>
      lazy_next b r = (Ready (Some (Ok (pre, length pre))),
        r\<lparr>lz_trailing_content := None, lz_state := ContentLength (n - length pre)\<rparr>)"
  using assms by (simp_all add: lazy_next.simps [of b r] lazy_poll_next_def read_until_closed_def
      read_with_content_length_def process_prefix_def usize_sub_def)

definition no_prefix :: "response_lazy \<Rightarrow> bool" where
  "no_prefix r \<longleftrightarrow> lz_trailing_content r = None \<or> lz_trailing_content r = Some []"

lemmas lazy_next_unfold = lazy_next.simps lazy_poll_next_def read_until_closed_def
  read_with_content_length_def no_prefix_def

lemma lazy_next_cong:
  assumes "lazy_poll_next b r = lazy_poll_next b r'" "length (events (lz_stream r)) = length (events (lz_stream r'))"
  shows "lazy_next b r = lazy_next b r'"
  using assms by (simp add: lazy_next.simps [of b r] lazy_next.simps [of b r'] split: prod.split poll.split)

lemma lazy_next_NotReady:
  assumes "no_prefix r" "lz_state r = EndOnClose \<or> lz_state r = ContentLength n \<and> 0 < n"
    and "lz_stream r = Unsecured (NotReady # es) t"
  shows "lazy_next b r = lazy_next b (r\<lparr>lz_trailing_content := None, lz_stream := Unsecured es t\<rparr>)"
proof -
  have "lazy_poll_next b r = (Pending, r\<lparr>lz_trailing_content := None, lz_stream := Unsecured es t\<rparr>)"
    using assms by (cases r) (auto simp: lazy_next_unfold(2-))
  then show ?thesis using assms(3) by (simp add: lazy_next.simps [of b r])
qed

lemma lazy_next_until_closed:
  assumes "no_prefix r" "lz_state r = EndOnClose"
  shows "lz_stream r = Unsecured (Chunk c # es) t \<Longrightarrow>
      lazy_next b r = (Ready (Some (Ok (c, length c))), r\<lparr>lz_trailing_content := None, lz_stream := Unsecured es t\<rparr>)"
    and "lz_stream r = Unsecured (Eof # es) t \<Longrightarrow> lazy_next b r = (Ready None, r\<lparr>lz_trailing_content := None\<rparr>)"
  using assms by (cases r; auto simp: lazy_next_unfold)+

lemma lazy_next_content_length:
  assumes "no_prefix r" "lz_state r = ContentLength n"
  shows "n = 0 \<Longrightarrow> lazy_next b r = (Ready None, r\<lparr>lz_trailing_content := None\<rparr>)"
    and "length c \<le> n \<Longrightarrow> 0 < n \<Longrightarrow> lz_stream r = Unsecured (Chunk c # es) t \<Longrightarrow>
      lazy_next b r = (Ready (Some (Ok (c, min (n - length c) MAX_CONTENT_LENGTH + length c))),
        r\<lparr>lz_trailing_content := None, lz_stream := Unsecured es t, lz_state := ContentLength (n - length c)\<rparr>)"
    and "0 < n \<Longrightarrow> lz_stream r = Unsecured (Eof # es) t \<Longrightarrow>
      lazy_next b r = (Ready None, r\<lparr>lz_trailing_content := None\<rparr>)"
  using assms by (cases r; auto simp: lazy_next_unfold usize_sub_def)+

lemma body_avail_simps:
  "no_prefix r \<Longrightarrow> body_avail r = stream_bytes (events (lz_stream r))"
  "lz_trailing_content r = Some pre \<Longrightarrow> body_avail r = pre @ stream_bytes (events (lz_stream r))"
  by (auto simp: body_avail_def avail_def no_prefix_def)

lemma no_prefix_cases:
  obtains "no_prefix r" | pre where "lz_trailing_content r = Some pre" "pre \<noteq> []"
  by (cases "lz_trailing_content r") (auto simp: no_prefix_def)

lemma no_prefix_None [simp]: "lz_trailing_content r = None \<Longrightarrow> no_prefix r"
  by (simp add: no_prefix_def)

text \<open>The response once the stream is ready, or has nothing more.\<close>

definition settled :: "response_lazy \<Rightarrow> response_lazy" where
  "settled r = r\<lparr>lz_trailing_content := None, lz_stream := wait_ready (lz_stream r)\<rparr>"

lemma wait_ready_simps [simp]:
  "stream_bytes (events (wait_ready s)) = stream_bytes (events s)"
  "closes (events (wait_ready s)) = closes (events s)"
  "is_unsecured (wait_ready s) = is_unsecured s"
proof -
  have "stream_bytes (dropWhile (\<lambda>e. e = NotReady) es) = stream_bytes es" "closes (dropWhile (\<lambda>e. e = NotReady) es) = closes es" for es
    by (induction es) auto
  then show "stream_bytes (events (wait_ready s)) = stream_bytes (events s)"
    "closes (events (wait_ready s)) = closes (events s)" "is_unsecured (wait_ready s) = is_unsecured s"
    by (cases s; simp add: wait_ready_def)+
qed

lemma settled_simps [simp]:
  "lz_state (settled r) = lz_state r" "no_prefix (settled r)" "lz_stream (settled r) = wait_ready (lz_stream r)"
  "same_head (settled r) = same_head r" "no_prefix r \<Longrightarrow> body_avail (settled r) = body_avail r"
  by (auto simp: settled_def no_prefix_def same_head_def fun_eq_iff body_avail_def avail_def)

lemma lazy_next_settled:
  assumes "no_prefix r" "lz_state r = EndOnClose \<or> lz_state r = ContentLength n \<and> 0 < n" "lz_stream r = Unsecured es t"
  shows "lazy_next b r = lazy_next b (settled r)"
  using assms
proof (induction es arbitrary: r)
  case Nil
  then show ?case by (cases r) (auto simp: settled_def wait_ready_def lazy_next_unfold)
next
  case (Cons ev es)
  show ?case
  proof (cases "ev = NotReady")
    case True
    let ?r = "r\<lparr>lz_trailing_content := None, lz_stream := Unsecured es t\<rparr>"
    have "lazy_next b r = lazy_next b ?r" by (rule lazy_next_NotReady) (use Cons.prems True in auto)
    moreover have "settled ?r = settled r" using Cons.prems(3) True by (simp add: settled_def wait_ready_def)
    ultimately show ?thesis using Cons.IH [of ?r] Cons.prems(2) by simp
  next
    case False
    then have "settled r = r\<lparr>lz_trailing_content := None\<rparr>" using Cons.prems(3) by (cases r) (simp add: settled_def wait_ready_def)
    moreover have "lazy_poll_next b r = lazy_poll_next b (r\<lparr>lz_trailing_content := None\<rparr>)"
      using Cons.prems(1) by (auto simp: lazy_poll_next_def no_prefix_def)
    ultimately show ?thesis using lazy_next_cong [of b r "r\<lparr>lz_trailing_content := None\<rparr>"] by simp
  qed
qed

lemma wait_ready_cases:
  assumes "s = Unsecured es t"
  obtains (none) "wait_ready s = Unsecured [] t" | (chunk) c es' where "wait_ready s = Unsecured (Chunk c # es') t"
    | (eof) es' where "wait_ready s = Unsecured (Eof # es') t" | (fail) e es' where "wait_ready s = Unsecured (Fail e # es') t"
proof -
  let ?es = "dropWhile (\<lambda>e. e = NotReady) es"
  have w: "wait_ready s = Unsecured ?es t" using assms by (simp add: wait_ready_def)
  show thesis
  proof (cases ?es)
    case (Cons ev es')
    then have "ev \<noteq> NotReady" using hd_dropWhile [of "\<lambda>e. e = NotReady" es] by auto
    then show ?thesis using that w Cons by (cases ev) auto
  qed (use none w in simp)
qed

lemma until_closed_step:
  assumes "until_closed r"
  shows "(\<exists>bytes n r'. lazy_next b r = (Ready (Some (Ok (bytes, n))), r') \<and> until_closed r' \<and> same_head r r'
          \<and> body_avail r = bytes @ body_avail r')
     \<or> (\<exists>r'. lazy_next b r = (Ready None, r') \<and> same_head r r' \<and> body_avail r = [])"
proof (cases rule: no_prefix_cases [of r])
  case 1
  obtain es t where s: "lz_stream r = Unsecured es t" and st: "lz_state r = EndOnClose" and c: "closes (events (wait_ready (lz_stream r)))"
    using assms by (cases "lz_stream r") (auto simp: until_closed_def)
  have "lazy_next b r = lazy_next b (settled r)" by (rule lazy_next_settled [OF 1 _ s]) (simp add: st)
  moreover have "body_avail (settled r) = body_avail r" using 1 by simp
  ultimately show ?thesis using st c lazy_next_until_closed [of "settled r"]
    by (cases rule: wait_ready_cases [OF s]) (auto simp: until_closed_def same_head_def settled_def body_avail_simps)
qed (use assms in \<open>simp add: lazy_poll_prefix until_closed_def same_head_def body_avail_simps\<close>)

lemma within_length_step:
  assumes "within_length r"
  shows "(\<exists>bytes n r'. lazy_next b r = (Ready (Some (Ok (bytes, n))), r') \<and> within_length r' \<and> same_head r r'
          \<and> body_avail r = bytes @ body_avail r')
     \<or> (\<exists>r'. lazy_next b r = (Ready None, r') \<and> same_head r r' \<and> body_avail r = [])"
proof -
  obtain es t n where s: "lz_stream r = Unsecured es t" and st: "lz_state r = ContentLength n"
    and c: "length (body_avail r) = n \<or> length (body_avail r) < n \<and> closes (events (wait_ready (lz_stream r)))"
    using assms by (cases "lz_stream r") (auto simp: within_length_def)
  show ?thesis
  proof (cases rule: no_prefix_cases [of r])
    case (2 pre)
    have "length pre \<le> n" using c 2 by (auto simp: body_avail_simps)
    then show ?thesis using st s c 2
      by (auto simp: lazy_poll_prefix within_length_def same_head_def body_avail_simps)
  next
    case 1
    show ?thesis
    proof (cases "n = 0")
      case True
      then show ?thesis using 1 st c by (simp add: lazy_next_content_length same_head_def)
    next
      case False
      then have "lazy_next b r = lazy_next b (settled r)" by (intro lazy_next_settled [OF 1 _ s, of n]) (simp add: st)
      moreover have a: "body_avail r = stream_bytes (events (wait_ready (lz_stream r)))" using 1 by (simp add: body_avail_simps)
      moreover have "length d \<le> n" if "wait_ready (lz_stream r) = Unsecured (Chunk d # es') t" for d es' using c a that by auto
      ultimately show ?thesis using st c False lazy_next_content_length(2,3) [of "settled r" n]
        by (cases rule: wait_ready_cases [OF s]) (simp_all add: within_length_def same_head_def settled_def body_avail_simps, auto)
    qed
  qed
qed

interpretation closed_body: body_reader b until_closed body_avail
  by unfold_locales (rule until_closed_step)

interpretation sized_body: body_reader b within_length body_avail
  by unfold_locales (rule within_length_step)

section \<open>Bodies that are skipped, too long or delivered with a size hint\<close>

lemma create_no_body: "\<not> has_body h r \<Longrightarrow> create b r h = Ready (Ok (response_of r []))"
  by (auto simp: create_def has_body_def response_of_def)

lemma lazy_next_excess:
  assumes "lz_state r = ContentLength n" "0 < n" "n < length c"
    and "lz_trailing_content r = Some c \<or> no_prefix r \<and> lz_stream r = Unsecured (Chunk c # es) t"
  shows "fst (lazy_next Debug r) = Panicked"
    and "\<exists>k r'. lazy_next Release r = (Ready (Some (Ok (c, k))), r')
           \<and> lz_state r' = ContentLength (n + 2 ^ 64 - length c)"
  using assms by (cases r; auto simp: lazy_next_unfold usize_sub_def process_prefix_def)+

lemma lazy_poll_next_hint:
  "lazy_poll_next b r = (Ready (Some (Ok (bytes, n))), r') \<Longrightarrow>
     length bytes \<le> n \<and> n \<le> length bytes + MAX_CONTENT_LENGTH"
  using begin_chunk_no_item
  by (fastforce simp: lazy_poll_next_def read_until_closed_def read_with_content_length_def process_prefix_def
      read_chunked_def poll_chunk_data_def Let_def
      split: stream_state.splits prod.splits if_splits poll.splits option.splits result.splits sum.splits)

lemma lazy_next_hint:
  "lazy_next b r = (Ready (Some (Ok (bytes, n))), r') \<Longrightarrow>
     length bytes \<le> n \<and> n \<le> length bytes + MAX_CONTENT_LENGTH"
proof (induction b r rule: lazy_next.induct)
  case (1 b r)
  then show ?case
    by (subst (asm) lazy_next.simps)
      (auto split: prod.splits poll.splits if_splits dest: lazy_poll_next_hint)
qed

section \<open>A whole response\<close>

text \<open>What every step of the stream keeps is kept while the head of a response is read.\<close>

locale stream_invariant =
  fixes P :: "http_stream \<Rightarrow> bool"
  assumes next_keeps: "next_await s = (x, s') \<Longrightarrow> P s \<Longrightarrow> P s'"
begin

lemma line_loop_async_keeps:
  "line_loop_async m e acc s = (x, s') \<Longrightarrow> P s \<Longrightarrow> P s'"
proof (induction m e acc s rule: line_loop_async.induct)
  case (1 m e acc s)
  obtain y s1 where y: "next_await s = (y, s1)" by fastforce
  then have c: "P s1" using "1.prems"(2) by (rule next_keeps)
  show ?case
  proof (cases "s' = s1")
    case False
    then obtain chunk acc' where a: "y = Ready (Some (Ok chunk))" "push_bytes_capped m e chunk acc = Ok acc'"
      "new_line_flag acc'" "line_loop_async m e acc' s1 = (x, s')"
      using "1.prems"(1) y
      by (subst (asm) line_loop_async.simps) (auto split: poll.splits option.splits result.splits if_splits)
    show ?thesis
      using "1.IH" [OF y [symmetric] a(1) refl refl a(2)] a(3,4) c by simp
  qed (use c in simp)
qed

lemma read_line_async_keeps:
  assumes "read_line_async m e pre s = (x, s')" "P s"
  shows "P s'"
proof -
  let ?m = "case m of Some m \<Rightarrow> m | None \<Rightarrow> usize_MAX"
  have "s' = s \<or> (\<exists>acc y. line_loop_async ?m e acc s = (y, s'))" using assms(1)
    by (auto simp: read_line_async_def Let_def split: prod.splits poll.splits result.splits if_splits)
  then show ?thesis using line_loop_async_keeps assms(2) by blast
qed

lemma header_loop_keeps:
  "header_loop b m tr h s = (x, s') \<Longrightarrow> P s \<Longrightarrow> P s'"
proof (induction b m tr h s rule: header_loop.induct)
  case (1 b m tr h s)
  obtain y s1 where y: "read_line_async m HeadersOverflow tr s = (y, s1)" by fastforce
  then have c: "P s1" using "1.prems"(2) by (rule read_line_async_keeps)
  show ?case
  proof (cases "s' = s1")
    case False
    then obtain line tr' cap where a: "y = Ready (Ok (line, tr'))" "line \<noteq> []" "lower_cap b m line = Some cap"
      "header_loop b cap tr' (insert_header line h) s1 = (x, s')"
      using "1.prems"(1) y
      by (subst (asm) header_loop.simps) (auto split: poll.splits option.splits result.splits if_splits)
    show ?thesis using "1.IH" [OF y [symmetric] a(1) refl refl a(2,3,4) c] .
  qed (use c in simp)
qed

lemma read_metadata_keeps:
  assumes "read_metadata b iter m n s = (x, s')" "P s"
  shows "P s'"
proof -
  obtain y s1 where y: "read_line_async n StatusLineOverflow [] s = (y, s1)" by fastforce
  then have c: "P s1" using assms(2) by (rule read_line_async_keeps)
  have "s' = s1 \<or> (\<exists>tr z. header_loop b m tr [] s1 = (z, s'))" using assms(1) y
    by (auto simp: read_metadata_def split: prod.splits poll.splits result.splits)
  then show ?thesis using header_loop_keeps c by blast
qed

end

text \<open>How a stream ends: it is closed, it fails, or nothing more arrives.\<close>

datatype ending = Closed | Stalled | Failed io_error

fun ending_of :: "stream_event list \<Rightarrow> ending" where
  "ending_of [] = Stalled"
| "ending_of (Chunk b # es) = ending_of es"
| "ending_of (NotReady # es) = ending_of es"
| "ending_of (Eof # es) = Closed"
| "ending_of (Fail e # es) = Failed e"

text \<open>What a reader that wants more bytes than there are returns, \<open>a\<close> being what it has.\<close>

fun at_end :: "'a \<Rightarrow> ending \<Rightarrow> ('a, error) result poll" where
  "at_end a Closed = Ready (Ok a)"
| "at_end a Stalled = Pending"
| "at_end a (Failed e) = Ready (Err (IoError e))"

lemma closes_ending: "closes es \<longleftrightarrow> ending_of es = Closed"
  by (induction es rule: closes.induct) auto

text \<open>A server that neither closes the connection nor fails, but sends nothing more.\<close>

fun stalls :: "stream_event list \<Rightarrow> bool" where
  "stalls [] = True"
| "stalls (Chunk b # es) = stalls es"
| "stalls (NotReady # es) = stalls es"
| "stalls (Eof # es) = False"
| "stalls (Fail e # es) = False"

lemma stalls_ending: "stalls es \<longleftrightarrow> ending_of es = Stalled"
  by (induction es rule: stalls.induct) auto

lemma next_await_closes: "next_await s = (x, s') \<Longrightarrow> closes (events s) \<Longrightarrow> closes (events s')"
proof (cases s)
  case (Unsecured es t)
  moreover assume "next_await s = (x, s')" "closes (events s)"
  ultimately show ?thesis
  proof (induction es arbitrary: s)
    case (Cons ev es)
    then show ?case by (cases ev) auto
  qed simp
qed auto

lemma next_await_stalls: "next_await s = (x, s') \<Longrightarrow> stalls (events s) \<Longrightarrow> stalls (events s')"
proof (cases s)
  case (Unsecured es t)
  moreover assume "next_await s = (x, s')" "stalls (events s)"
  ultimately show ?thesis
  proof (induction es arbitrary: s)
    case (Cons ev es)
    then show ?case by (cases ev) auto
  qed auto
qed auto

interpretation closing: stream_invariant "\<lambda>s. closes (events s)"
  by unfold_locales (rule next_await_closes)

interpretation stalling: stream_invariant "\<lambda>s. stalls (events s)"
  by unfold_locales (rule next_await_stalls)

text \<open>The bytes of a response as a server prints it.\<close>

definition response_bytes :: "rstring \<Rightarrow> rstring list \<Rightarrow> u8 list \<Rightarrow> u8 list" where
  "response_bytes status_line headers body =
     line_bytes status_line @ block_bytes headers @ [13, 10] @ body"

lemma from_stream_reads:
  assumes s: "is_unsecured s" and a: "avail [] s = response_bytes sl hs body"
    and p: "plain_line sl" "\<forall>h\<in>set hs. plain_line h \<and> h \<noteq> []"
    and f: "len_bytes sl + 1 < (case scap of Some m \<Rightarrow> m | None \<Rightarrow> usize_MAX)" "block_fits cap hs"
    and sc: "scan_headers (iter (fold insert_header hs [])) (False, None) = Ok st"
  shows "\<exists>r. from_stream b iter cap scap s = Ready (Ok r) \<and> is_unsecured (lz_stream r) \<and> body_avail r = body
    \<and> lz_state r = choose_state st \<and> (closes (events s) \<longrightarrow> closes (events (lz_stream r)))
    \<and> (stalls (events s) \<longrightarrow> stalls (events (lz_stream r)))
    \<and> response_of r body = \<lparr>resp_status_code = fst (parse_status_line sl),
        resp_reason_phrase = snd (parse_status_line sl), resp_headers = fold insert_header hs [],
        resp_url = [], resp_body = body\<rparr>"
proof -
  obtain tr s' where m: "is_unsecured s'" "avail tr s' = body"
    "read_metadata b iter cap scap s = (Ready (Ok \<lparr>m_status_code = fst (parse_status_line sl),
             m_reason_phrase = snd (parse_status_line sl), m_headers = fold insert_header hs [],
             m_state = choose_state st,
             m_max_trailing_headers_size = map_option (\<lambda>m. m - block_size hs) cap,
             m_trailing_content = tr\<rparr>), s')"
    using read_metadata_reads [OF s _ p f, of body b iter] a sc by (auto simp: response_bytes_def)
  then show ?thesis using closing.read_metadata_keeps [OF m(3)] stalling.read_metadata_keeps [OF m(3)]
    by (auto simp: from_stream_def Let_def body_avail_def response_of_def)
qed

section \<open>Bodies that do not arrive\<close>

text \<open>A body of which more is expected, on a stream that stalls or fails.\<close>

definition starving :: "response_lazy \<Rightarrow> bool" where
  "starving r \<longleftrightarrow> is_unsecured (lz_stream r) \<and> ending_of (events (lz_stream r)) \<noteq> Closed \<and>
     (lz_state r = EndOnClose \<or> (\<exists>n. lz_state r = ContentLength n \<and> length (body_avail r) < n))"

definition starved :: "ending \<Rightarrow> body_item poll \<Rightarrow> bool" where
  "starved d p \<longleftrightarrow> d = Stalled \<and> p = Pending \<or> (\<exists>e. d = Failed e \<and> p = Ready (Some (Err (IoError e))))"

lemma lazy_next_exhausted:
  assumes "no_prefix r" "lz_state r = EndOnClose \<or> lz_state r = ContentLength n \<and> 0 < n"
  shows "lz_stream r = Unsecured [] t \<Longrightarrow> fst (lazy_next b r) = Pending"
    and "lz_stream r = Unsecured (Fail e # es) t \<Longrightarrow> fst (lazy_next b r) = Ready (Some (Err (IoError e)))"
  using assms by (cases r; auto simp: lazy_next_unfold)+

lemma ending_of_wait_ready [simp]: "ending_of (events (wait_ready s)) = ending_of (events s)"
proof -
  have "ending_of (dropWhile (\<lambda>e. e = NotReady) es) = ending_of es" for es by (induction es) auto
  then show ?thesis by (cases s) (simp_all add: wait_ready_def)
qed

text \<open>One poll of a starving body: a piece is delivered, or there is none, as the connection ends.\<close>

lemma starving_piece:
  assumes "starving r" "lz_stream r = Unsecured (Chunk d # es) t" "no_prefix r"
  shows "\<exists>n r'. lazy_next b r = (Ready (Some (Ok (d, n))), r') \<and> starving r' \<and> ending_of (events (lz_stream r')) = ending_of es"
proof (cases "lz_state r = EndOnClose")
  case True
  then show ?thesis using assms by (simp add: lazy_next_until_closed starving_def)
next
  case False
  then obtain n where n: "lz_state r = ContentLength n" "length (body_avail r) < n" using assms(1) by (auto simp: starving_def)
  then have fits: "length d \<le> n" "0 < n" using assms(2,3) by (auto simp: body_avail_simps)
  show ?thesis
    using lazy_next_content_length(2) [OF assms(3) n(1) fits assms(2), of b] assms n
    by (simp add: starving_def body_avail_simps less_diff_conv)
qed

lemma starving_prefix:
  assumes "starving r" "lz_trailing_content r = Some pre" "pre \<noteq> []"
  shows "\<exists>n r'. lazy_next b r = (Ready (Some (Ok (pre, n))), r') \<and> starving r' \<and> lz_stream r' = lz_stream r"
proof (cases "lz_state r = EndOnClose")
  case True
  then show ?thesis using assms by (simp add: lazy_poll_prefix starving_def)
next
  case False
  then obtain n where n: "lz_state r = ContentLength n" "length (body_avail r) < n" using assms(1) by (auto simp: starving_def)
  then have "length pre \<le> n" using assms(2) by (simp add: body_avail_simps)
  then show ?thesis using assms n by (auto simp: lazy_poll_prefix starving_def body_avail_simps)
qed

lemma starving_step:
  assumes "starving r"
  shows "starved (ending_of (events (lz_stream r))) (fst (lazy_next b r))
    \<or> (\<exists>bytes n r'. lazy_next b r = (Ready (Some (Ok (bytes, n))), r') \<and> starving r'
         \<and> ending_of (events (lz_stream r')) = ending_of (events (lz_stream r)))"
proof (cases rule: no_prefix_cases [of r])
  case (2 pre)
  then show ?thesis using starving_prefix [OF assms 2, of b] by fastforce
next
  case 1
  obtain es t n where s: "lz_stream r = Unsecured es t"
    and n: "lz_state r = EndOnClose \<or> lz_state r = ContentLength n \<and> 0 < n"
    using assms by (cases "lz_stream r") (auto simp: starving_def)
  have q: "lazy_next b r = lazy_next b (settled r)" by (rule lazy_next_settled [OF 1 n s])
  have g: "starving (settled r)" "ending_of (events (wait_ready (lz_stream r))) = ending_of (events (lz_stream r))"
    using assms 1 by (auto simp: starving_def)
  show ?thesis
    using lazy_next_exhausted [of "settled r" n] starving_piece [OF g(1), of _ _ t b] n q g assms
    by (cases rule: wait_ready_cases [OF s]) (fastforce simp: starved_def starving_def)+
qed

lemma drain_starving: "starving r \<Longrightarrow> drain b r body = at_end a (ending_of (events (lz_stream r)))"
proof (induction r arbitrary: body rule: measure_induct_rule [where f = lazy_weight])
  case (less r)
  from starving_step [OF less.prems, of b] show ?case
  proof (elim disjE exE conjE)
    assume "starved (ending_of (events (lz_stream r))) (fst (lazy_next b r))"
    then show ?thesis by (cases "lazy_next b r") (auto simp: drain.simps starved_def)
  next
    fix bytes n r1
    assume r1: "lazy_next b r = (Ready (Some (Ok (bytes, n))), r1)" "starving r1"
      "ending_of (events (lz_stream r1)) = ending_of (events (lz_stream r))"
    then show ?thesis using less.IH [OF lazy_next_shrinks [OF r1(1)] r1(2)] by (subst drain.simps) simp
  qed
qed

lemma create_starving:
  assumes "starving r" "has_body h r"
  shows "create b r h = at_end a (ending_of (events (lz_stream r)))"
proof -
  have "ending_of (events (lz_stream r)) \<noteq> Closed" using assms(1) by (simp add: starving_def)
  then show ?thesis using assms(2) drain_starving [OF assms(1), of b "[]"]
    by (cases "ending_of (events (lz_stream r))") (simp_all add: create_def has_body_def)
qed

end
