(* ===== verification/Chunked_Spec.thy ===== *)
theory Chunked_Spec
  imports Body_Spec
begin

text \<open>
  What the chunked reader of \<open>response.rs\<close> does. Size lines, the last chunk and the trailer
  section are read as the format says when every poll finds data; the data of a chunk is not,
  which the second half of this theory states as the code behaves.
\<close>

section \<open>Size lines\<close>

lemma parse_chunk_length_ext:
  assumes "59 \<notin> set sz" "sz \<noteq> []"
  shows "parse_chunk_length (sz @ 59 # ext) = parse_chunk_length sz"
  using assms by (simp add: parse_chunk_length_def split_first_char split_first_char_None [THEN iffD2] Let_def)

section \<open>Trailers\<close>

lemma poll_plain_line:
  assumes "all_ready s" "avail pre s = line_bytes l @ r" "plain_line l"
    and "len_bytes l + 1 < (case cap of Some m \<Rightarrow> m | None \<Rightarrow> usize_MAX)"
  obtains tr s' where "read_line cap e pre s = (Ready (Ok (l, tr)), s')" "all_ready s'" "avail tr s' = r"
proof -
  note p = plain_line_read [OF assms(3)]
  have "avail pre s = (into_bytes l @ [13]) @ 10 # r" using assms(2) p(1) by simp
  moreover have "fits_cap cap (into_bytes l @ [13])" unfolding fits_cap_def p(4) by (rule assms(4))
  ultimately show ?thesis using poll_reader.reads_line [OF assms(1) _ p(2) _ p(3)] that by blast
qed

definition trailer_line :: "rstring \<Rightarrow> bool" where
  "trailer_line l \<longleftrightarrow> plain_line l \<and> ch CHR '':'' \<in> set l"

lemma read_trailers_reads:
  assumes "all_ready s" "avail tr s = block_bytes ts @ [13, 10] @ rest"
    and "\<forall>l\<in>set ts. trailer_line l" "block_fits cap ts"
  shows "\<exists>s'. read_trailers b s h cap tr = (Ready (Ok ()), s', fold insert_header ts h)"
  using assms
proof (induction ts arbitrary: cap tr h s)
  case Nil
  have e: "plain_line []" "avail tr s = line_bytes [] @ rest"
    using Nil.prems(2) by (simp_all add: plain_line_def line_bytes_def)
  have "len_bytes [] + 1 < (case cap of Some m \<Rightarrow> m | None \<Rightarrow> usize_MAX)"
    using Nil.prems(4) by (auto simp: len_bytes_def block_fits_def usize_MAX_def split: option.splits)
  then obtain tr' s' where r: "read_line cap HeadersOverflow tr s = (Ready (Ok ([], tr')), s')"
    by (rule poll_plain_line [OF Nil.prems(1) e(2,1)])
  have "lower_cap b cap [] \<noteq> None" "parse_header [] = None"
    using Nil.prems(4) by (auto simp: lower_cap_def block_fits_def len_bytes_def parse_header_None split: option.splits)
  then show ?case using r by (subst read_trailers.simps) auto
next
  case (Cons l ts)
  have a: "avail tr s = line_bytes l @ block_bytes ts @ [13, 10] @ rest" using Cons.prems(2) by simp
  have p: "plain_line l" "58 \<in> set l" using Cons.prems(3) by (simp_all add: trailer_line_def)
  have "len_bytes l + 1 < (case cap of Some m \<Rightarrow> m | None \<Rightarrow> usize_MAX)"
    using Cons.prems(4) by (auto simp: block_fits_def split: option.splits)
  then obtain tr1 s1 where r: "read_line cap HeadersOverflow tr s = (Ready (Ok (l, tr1)), s1)"
    "all_ready s1" "avail tr1 s1 = block_bytes ts @ [13, 10] @ rest"
    using poll_plain_line [OF Cons.prems(1) a p(1)] by blast
  define cap1 where "cap1 = map_option (\<lambda>m. m - (len_bytes l + 2)) cap"
  have c: "lower_cap b cap l = Some cap1" "block_fits cap1 ts"
    using Cons.prems(4) by (auto simp: lower_cap_def block_fits_def cap1_def split: option.splits)
  obtain k v where kv: "parse_header l = Some (k, v)" using p(2) parse_header_None [of l] by auto
  have "read_trailers b s h cap tr = read_trailers b s1 (insert_header l h) cap1 tr1"
    using r(1) c(1) kv by (subst read_trailers.simps) (simp add: insert_header_def)
  then show ?case using Cons.IH [OF r(2,3) _ c(2)] Cons.prems(3) by simp
qed

section \<open>The last chunk\<close>

text \<open>
  The last chunk ends the body: the trailers become headers, the length that was announced in
  total becomes the content length and the transfer encoding is dropped.
\<close>

lemma begin_chunk_last:
  assumes "all_ready (ck_stream c)" "avail pre (ck_stream c) = line_bytes sz @ block_bytes ts @ [13, 10] @ rest"
    and "plain_line sz" "len_bytes sz + 1 < 1024" "parse_chunk_length sz = Some 0"
    and "\<forall>l\<in>set ts. trailer_line l" "block_fits cap ts"
  shows "\<exists>c'. begin_chunk b pre cap c = Inl (Ready None, c') \<and> \<not> expecting_more_chunks c'
    \<and> chunk_length c' = chunk_length c \<and> ck_content_length c' = ck_content_length c
    \<and> ck_headers c' = hm_remove (str ''transfer-encoding'')
        (hm_insert (str ''content-length'') (show_nat (ck_content_length c))
          (fold insert_header ts (ck_headers c)))"
proof -
  obtain tr s where r: "read_line (Some 1024) MalformedChunkLength pre (ck_stream c) = (Ready (Ok (sz, tr)), s)"
    "all_ready s" "avail tr s = block_bytes ts @ [13, 10] @ rest"
    using poll_plain_line [OF assms(1,2,3), of "Some 1024"] assms(4) by auto
  obtain s' where "read_trailers b s (ck_headers c) cap tr = (Ready (Ok ()), s', fold insert_header ts (ck_headers c))"
    using read_trailers_reads [OF r(2,3) assms(6,7)] by blast
  then show ?thesis using r(1) assms(5) by (simp add: begin_chunk_def end_of_chunks_def)
qed

lemma begin_chunk_malformed:
  assumes "all_ready (ck_stream c)" "avail pre (ck_stream c) = line_bytes sz @ rest"
    and "plain_line sz" "len_bytes sz + 1 < 1024" "parse_chunk_length sz = None"
  shows "\<exists>c'. begin_chunk b pre cap c = Inl (Ready (Some (Err MalformedChunkLength)), c')"
proof -
  obtain tr s where "read_line (Some 1024) MalformedChunkLength pre (ck_stream c) = (Ready (Ok (sz, tr)), s)"
    by (rule poll_plain_line [OF assms(1,2,3), of "Some 1024"]) (use assms(4) in simp)
  then show ?thesis using assms(5) by (simp add: begin_chunk_def)
qed

section \<open>The data of a chunk\<close>

text \<open>
  Bytes that arrived together with a size line are dropped, and what is delivered for a chunk is
  the next piece the network yields, whatever the announced size.
\<close>

lemma begin_chunk_drops:
  assumes "plain_line sz" "parse_chunk_length sz = Some n" "0 < n"
    and "ck_content_length c + n \<le> usize_MAX"
  shows "begin_chunk b (line_bytes sz @ data) cap c =
    Inr (c\<lparr>chunk_length := n, ck_content_length := ck_content_length c + n\<rparr>)"
proof -
  have "read_line (Some 1024) MalformedChunkLength (line_bytes sz @ data) (ck_stream c) =
      (Ready (Ok (sz, data)), ck_stream c)"
    using fold_push_byte_newline [of line_start "into_bytes sz @ [13]" data] plain_line_read(1,2,3) [OF assms(1)]
    by (simp add: read_line_def Let_def finish_line_def)
  then show ?thesis using assms(2-4) by (simp add: begin_chunk_def)
qed

lemma poll_chunk_data_raw:
  assumes "0 < chunk_length c" "ck_stream c = Unsecured (Chunk d # es) t"
  shows "poll_chunk_data c = (Ready (Some (Ok (d, length d))),
    c\<lparr>chunk_length := chunk_length c - 1, ck_stream := Unsecured es t\<rparr>)"
  using assms by (simp add: poll_chunk_data_def)

definition chunk_view :: "response_lazy \<Rightarrow> bool \<Rightarrow> usize \<Rightarrow> usize \<Rightarrow> chunk_state" where
  "chunk_view r expecting len sofar =
     \<lparr>ck_stream = lz_stream r, ck_headers = lz_headers r, expecting_more_chunks = expecting,
      chunk_length = len, ck_content_length = sofar\<rparr>"

lemma create_chunk_dropped:
  assumes "lz_state r = Chunked True 0 0" "lz_trailing_content r = Some (line_bytes sz @ data)"
    and "lz_stream r = Unsecured [Eof] t"
    and "plain_line sz" "parse_chunk_length sz = Some n" "0 < n" "n \<le> usize_MAX" "has_body h r"
  shows "create b r h = Ready (Ok (response_of r []))"
proof -
  have "begin_chunk b (line_bytes sz @ data) (lz_max_trailing_headers_size r) (chunk_view r True 0 0) =
      Inr ((chunk_view r True 0 0)\<lparr>chunk_length := n, ck_content_length := n\<rparr>)"
    using begin_chunk_drops [of sz n "chunk_view r True 0 0"] assms(4-7) by (simp add: chunk_view_def)
  then have "\<exists>r'. lazy_next b r = (Ready None, r') \<and> same_head r r'"
    using assms(1-3,6) by (subst lazy_next.simps)
      (simp add: lazy_poll_next_def read_chunked_def poll_chunk_data_def chunk_view_def same_head_def)
  then show ?thesis using assms(8)
    by (auto simp: create_def drain.simps has_body_def response_of_def same_head_def)
qed

section \<open>A body of chunks\<close>

text \<open>
  A body whose size line comes by itself, followed by as many pieces of data as it announces bytes.
  The line end after the data is read as an empty size line, which counts as the last chunk, so the
  line that follows is taken for the end of the trailers, whatever it is.
\<close>

lemma read_trailers_stops:
  assumes "all_ready s" "avail tr s = line_bytes l @ rest" "plain_line l" "ch CHR '':'' \<notin> set l"
    and "case cap of None \<Rightarrow> len_bytes l + 2 \<le> usize_MAX | Some m \<Rightarrow> len_bytes l + 2 \<le> m"
  shows "\<exists>s'. read_trailers b s h cap tr = (Ready (Ok ()), s', h)"
proof -
  have "len_bytes l + 1 < (case cap of Some m \<Rightarrow> m | None \<Rightarrow> usize_MAX)" using assms(5) by (auto split: option.splits)
  then obtain tr' s' where r: "read_line cap HeadersOverflow tr s = (Ready (Ok (l, tr')), s')"
    by (rule poll_plain_line [OF assms(1,2,3)])
  have "lower_cap b cap l \<noteq> None" using assms(5) by (auto simp: lower_cap_def usize_sub_def split: option.splits)
  then show ?thesis using r assms(4) parse_header_None [of l] by (subst read_trailers.simps) auto
qed

lemma lazy_next_chunk_end:
  assumes "no_prefix r" "lz_state r = Chunked True 0 sofar" "all_ready (lz_stream r)"
    and "avail [] (lz_stream r) = [13, 10] @ line_bytes l @ rest" "plain_line l" "ch CHR '':'' \<notin> set l"
    and "case lz_max_trailing_headers_size r of None \<Rightarrow> len_bytes l + 2 \<le> usize_MAX | Some m \<Rightarrow> len_bytes l + 2 \<le> m"
  shows "\<exists>r'. lazy_next b r = (Ready None, r') \<and> lz_status_code r' = lz_status_code r \<and> lz_reason_phrase r' = lz_reason_phrase r
    \<and> lz_url r' = lz_url r \<and> lz_headers r' = hm_remove (str ''transfer-encoding'')
        (hm_insert (str ''content-length'') (show_nat sofar) (lz_headers r))"
proof -
  have e: "plain_line []" "avail [] (lz_stream r) = line_bytes [] @ line_bytes l @ rest" "len_bytes [] = 0"
    using assms(4) by (simp_all add: plain_line_def line_bytes_def len_bytes_def)
  obtain tr s where s: "read_line (Some 1024) MalformedChunkLength [] (lz_stream r) = (Ready (Ok ([], tr)), s)"
    "all_ready s" "avail tr s = line_bytes l @ rest"
    using poll_plain_line [OF assms(3) e(2,1), of "Some 1024"] e(3) by auto
  obtain s' where "read_trailers b s (lz_headers r) (lz_max_trailing_headers_size r) tr = (Ready (Ok ()), s', lz_headers r)"
    using read_trailers_stops [OF s(2,3) assms(5,6,7)] by blast
  then show ?thesis using s(1) assms(1,2)
    by (subst lazy_next.simps)
      (auto simp: lazy_poll_next_def read_chunked_def begin_chunk_def parse_chunk_length_def end_of_chunks_def no_prefix_def)
qed

lemma lazy_next_chunk_start:
  assumes "no_prefix r" "lz_state r = Chunked True 0 sofar" "lz_stream r = Unsecured (Chunk (line_bytes sz) # Chunk d # es) t"
    and "plain_line sz" "parse_chunk_length sz = Some (Suc n)" "sofar + Suc n \<le> usize_MAX"
  shows "lazy_next b r = (Ready (Some (Ok (d, length d))),
    r\<lparr>lz_trailing_content := None, lz_stream := Unsecured es t, lz_state := Chunked True n (sofar + Suc n)\<rparr>)"
proof -
  have "read_line (Some 1024) MalformedChunkLength [] (lz_stream r) = (Ready (Ok (sz, [])), Unsecured (Chunk d # es) t)"
    using fold_push_byte_newline [of line_start "into_bytes sz @ [13]" "[]"] plain_line_read(1,2,3) [OF assms(4)] assms(3)
    by (simp add: read_line_def line_loop.simps over_cap_def Let_def finish_line_def)
  then show ?thesis using assms(1,2,5,6)
    by (cases r) (auto simp: lazy_next.simps lazy_poll_next_def read_chunked_def begin_chunk_def poll_chunk_data_def
        usize_add_def no_prefix_def)
qed

lemma lazy_next_chunk_piece:
  assumes "lz_state r = Chunked True (Suc n) sofar" "lz_stream r = Unsecured (Chunk d # es) t"
  shows "lazy_next b r = (Ready (Some (Ok (d, length d))),
    r\<lparr>lz_trailing_content := None, lz_stream := Unsecured es t, lz_state := Chunked True n sofar\<rparr>)"
  using assms by (cases r) (simp add: lazy_next.simps lazy_poll_next_def read_chunked_def poll_chunk_data_def)

lemma drain_chunk_pieces:
  "lz_state r = Chunked True (length ds) sofar \<Longrightarrow> lz_stream r = Unsecured (map Chunk ds @ es) t \<Longrightarrow> lz_trailing_content r = None
     \<Longrightarrow> drain b r body = drain b (r\<lparr>lz_stream := Unsecured es t, lz_state := Chunked True 0 sofar\<rparr>) (body @ concat ds)"
proof (induction ds arbitrary: r body)
  case Nil
  then have "r\<lparr>lz_stream := Unsecured es t, lz_state := Chunked True 0 sofar\<rparr> = r" by (cases r) simp
  then show ?case by simp
next
  case (Cons d ds)
  then show ?case using lazy_next_chunk_piece [of r "length ds" sofar d "map Chunk ds @ es" t b]
    by (subst drain.simps, cases r) simp
qed

lemma create_first_chunk:
  assumes "lz_state r = Chunked True 0 0" "no_prefix r" "has_body h r"
    and "lz_stream r = Unsecured (Chunk (line_bytes sz) # map Chunk ds @ es) t" "NotReady \<notin> set es"
    and "plain_line sz" "parse_chunk_length sz = Some (length ds)" "ds \<noteq> []" "length ds \<le> usize_MAX"
    and "stream_bytes es = [13, 10] @ line_bytes l @ rest" "plain_line l" "ch CHR '':'' \<notin> set l"
    and "case lz_max_trailing_headers_size r of None \<Rightarrow> len_bytes l + 2 \<le> usize_MAX | Some m \<Rightarrow> len_bytes l + 2 \<le> m"
  shows "create b r h = Ready (Ok (response_of (r\<lparr>lz_headers := hm_remove (str ''transfer-encoding'')
      (hm_insert (str ''content-length'') (show_nat (length ds)) (lz_headers r))\<rparr>) (concat ds)))"
proof -
  obtain d ds' where ds: "ds = d # ds'" using assms(8) by (cases ds) auto
  let ?r1 = "r\<lparr>lz_trailing_content := None, lz_stream := Unsecured (map Chunk ds' @ es) t, lz_state := Chunked True (length ds') (length ds)\<rparr>"
  let ?r2 = "r\<lparr>lz_trailing_content := None, lz_stream := Unsecured es t, lz_state := Chunked True 0 (length ds)\<rparr>"
  have "lazy_next b r = (Ready (Some (Ok (d, length d))), ?r1)"
    using lazy_next_chunk_start [OF assms(2,1), of sz d "map Chunk ds' @ es" t "length ds'"] assms(4,6,7,9) ds by simp
  then have "drain b r [] = drain b ?r2 (concat ds)"
    using drain_chunk_pieces [of ?r1 ds' "length ds" es t b d] ds by (subst drain.simps) simp
  moreover obtain r' where "lazy_next b ?r2 = (Ready None, r')" "lz_status_code r' = lz_status_code r"
    "lz_reason_phrase r' = lz_reason_phrase r" "lz_url r' = lz_url r"
    "lz_headers r' = hm_remove (str ''transfer-encoding'') (hm_insert (str ''content-length'') (show_nat (length ds)) (lz_headers r))"
    using lazy_next_chunk_end [of ?r2 "length ds" l rest b] assms(5,10-13) by (auto simp: all_ready_def avail_def)
  ultimately show ?thesis using assms(3) by (simp add: create_def drain.simps [of b ?r2] has_body_def response_of_def)
qed

section \<open>Pending polls\<close>

text \<open>
  The poll reader keeps its accumulator on the stack: the bytes it took before a pending poll
  are gone when it is called again.
\<close>

lemma read_line_pending:
  assumes "10 \<notin> set x" "fits_cap cap []"
  shows "read_line cap e [] (Unsecured (Chunk x # NotReady # es) t) = (Pending, Unsecured es t)"
  using assms
  by (auto simp: read_line_def line_loop.simps fold_push_byte_line over_cap_def fits_cap_def split: option.splits)

section \<open>What a body does not depend on\<close>

text \<open>Responses with the same head whose first poll goes the same way are the same once they are read.\<close>

lemma create_cong:
  assumes "lazy_poll_next b r = lazy_poll_next b r'" "length (events (lz_stream r)) = length (events (lz_stream r'))"
    and "same_head r r'"
  shows "create b r h = create b r' h"
proof -
  have "lazy_next b r = lazy_next b r'" using assms(1,2) by (rule lazy_next_cong)
  then have "drain b r [] = drain b r' []" by (simp add: drain.simps [of b r] drain.simps [of b r'])
  then show ?thesis using assms(3) by (simp add: create_def same_head_def)
qed

text \<open>A pending poll that took an event is followed by another one.\<close>

lemma create_pending:
  assumes "lazy_poll_next b r = (Pending, r')" "length (events (lz_stream r')) < length (events (lz_stream r))"
    and "same_head r r'"
  shows "create b r h = create b r' h"
proof -
  have "lazy_next b r = lazy_next b r'" using assms(1,2) by (simp add: lazy_next.simps [of b r])
  then have "drain b r [] = drain b r' []" by (simp add: drain.simps [of b r] drain.simps [of b r'])
  then show ?thesis using assms(3) by (simp add: create_def same_head_def)
qed

text \<open>A line that is complete in what was read before, or in one piece, is read whatever the cap.\<close>

lemma read_line_whole:
  assumes "plain_line l"
  shows "read_line cap e (line_bytes l @ data) s = (Ready (Ok (l, data)), s)"
    and "cap \<noteq> Some 0 \<Longrightarrow> read_line cap e [] (Unsecured (Chunk (line_bytes l @ data) # es) t) = (Ready (Ok (l, data)), Unsecured es t)"
proof -
  have u: "from_utf8 (into_bytes l) = Ok l" using plain_line_read(3) [OF assms] by (simp add: pop_cr_def)
  have f: "fold push_byte (line_bytes l @ data) line_start = \<lparr>l_bytes = into_bytes l, new_line_flag = False, l_trailing = data\<rparr>"
    using fold_push_byte_newline [of line_start "into_bytes l @ [13]" data] plain_line_read(1,2,3) [OF assms]
    by (simp add: line_start_def pop_cr_def)
  then show "read_line cap e (line_bytes l @ data) s = (Ready (Ok (l, data)), s)"
    using u by (simp add: read_line_def Let_def finish_line_def)
  show "cap \<noteq> Some 0 \<Longrightarrow> read_line cap e [] (Unsecured (Chunk (line_bytes l @ data) # es) t) = (Ready (Ok (l, data)), Unsecured es t)"
    using f u
    by (auto simp: read_line_def line_loop.simps Let_def finish_line_def over_cap_def line_start_def split: option.split)
qed

lemma begin_chunk_ignores:
  assumes "plain_line sz" "parse_chunk_length sz = Some n" "0 < n"
  shows "begin_chunk b (line_bytes sz @ data) cap c = begin_chunk b (line_bytes sz) cap c"
    and "begin_chunk b [] cap (c\<lparr>ck_stream := Unsecured (Chunk (line_bytes sz @ data) # es) t\<rparr>) =
         begin_chunk b [] cap (c\<lparr>ck_stream := Unsecured (Chunk (line_bytes sz) # es) t\<rparr>)"
  using assms read_line_whole [OF assms(1), where data = data] read_line_whole [OF assms(1), where data = "[]"]
  by (simp_all add: begin_chunk_def)

lemma create_data_dropped:
  assumes "lz_state r = Chunked True 0 sofar" "plain_line sz" "parse_chunk_length sz = Some n" "0 < n"
  shows "create b (r\<lparr>lz_trailing_content := Some (line_bytes sz @ data)\<rparr>) h = create b (r\<lparr>lz_trailing_content := Some (line_bytes sz)\<rparr>) h"
    and "no_prefix r \<Longrightarrow> create b (r\<lparr>lz_stream := Unsecured (Chunk (line_bytes sz @ data) # es) t\<rparr>) h =
      create b (r\<lparr>lz_stream := Unsecured (Chunk (line_bytes sz) # es) t\<rparr>) h"
proof -
  show "create b (r\<lparr>lz_trailing_content := Some (line_bytes sz @ data)\<rparr>) h = create b (r\<lparr>lz_trailing_content := Some (line_bytes sz)\<rparr>) h"
    by (rule create_cong)
      (use assms(1) begin_chunk_ignores(1) [OF assms(2-4)] in
        \<open>simp_all add: lazy_poll_next_def read_chunked_def same_head_def\<close>)
  show "create b (r\<lparr>lz_stream := Unsecured (Chunk (line_bytes sz @ data) # es) t\<rparr>) h =
      create b (r\<lparr>lz_stream := Unsecured (Chunk (line_bytes sz) # es) t\<rparr>) h" if "no_prefix r"
    by (rule create_cong)
      (use assms(1) that begin_chunk_ignores(2) [OF assms(2-4), where c = "chunk_view r True 0 sofar" and data = data and es = es and t = t] in
        \<open>auto simp: lazy_poll_next_def read_chunked_def same_head_def no_prefix_def chunk_view_def\<close>)
qed

text \<open>The part of a size line that was read before a pending poll is forgotten.\<close>

lemma create_line_forgotten:
  assumes "lz_state r = Chunked True 0 sofar" "10 \<notin> set part"
    and "lz_trailing_content r = Some part \<and> lz_stream r = Unsecured (NotReady # es) t
      \<or> no_prefix r \<and> lz_stream r = Unsecured (Chunk part # NotReady # es) t"
  shows "create b r h = create b (r\<lparr>lz_trailing_content := None, lz_stream := Unsecured es t\<rparr>) h"
proof -
  have f: "fold push_byte part line_start = line_start\<lparr>l_bytes := part\<rparr>"
    using fold_push_byte_line [of line_start part] assms(2) by (simp add: line_start_def)
  have "read_line (Some 1024) MalformedChunkLength part (Unsecured (NotReady # es) t) = (Pending, Unsecured es t)"
    "read_line (Some 1024) MalformedChunkLength [] (Unsecured (Chunk part # NotReady # es) t) = (Pending, Unsecured es t)"
    using f by (simp_all add: read_line_def Let_def line_loop.simps over_cap_def line_start_def)
  then have "lazy_poll_next b r = (Pending, r\<lparr>lz_trailing_content := None, lz_stream := Unsecured es t\<rparr>)"
    using assms(1,3) by (auto simp: lazy_poll_next_def read_chunked_def begin_chunk_def no_prefix_def)
  then show ?thesis by (rule create_pending) (use assms(3) in \<open>auto simp: same_head_def\<close>)
qed

text \<open>
  The cap on the trailers is not checked for a line that is complete: a longer one makes the cap
  underflow, which panics or removes the limit.
\<close>

lemma read_trailers_uncapped:
  assumes "plain_line l" "m < len_bytes l + 2" "len_bytes l + 2 \<le> usize_MAX"
  shows "read_trailers Debug s h (Some m) (line_bytes l @ data) = (Panicked, s, h)"
    and "trailer_line l \<Longrightarrow> read_trailers Release s h (Some m) (line_bytes l @ data) =
      read_trailers Release s (insert_header l h) (Some (m + 2 ^ 64 - (len_bytes l + 2))) data"
proof -
  have r: "read_line (Some m) HeadersOverflow (line_bytes l @ data) s = (Ready (Ok (l, data)), s)"
    by (rule read_line_whole(1) [OF assms(1)])
  have "lower_cap Debug (Some m) l = None" "lower_cap Release (Some m) l = Some (Some (m + 2 ^ 64 - (len_bytes l + 2)))"
    using assms(2,3) by (simp_all add: lower_cap_def usize_sub_def usize_MAX_def)
  then show "read_trailers Debug s h (Some m) (line_bytes l @ data) = (Panicked, s, h)"
    "trailer_line l \<Longrightarrow> read_trailers Release s h (Some m) (line_bytes l @ data) =
      read_trailers Release s (insert_header l h) (Some (m + 2 ^ 64 - (len_bytes l + 2))) data"
    using r parse_header_None [of l]
    by (subst read_trailers.simps, auto simp: trailer_line_def insert_header_def split: option.splits)+
qed

end
