(* ===== verification/Response_Properties.thy ===== *)
theory Response_Properties
  imports Chunked_Spec
begin

text \<open>
  The properties of reading a response: lines, the head with its caps, the framing of the body,
  and the body. The hypotheses speak of the bytes a stream will deliver; how they are cut into
  chunks, and where an \<open>async\<close> reader has to wait, is left open.
\<close>

section \<open>Lines\<close>

text \<open>
  Both line readers return the bytes before the next line feed, without a carriage return at their
  end, however the bytes were delivered, and leave exactly the bytes after it; a line that is not
  UTF-8 is an error. \<open>read_line_async\<close> waits for bytes that are not there yet; the poll-based
  \<open>read_line\<close> keeps the contract as long as no poll is pending.
\<close>

lemma line_read:
  assumes "is_unsecured s" "avail pre s = l @ 10 # r" "10 \<notin> set l" "fits_cap cap l"
  shows "(\<exists>tr s'. read_line_async cap e pre s =
        (Ready (case from_utf8 (if suffix [13] l then take (length l - 1) l else l) of
                Ok line \<Rightarrow> Ok (line, tr) | Err _ \<Rightarrow> Err InvalidUtf8InResponse), s')
      \<and> is_unsecured s' \<and> avail tr s' = r)
    \<and> (all_ready s \<longrightarrow> (\<exists>tr s'. read_line cap e pre s =
        (Ready (case from_utf8 (if suffix [13] l then take (length l - 1) l else l) of
                Ok line \<Rightarrow> Ok (line, tr) | Err _ \<Rightarrow> Err InvalidUtf8InResponse), s')
      \<and> all_ready s' \<and> avail tr s' = r))"
proof (intro conjI impI)
  obtain acc s' where "read_line_async cap e pre s = (Ready (finish_line acc), s')" "l_bytes acc = pop_cr l"
    "is_unsecured s'" "avail (l_trailing acc) s' = r"
    using async_reader.reads [OF assms] by blast
  then show "\<exists>tr s'. read_line_async cap e pre s =
        (Ready (case from_utf8 (if suffix [13] l then take (length l - 1) l else l) of
                Ok line \<Rightarrow> Ok (line, tr) | Err _ \<Rightarrow> Err InvalidUtf8InResponse), s')
      \<and> is_unsecured s' \<and> avail tr s' = r"
    by (intro exI [of _ "l_trailing acc"] exI [of _ s']) (simp add: finish_line_def flip: pop_cr_eq)
next
  assume "all_ready s"
  from poll_reader.reads [OF this assms(2-4)] obtain acc s' where
    "read_line cap e pre s = (Ready (finish_line acc), s')" "l_bytes acc = pop_cr l"
    "all_ready s'" "avail (l_trailing acc) s' = r" by blast
  then show "\<exists>tr s'. read_line cap e pre s =
        (Ready (case from_utf8 (if suffix [13] l then take (length l - 1) l else l) of
                Ok line \<Rightarrow> Ok (line, tr) | Err _ \<Rightarrow> Err InvalidUtf8InResponse), s')
      \<and> all_ready s' \<and> avail tr s' = r"
    by (intro exI [of _ "l_trailing acc"] exI [of _ s']) (simp add: finish_line_def flip: pop_cr_eq)
qed

section \<open>The head\<close>

text \<open>A response that arrives whole, and caps that admit its status line.\<close>

definition delivers :: "http_stream \<Rightarrow> rstring \<Rightarrow> rstring list \<Rightarrow> u8 list \<Rightarrow> bool" where
  "delivers s sl hs body \<longleftrightarrow> is_unsecured s \<and> avail [] s = response_bytes sl hs body
     \<and> plain_line sl \<and> (\<forall>h\<in>set hs. plain_line h \<and> h \<noteq> [])"

definition status_fits :: "usize option \<Rightarrow> rstring \<Rightarrow> bool" where
  "status_fits cap sl \<longleftrightarrow> len_bytes sl + 1 < (case cap of Some m \<Rightarrow> m | None \<Rightarrow> usize_MAX)"

lemma read_metadata_admits:
  assumes "delivers s sl hs body" "status_fits scap sl" "block_fits cap hs"
  shows "fst (read_metadata b iter cap scap s) = Ready (Err MalformedContentLength)
    \<or> (\<exists>m. fst (read_metadata b iter cap scap s) = Ready (Ok m))"
proof -
  let ?r = "scan_headers (iter (fold insert_header hs [])) (False, None)"
  have "\<exists>tr s'. read_metadata b iter cap scap s = (Ready (case ?r of Err e \<Rightarrow> Err e | Ok st \<Rightarrow>
      Ok \<lparr>m_status_code = fst (parse_status_line sl), m_reason_phrase = snd (parse_status_line sl),
         m_headers = fold insert_header hs [], m_state = choose_state st,
         m_max_trailing_headers_size = map_option (\<lambda>m. m - block_size hs) cap, m_trailing_content = tr\<rparr>), s')"
    using read_metadata_reads [of s sl hs body scap cap b iter] assms
    unfolding delivers_def response_bytes_def status_fits_def by blast
  then show ?thesis using scan_headers_Err by (cases ?r) fastforce+
qed

text \<open>
  C15: The caps are exact: a response is refused with \<open>StatusLineOverflow\<close> exactly when its status
  line with the CRLF is longer than the cap, and with \<open>HeadersOverflow\<close> exactly when the header lines
  with their CRLFs and the empty line together are.
\<close>

theorem head_caps:
  assumes "delivers s sl hs body"
  shows "(block_fits cap hs \<longrightarrow>
      (fst (read_metadata b iter cap (Some m) s) = Ready (Err StatusLineOverflow) \<longleftrightarrow> m < len_bytes sl + 2))
    \<and> (status_fits scap sl \<longrightarrow>
      (fst (read_metadata b iter (Some m) scap s) = Ready (Err HeadersOverflow) \<longleftrightarrow> m < block_size hs + 2))"
proof (intro conjI impI)
  assume f: "block_fits cap hs"
  show "fst (read_metadata b iter cap (Some m) s) = Ready (Err StatusLineOverflow) \<longleftrightarrow> m < len_bytes sl + 2"
  proof (cases "m < len_bytes sl + 2")
    case True
    then show ?thesis
      using read_metadata_status_overflow [of s sl "block_bytes hs @ [13, 10] @ body" m] assms
      by (simp add: delivers_def response_bytes_def)
  next
    case False
    then have "status_fits (Some m) sl" by (simp add: status_fits_def)
    then show ?thesis using False read_metadata_admits [OF assms _ f, of "Some m" b iter] by auto
  qed
next
  assume f: "status_fits scap sl"
  show "fst (read_metadata b iter (Some m) scap s) = Ready (Err HeadersOverflow) \<longleftrightarrow> m < block_size hs + 2"
  proof (cases "m < block_size hs + 2")
    case True
    then show ?thesis
      using read_metadata_headers_overflow [of s sl hs body scap m b iter] assms f
      by (simp add: delivers_def response_bytes_def status_fits_def)
  next
    case False
    then have "block_fits (Some m) hs" by (simp add: block_fits_def)
    then show ?thesis using False read_metadata_admits [OF assms f, of "Some m" b iter] by auto
  qed
qed

abbreviation example_stream :: http_stream where
  "example_stream \<equiv> Unsecured [Chunk (line_bytes (str ''HTTP/1.1 200 OK'')), NotReady,
     Chunk (line_bytes (str ''Content-Length: 2'') @ [13]), Chunk [10, 104], Chunk [105]] None"

lemma len_bytes_example:
  "len_bytes (str ''HTTP/1.1 200 OK'') = 15" "len_bytes (str ''Content-Length: 2'') = 17"
  by (simp_all add: len_bytes_ascii str_def)

lemma plain_line_ascii: "is_ascii l \<Longrightarrow> 10 \<notin> set l \<Longrightarrow> plain_line l"
  by (auto simp: plain_line_def is_ascii_def is_scalar_def)

lemma delivers_example:
  "delivers example_stream (str ''HTTP/1.1 200 OK'') [str ''Content-Length: 2''] [104, 105]"
proof -
  have "plain_line (str ''HTTP/1.1 200 OK'')" "plain_line (str ''Content-Length: 2'')"
    by (rule plain_line_ascii; simp add: str_def)+
  then show ?thesis by (simp add: delivers_def response_bytes_def avail_def) (simp add: str_def)
qed

lemma block_fits_example: "block_fits (Some 21) [str ''Content-Length: 2'']"
  by (simp add: block_fits_def len_bytes_example)

theorem head_caps_witness:
  "fst (read_metadata Debug (\<lambda>m. m) (Some 21) (Some 16) example_stream) = Ready (Err StatusLineOverflow)
   \<and> fst (read_metadata Debug (\<lambda>m. m) (Some 16) None example_stream) = Ready (Err HeadersOverflow)"
  using head_caps [OF delivers_example, of "Some 21" Debug "\<lambda>m. m" 16 None] block_fits_example
  by (simp add: status_fits_def len_bytes_example usize_MAX_def)

text \<open>
  C38: A header line that ends in a bare line feed and leaves no room for a CRLF underflows the
  remaining cap: a build with overflow checks panics, and one without goes on with the largest
  possible cap, so the limit no longer holds.
\<close>

theorem bare_lf_underflows_cap:
  assumes "is_unsecured s" "avail tr s = into_bytes h @ 10 # r" "plain_line h" "h \<noteq> []" "last h \<noteq> CR"
  shows "fst (header_loop Debug (Some (len_bytes h + 1)) tr hm s) = Panicked
    \<and> (\<exists>tr' s'. avail tr' s' = r \<and> header_loop Release (Some (len_bytes h + 1)) tr hm s =
          header_loop Release (Some usize_MAX) tr' (insert_header h hm) s')"
proof -
  have c: "last h \<noteq> 13" using assms(5) by simp
  show ?thesis
    using header_loop_bare_lf(1) [OF assms(1-4) c refl, of hm] header_loop_bare_lf(2) [OF assms(1-4) c refl, of hm]
    by blast
qed

theorem bare_lf_underflows_cap_witness:
  "fst (header_loop Debug (Some (len_bytes (str ''a:b'') + 1)) [] []
      (Unsecured [Chunk (into_bytes (str ''a:b'') @ [10])] None)) = Panicked"
  using bare_lf_underflows_cap [of "Unsecured [Chunk (into_bytes (str ''a:b'') @ [10])] None" "[]" "str ''a:b''" "[]" "[]"]
    plain_line_ascii [of "str ''a:b''"]
  by (simp add: avail_def str_def)

section \<open>Status lines and headers\<close>

text \<open>The framing a set of headers announces.\<close>

definition is_length :: "rstring \<Rightarrow> bool" where
  "is_length k \<longleftrightarrow> trim (to_lowercase k) = str ''content-length''"

definition is_chunked :: "rstring \<Rightarrow> rstring \<Rightarrow> bool" where
  "is_chunked k v \<longleftrightarrow> trim (to_lowercase k) = str ''transfer-encoding'' \<and> trim (to_lowercase v) = str ''chunked''"

definition length_value :: "rstring \<Rightarrow> usize option" where
  "length_value v = parse_uint 10 usize_MAX (trim v)"

definition lengths :: "hashmap \<Rightarrow> rstring list" where
  "lengths h = map snd (filter (\<lambda>kv. is_length (fst kv)) h)"

definition chunked_headers :: "hashmap \<Rightarrow> bool" where
  "chunked_headers h \<longleftrightarrow> (\<exists>kv\<in>set h. is_chunked (fst kv) (snd kv))"

definition framing :: "hashmap \<Rightarrow> (stream_state, error) result" where
  "framing h =
     (if \<exists>v\<in>set (lengths h). length_value v = None then Err MalformedContentLength
      else if chunked_headers h then Ok (Chunked True 0 0)
      else case lengths h of v # _ \<Rightarrow> Ok (ContentLength (the (length_value v))) | [] \<Rightarrow> Ok EndOnClose)"

text \<open>At most one content length is given, though possibly under several spellings.\<close>

definition one_length :: "hashmap \<Rightarrow> bool" where
  "one_length h \<longleftrightarrow> (\<forall>v\<in>set (lengths h). \<forall>v'\<in>set (lengths h). v = v')"

lemma scan_headers_Cons:
  "scan_headers ((k, v) # hs) (ck, cl) =
     (if is_length k then
        (case length_value v of
           Some n \<Rightarrow> scan_headers hs (ck \<or> is_chunked k v, Some n) | None \<Rightarrow> Err MalformedContentLength)
      else scan_headers hs (ck \<or> is_chunked k v, cl))"
  by (auto simp: is_length_def is_chunked_def length_value_def Let_def split: option.split)

lemma scan_headers_eq:
  "scan_headers hs (ck, cl) =
    (if \<exists>v\<in>set (lengths hs). length_value v = None then Err MalformedContentLength
     else Ok (ck \<or> chunked_headers hs, if lengths hs = [] then cl else length_value (last (lengths hs))))"
proof (induction hs arbitrary: ck cl)
  case Nil
  show ?case by (simp add: lengths_def chunked_headers_def)
next
  case (Cons kv hs)
  obtain k v where kv: "kv = (k, v)" by fastforce
  have c: "chunked_headers ((k, v) # hs) \<longleftrightarrow> is_chunked k v \<or> chunked_headers hs"
    by (simp add: chunked_headers_def)
  show ?case
  proof (cases "is_length k")
    case False
    then have "lengths ((k, v) # hs) = lengths hs" by (simp add: lengths_def)
    then show ?thesis using Cons.IH False unfolding kv scan_headers_Cons c by simp
  next
    case True
    then have l: "lengths ((k, v) # hs) = v # lengths hs" by (simp add: lengths_def)
    show ?thesis using Cons.IH True unfolding kv scan_headers_Cons c l by (simp split: option.split)
  qed
qed

lemma scan_headers_framing:
  assumes "hash_order iter" "one_length h"
  shows "(case scan_headers (iter h) (False, None) of Ok st \<Rightarrow> Ok (choose_state st) | Err e \<Rightarrow> Err e) = framing h"
proof -
  have s: "set (iter h) = set h" using assms(1) by (rule hash_order_set)
  then have l: "set (lengths (iter h)) = set (lengths h)" and c: "chunked_headers (iter h) \<longleftrightarrow> chunked_headers h"
    by (auto simp: lengths_def chunked_headers_def)
  have e: "lengths (iter h) = [] \<longleftrightarrow> lengths h = []" using l by (metis set_empty)
  have v: "last (lengths (iter h)) = hd (lengths h)" if "lengths h \<noteq> []"
  proof -
    have "last (lengths (iter h)) \<in> set (lengths h)" using that e l by (metis last_in_set)
    then show ?thesis using that assms(2) by (simp add: one_length_def)
  qed
  have sc: "scan_headers (iter h) (False, None) =
    (if \<exists>v\<in>set (lengths h). length_value v = None then Err MalformedContentLength
     else Ok (chunked_headers h, if lengths h = [] then None else length_value (hd (lengths h))))"
    unfolding scan_headers_eq l c e using v by simp
  show ?thesis unfolding sc framing_def
    by (cases "lengths h") (auto simp: choose_state_def split: option.split)
qed

text \<open>
  C16: How the body is framed follows from the headers alone, not from the order in which the hash
  map is iterated, as long as they give at most one content length: a malformed length is an
  error, \<open>chunked\<close> takes precedence over a length, and without either the body ends with the
  connection.
\<close>

theorem framing_of_headers:
  assumes "hash_order iter" "one_length h"
  shows "(case scan_headers (iter h) (False, None) of Ok st \<Rightarrow> Ok (choose_state st) | Err e \<Rightarrow> Err e) =
    (if \<exists>v\<in>set (lengths h). length_value v = None then Err MalformedContentLength
     else if chunked_headers h then Ok (Chunked True 0 0)
     else case lengths h of v # _ \<Rightarrow> Ok (ContentLength (the (length_value v))) | [] \<Rightarrow> Ok EndOnClose)"
  using scan_headers_framing [OF assms] unfolding framing_def .

theorem framing_of_headers_witness:
  "(case scan_headers (rev [(str ''x'', str ''y'')]) (False, None) of Ok st \<Rightarrow> Ok (choose_state st) | Err e \<Rightarrow> Err e) =
    Ok EndOnClose"
  using framing_of_headers [of rev "[(str ''x'', str ''y'')]"]
  by (simp add: one_length_def lengths_def is_length_def chunked_headers_def is_chunked_def rust_defs)

definition print_header :: "rstring \<times> rstring \<Rightarrow> rstring" where
  "print_header kv = fst kv @ str '': '' @ snd kv"

definition print_status :: "nat \<Rightarrow> rstring \<Rightarrow> rstring" where
  "print_status code reason = str ''HTTP/1.1 '' @ show_nat code @ str '' '' @ reason"

lemma insert_header_print:
  "58 \<notin> set k \<Longrightarrow> insert_header (print_header (k, v)) m = hm_insert (make_ascii_lowercase k) v m"
  by (simp add: insert_header_def print_header_def str_def parse_header_eq)

lemma insert_headers_print:
  assumes "\<forall>(k, v)\<in>set kvs. 58 \<notin> set k"
  shows "hm_get (fold insert_header (map print_header kvs) []) =
    map_of (rev (map (\<lambda>(k, v). (make_ascii_lowercase k, v)) kvs))"
proof -
  have "fold insert_header (map print_header kvs) m =
      fold (\<lambda>(k, v). hm_insert k v) (map (\<lambda>(k, v). (make_ascii_lowercase k, v)) kvs) m" for m
    using assms by (induction kvs arbitrary: m) (auto simp: insert_header_print)
  then show ?thesis by (simp add: hm.look_fold_ins)
qed

lemma insert_headers_set:
  assumes "\<forall>(k, v)\<in>set kvs. 58 \<notin> set k"
  shows "set (fold insert_header (map print_header kvs) []) \<subseteq> set (map (\<lambda>(k, v). (make_ascii_lowercase k, v)) kvs)"
proof -
  have "set (fold insert_header (map print_header kvs) m)
      \<subseteq> set m \<union> set (map (\<lambda>(k, v). (make_ascii_lowercase k, v)) kvs)" for m
    using assms
  proof (induction kvs arbitrary: m)
    case (Cons kv kvs)
    obtain k v where kv: "kv = (k, v)" by fastforce
    have "insert_header (print_header kv) m = hm_insert (make_ascii_lowercase k) v m"
      using Cons.prems by (simp add: kv insert_header_print)
    then show ?case using Cons.IH [of "insert_header (print_header kv) m"] Cons.prems hm_insert_set
      by (fastforce simp: kv)
  qed simp
  from this [of "[]"] show ?thesis by simp
qed

lemma parse_status_print:
  assumes "code < 2 ^ 31"
  shows "parse_status_line (print_status code reason) = (int code, reason)"
proof -
  have "32 \<notin> set (str ''HTTP/1.1'')" by (simp add: str_def)
  moreover have "32 \<notin> set (show_nat code)" using show_nat_digits [of 32 code] by auto
  moreover have "print_status code reason = str ''HTTP/1.1'' @ [32] @ show_nat code @ [32] @ reason"
    by (simp add: print_status_def str_def)
  ultimately show ?thesis using parse_status_line_fields parse_i32_show [OF assms] by simp
qed

text \<open>
  C14: The head of a response as a server prints it is read back: the status code, the reason
  phrase, and for every header name, in lower case, the last value given for it; the body is left
  unread.
\<close>

theorem head_roundtrip:
  assumes "delivers s (print_status code reason) (map print_header kvs) body" "code < 2 ^ 31"
    and "\<forall>(k, v)\<in>set kvs. ch CHR '':'' \<notin> set k"
    and "status_fits scap (print_status code reason)" "block_fits cap (map print_header kvs)"
    and "hash_order iter" "\<forall>(k, v)\<in>set kvs. is_length (make_ascii_lowercase k) \<longrightarrow> length_value v \<noteq> None"
  shows "\<exists>r. from_stream b iter cap scap s = Ready (Ok r)
    \<and> lz_status_code r = int code \<and> lz_reason_phrase r = reason \<and> body_avail r = body
    \<and> hm_get (lz_headers r) = map_of (rev (map (\<lambda>(k, v). (make_ascii_lowercase k, v)) kvs))"
proof -
  let ?h = "fold insert_header (map print_header kvs) []"
  have "set (iter ?h) \<subseteq> set (map (\<lambda>(k, v). (make_ascii_lowercase k, v)) kvs)"
    using hash_order_set [OF assms(6)] insert_headers_set assms(3) by simp
  then have "\<forall>v\<in>set (lengths (iter ?h)). length_value v \<noteq> None"
    using assms(7) by (fastforce simp: lengths_def)
  then obtain st where sc: "scan_headers (iter ?h) (False, None) = Ok st"
    unfolding scan_headers_eq by auto
  obtain r where "from_stream b iter cap scap s = Ready (Ok r)" "body_avail r = body"
    "response_of r body = \<lparr>resp_status_code = fst (parse_status_line (print_status code reason)),
        resp_reason_phrase = snd (parse_status_line (print_status code reason)),
        resp_headers = fold insert_header (map print_header kvs) [], resp_url = [], resp_body = body\<rparr>"
    using from_stream_reads [of s "print_status code reason" "map print_header kvs" body scap cap iter st b]
      assms(1,4,5) sc unfolding delivers_def status_fits_def by blast
  then show ?thesis using assms(2,3)
    by (simp add: response_of_def parse_status_print insert_headers_print)
qed

lemma example_print:
  "print_status 200 (str ''OK'') = str ''HTTP/1.1 200 OK''"
  "map print_header [(str ''Content-Length'', str ''2'')] = [str ''Content-Length: 2'']"
  by (simp_all add: print_status_def print_header_def str_def show_nat.simps)

lemma example_headers:
  "fold insert_header [str ''Content-Length: 2''] [] = [(str ''content-length'', str ''2'')]"
  using insert_header_print [of "str ''Content-Length''" "str ''2''" "[]"]
  by (simp add: print_header_def hm_insert_def rust_defs)

lemma example_length_value: "length_value (str ''2'') = Some 2"
  by (simp add: length_value_def rust_defs usize_MAX_def)

theorem head_roundtrip_witness:
  "\<exists>r. from_stream Debug (\<lambda>m. m) (Some 21) (Some 17) example_stream = Ready (Ok r)
    \<and> lz_status_code r = 200 \<and> lz_reason_phrase r = str ''OK'' \<and> body_avail r = [104, 105]
    \<and> hm_get (lz_headers r) = map_of (rev (map (\<lambda>(k, v). (make_ascii_lowercase k, v)) [(str ''Content-Length'', str ''2'')]))"
proof -
  have "\<forall>(k, v)\<in>set [(str ''Content-Length'', str ''2'')]. ch CHR '':'' \<notin> set k" by (simp add: str_def)
  moreover have "status_fits (Some 17) (str ''HTTP/1.1 200 OK'')" by (simp add: status_fits_def len_bytes_example)
  ultimately show ?thesis
    using head_roundtrip [of example_stream 200 "str ''OK''" "[(str ''Content-Length'', str ''2'')]" "[104, 105]"
        "Some 17" "Some 21" "\<lambda>m. m" Debug]
      delivers_example block_fits_example example_length_value unfolding example_print by simp
qed

section \<open>Bodies\<close>

definition parsed_response :: "rstring \<Rightarrow> rstring list \<Rightarrow> u8 list \<Rightarrow> response" where
  "parsed_response sl hs body =
     \<lparr>resp_status_code = fst (parse_status_line sl), resp_reason_phrase = snd (parse_status_line sl),
      resp_headers = fold insert_header hs [], resp_url = [], resp_body = body\<rparr>"

text \<open>Everything but the framing that a response needs to be read.\<close>

definition readable ::
    "(hashmap \<Rightarrow> hashmap) \<Rightarrow> usize option \<Rightarrow> usize option \<Rightarrow> http_stream \<Rightarrow> rstring \<Rightarrow> rstring list \<Rightarrow> u8 list \<Rightarrow> bool" where
  "readable iter cap scap s sl hs body \<longleftrightarrow> delivers s sl hs body \<and> status_fits scap sl \<and> block_fits cap hs
     \<and> hash_order iter \<and> one_length (fold insert_header hs [])"

lemma from_stream_readable:
  assumes "readable iter cap scap s sl hs body" "framing (fold insert_header hs []) = Ok fr"
  shows "\<exists>r. from_stream b iter cap scap s = Ready (Ok r) \<and> is_unsecured (lz_stream r) \<and> body_avail r = body
    \<and> lz_state r = fr \<and> (closes (events s) \<longrightarrow> closes (events (lz_stream r)))
    \<and> (stalls (events s) \<longrightarrow> stalls (events (lz_stream r)))
    \<and> lz_status_code r = fst (parse_status_line sl) \<and> (\<forall>bd. response_of r bd = parsed_response sl hs bd)"
proof -
  obtain st where st: "scan_headers (iter (fold insert_header hs [])) (False, None) = Ok st" "choose_state st = fr"
    using scan_headers_framing [of iter "fold insert_header hs []"] assms
    by (auto simp: readable_def split: result.splits)
  obtain r where r: "from_stream b iter cap scap s = Ready (Ok r)" "is_unsecured (lz_stream r)" "body_avail r = body"
    "lz_state r = choose_state st" "closes (events s) \<longrightarrow> closes (events (lz_stream r))"
    "stalls (events s) \<longrightarrow> stalls (events (lz_stream r))" "response_of r body = parsed_response sl hs body"
    using from_stream_reads [of s sl hs body scap cap iter st b] assms(1) st(1)
    unfolding readable_def delivers_def status_fits_def parsed_response_def by blast
  have "response_of r bd = parsed_response sl hs bd" for bd
    using r(7) by (simp add: response_of_def parsed_response_def)
  then show ?thesis using r st(2) by (auto simp: response_of_def parsed_response_def)
qed

text \<open>
  C8: A response whose headers give the length of its body, and whose server sends exactly that
  many bytes, is returned whole by \<open>Response::create\<close>, however the bytes arrive and in every build.
\<close>

theorem sized_response_delivered:
  assumes "readable iter cap scap s sl hs body"
    and "framing (fold insert_header hs []) = Ok (ContentLength (length body))"
    and "fst (parse_status_line sl) \<notin> {204, 304}"
  shows "await (from_stream b iter cap scap s) (\<lambda>r. create b r False) = Ready (Ok (parsed_response sl hs body))"
proof -
  obtain r where r: "from_stream b iter cap scap s = Ready (Ok r)" "is_unsecured (lz_stream r)" "body_avail r = body"
    "lz_state r = ContentLength (length body)" "lz_status_code r = fst (parse_status_line sl)"
    "\<forall>bd. response_of r bd = parsed_response sl hs bd"
    using from_stream_readable [OF assms(1,2)] by blast
  then have "within_length r" "has_body False r" using assms(3) by (auto simp: within_length_def has_body_def)
  then show ?thesis using sized_body.create_left [of r False b] r by simp
qed

lemma framing_length:
  assumes "lengths h = [v]" "length_value v = Some n" "\<not> chunked_headers h"
  shows "framing h = Ok (ContentLength n)" "one_length h"
  using assms by (simp_all add: framing_def one_length_def)

lemma example_framing:
  "framing (fold insert_header [str ''Content-Length: 2''] []) = Ok (ContentLength 2)"
  "one_length (fold insert_header [str ''Content-Length: 2''] [])"
proof -
  let ?h = "[(str ''content-length'', str ''2'')]"
  have "is_length (str ''content-length'')" "\<not> is_chunked (str ''content-length'') (str ''2'')"
    by (simp_all add: is_length_def is_chunked_def rust_defs)
  then have "lengths ?h = [str ''2'']" "\<not> chunked_headers ?h"
    by (simp_all add: lengths_def chunked_headers_def)
  then show "framing (fold insert_header [str ''Content-Length: 2''] []) = Ok (ContentLength 2)"
    "one_length (fold insert_header [str ''Content-Length: 2''] [])"
    unfolding example_headers using framing_length [of ?h "str ''2''" 2] example_length_value by auto
qed

lemma example_status: "parse_status_line (str ''HTTP/1.1 200 OK'') = (200, str ''OK'')"
  using parse_status_print [of 200 "str ''OK''"] unfolding example_print by simp

lemma readable_example:
  "readable rev (Some 21) (Some 17) example_stream (str ''HTTP/1.1 200 OK'') [str ''Content-Length: 2''] [104, 105]"
  unfolding readable_def using delivers_example block_fits_example example_framing(2)
  by (simp add: status_fits_def len_bytes_example)

theorem sized_response_delivered_witness:
  "await (from_stream Debug rev (Some 21) (Some 17) example_stream) (\<lambda>r. create Debug r False)
     = Ready (Ok (parsed_response (str ''HTTP/1.1 200 OK'') [str ''Content-Length: 2''] [104, 105]))"
  by (rule sized_response_delivered [OF readable_example]) (simp_all add: example_framing(1)[simplified] example_status)

text \<open>
  C9: Without a length and without chunking, the body is everything the server sends until it
  closes the connection. With a length that the server does not fill before it closes, the body
  is what it sent, without an error.
\<close>

theorem closed_response_delivered:
  assumes "readable iter cap scap s sl hs body" "closes (events s)"
    and "framing (fold insert_header hs []) = Ok fr" "fr = EndOnClose \<or> (\<exists>n>length body. fr = ContentLength n)"
    and "fst (parse_status_line sl) \<notin> {204, 304}"
  shows "await (from_stream b iter cap scap s) (\<lambda>r. create b r False) = Ready (Ok (parsed_response sl hs body))"
proof -
  obtain r where r: "from_stream b iter cap scap s = Ready (Ok r)" "is_unsecured (lz_stream r)" "body_avail r = body"
    "lz_state r = fr" "closes (events (lz_stream r))" "lz_status_code r = fst (parse_status_line sl)"
    "\<forall>bd. response_of r bd = parsed_response sl hs bd"
    using from_stream_readable [OF assms(1,3)] assms(2) by blast
  then have "until_closed r \<or> within_length r" "has_body False r"
    using assms(4,5) by (auto simp: until_closed_def within_length_def has_body_def)
  then show ?thesis using sized_body.create_left [of r False b] closed_body.create_left [of r False b] r by auto
qed

abbreviation short_stream :: http_stream where
  "short_stream \<equiv> Unsecured [Chunk (line_bytes (str ''HTTP/1.1 200 OK'')),
     Chunk (line_bytes (str ''Content-Length: 2'') @ [13]), NotReady, Chunk [10, 104], Eof] None"

theorem closed_response_delivered_witness:
  "await (from_stream Debug rev (Some 21) (Some 17) short_stream) (\<lambda>r. create Debug r False)
     = Ready (Ok (parsed_response (str ''HTTP/1.1 200 OK'') [str ''Content-Length: 2''] [104]))"
proof -
  have "delivers short_stream (str ''HTTP/1.1 200 OK'') [str ''Content-Length: 2''] [104]"
    using delivers_example by (simp add: delivers_def response_bytes_def avail_def)
  then have "readable rev (Some 21) (Some 17) short_stream (str ''HTTP/1.1 200 OK'') [str ''Content-Length: 2''] [104]"
    using readable_example by (simp add: readable_def)
  then show ?thesis
    by (rule closed_response_delivered [OF _ _ example_framing(1)]) (simp_all add: example_status)
qed

text \<open>
  C37: Bytes beyond the content length that arrive in one piece with the last of the body
  underflow the remaining length: a build with overflow checks panics, and one without delivers
  them as part of the body and goes on reading.
\<close>

theorem excess_bytes_underflow:
  assumes "lz_state r = ContentLength n" "0 < n" "n < length c"
    and "lz_trailing_content r = Some c \<or> no_prefix r \<and> lz_stream r = Unsecured (Chunk c # es) t"
  shows "fst (lazy_next Debug r) = Panicked
    \<and> (\<exists>k r'. lazy_next Release r = (Ready (Some (Ok (c, k))), r')
           \<and> lz_state r' = ContentLength (n + 2 ^ 64 - length c))"
  using lazy_next_excess [OF assms] by blast

abbreviation example_lazy :: "http_stream \<Rightarrow> stream_state \<Rightarrow> u8 list option \<Rightarrow> response_lazy" where
  "example_lazy s st tr \<equiv> \<lparr>lz_status_code = 200, lz_reason_phrase = [], lz_headers = [], lz_url = [],
     lz_stream = s, lz_state = st, lz_max_trailing_headers_size = None, lz_trailing_content = tr\<rparr>"

theorem excess_bytes_underflow_witness:
  "fst (lazy_next Debug (example_lazy (Unsecured [] None) (ContentLength 1) (Some [104, 105]))) = Panicked"
  using excess_bytes_underflow [of "example_lazy (Unsecured [] None) (ContentLength 1) (Some [104, 105])" 1 "[104, 105]"]
  by simp

text \<open>
  The size hint of every delivered piece, which \<open>Response::create\<close> reserves, is at least the
  length of the piece and exceeds it by at most 16 KiB.
\<close>

lemma size_hint_bounds:
  assumes "lazy_next b r = (Ready (Some (Ok (bytes, n))), r')"
  shows "length bytes \<le> n \<and> n \<le> length bytes + 16 * 1024"
  using lazy_next_hint [OF assms] by (simp add: MAX_CONTENT_LENGTH_def)

text \<open>
  The answer to a HEAD request and responses with status 204 or 304 have no body; nothing is
  read from the connection for them.
\<close>

lemma no_body_responses:
  "create b r True = Ready (Ok (response_of r []))
   \<and> create b (r\<lparr>lz_status_code := 204\<rparr>) h = Ready (Ok (response_of (r\<lparr>lz_status_code := 204\<rparr>) []))
   \<and> create b (r\<lparr>lz_status_code := 304\<rparr>) h = Ready (Ok (response_of (r\<lparr>lz_status_code := 304\<rparr>) []))"
  by (simp add: create_no_body has_body_def)

section \<open>Chunked bodies\<close>

text \<open>
  C32: The last chunk ends a chunked body: its trailers become headers, the total of the announced
  sizes becomes the content length, and the transfer encoding is removed.
\<close>

theorem last_chunk_ends_body:
  assumes "all_ready (ck_stream c)" "chunk_length c = 0" "expecting_more_chunks c"
    and "avail pre (ck_stream c) = line_bytes sz @ block_bytes ts @ [13, 10] @ rest"
    and "plain_line sz" "len_bytes sz + 1 < 1024" "parse_chunk_length sz = Some 0"
    and "\<forall>l\<in>set ts. trailer_line l" "block_fits cap ts" "wf_hm (ck_headers c)"
  shows "\<exists>c'. read_chunked b pre cap c = (Ready None, c') \<and> \<not> expecting_more_chunks c' \<and> chunk_length c' = 0
    \<and> hm_get (ck_headers c') = (hm_get (fold insert_header ts (ck_headers c)))
        (str ''content-length'' \<mapsto> show_nat (ck_content_length c), str ''transfer-encoding'' := None)"
proof -
  obtain c' where c': "begin_chunk b pre cap c = Inl (Ready None, c')" "\<not> expecting_more_chunks c'"
    "chunk_length c' = chunk_length c"
    "ck_headers c' = hm_remove (str ''transfer-encoding'')
        (hm_insert (str ''content-length'') (show_nat (ck_content_length c)) (fold insert_header ts (ck_headers c)))"
    using begin_chunk_last [OF assms(1,4-9), of b] by blast
  have "wf_hm (fold insert_header ts h)" if "wf_hm h" for h
    using that by (induction ts arbitrary: h) (auto simp: insert_header_def hm.inv_ins split: option.split)
  then have "hm_get (ck_headers c') = (hm_get (fold insert_header ts (ck_headers c)))
        (str ''content-length'' \<mapsto> show_nat (ck_content_length c), str ''transfer-encoding'' := None)"
    unfolding c'(4) using assms(10) by (simp add: hm.look_rem hm.look_ins hm.inv_ins)
  then show ?thesis using c'(1-3) assms(2,3) by (simp add: read_chunked_def)
qed

abbreviation example_chunks :: "http_stream \<Rightarrow> chunk_state" where
  "example_chunks s \<equiv> \<lparr>ck_stream = s, ck_headers = [(str ''transfer-encoding'', str ''chunked'')],
     expecting_more_chunks = True, chunk_length = 0, ck_content_length = 5\<rparr>"

lemma example_size_lines: "parse_chunk_length (str ''0'') = Some 0" "parse_chunk_length (str ''a'') = Some 10"
  by (simp_all add: parse_chunk_length_def rust_defs usize_MAX_def)

theorem last_chunk_ends_body_witness:
  "\<exists>c'. read_chunked Debug (line_bytes (str ''0'') @ block_bytes [str ''a:b''] @ [13, 10] @ []) None
      (example_chunks (Unsecured [] None)) = (Ready None, c') \<and> \<not> expecting_more_chunks c' \<and> chunk_length c' = 0
    \<and> hm_get (ck_headers c') = (hm_get (fold insert_header [str ''a:b''] (ck_headers (example_chunks (Unsecured [] None)))))
        (str ''content-length'' \<mapsto> show_nat (ck_content_length (example_chunks (Unsecured [] None))),
         str ''transfer-encoding'' := None)"
proof (rule last_chunk_ends_body)
  have "plain_line (str ''0'')" "plain_line (str ''a:b'')" by (rule plain_line_ascii; simp add: str_def)+
  moreover have "len_bytes (str ''0'') = 1" "len_bytes (str ''a:b'') = 3" by (simp_all add: len_bytes_ascii str_def)
  ultimately show "plain_line (str ''0'')" "len_bytes (str ''0'') + 1 < 1024"
    "\<forall>l\<in>set [str ''a:b'']. trailer_line l" "block_fits None [str ''a:b'']"
    by (simp_all add: trailer_line_def block_fits_def usize_MAX_def) (simp_all add: str_def)
qed (simp_all add: all_ready_def avail_def example_size_lines wf_hm_def)

text \<open>
  C34: The data of a chunk that arrives together with its size line is lost: whatever it is, the response
  is the one without it, in every state of the network and every build. When the connection is
  closed after it, \<open>Response::create\<close> returns an empty body and no error.
\<close>

theorem chunk_data_dropped:
  assumes "lz_state r = Chunked True 0 sofar" "plain_line sz" "parse_chunk_length sz = Some n" "0 < n"
  shows "create b (r\<lparr>lz_trailing_content := Some (line_bytes sz @ data)\<rparr>) h =
      create b (r\<lparr>lz_trailing_content := Some (line_bytes sz)\<rparr>) h
    \<and> (no_prefix r \<longrightarrow> create b (r\<lparr>lz_stream := Unsecured (Chunk (line_bytes sz @ data) # es) t\<rparr>) h =
      create b (r\<lparr>lz_stream := Unsecured (Chunk (line_bytes sz) # es) t\<rparr>) h)
    \<and> (lz_stream r = Unsecured [Eof] t' \<and> sofar = 0 \<and> n \<le> usize_MAX \<and> has_body h r \<longrightarrow>
      create b (r\<lparr>lz_trailing_content := Some (line_bytes sz @ data)\<rparr>) h = Ready (Ok (response_of r [])))"
  using create_data_dropped [OF assms]
    create_chunk_dropped [of "r\<lparr>lz_trailing_content := Some (line_bytes sz @ data)\<rparr>" sz data t' n h b] assms
  by (auto simp: has_body_def response_of_def)

theorem chunk_data_dropped_witness:
  "create Debug (example_lazy (Unsecured [Eof] None) (Chunked True 0 0)
       (Some (line_bytes (str ''a'') @ replicate 10 120 @ [13, 10, 48, 13, 10, 13, 10]))) False
     = Ready (Ok (response_of (example_lazy (Unsecured [Eof] None) (Chunked True 0 0) None) []))"
proof -
  have "plain_line (str ''a'')" by (rule plain_line_ascii) (simp_all add: str_def)
  then show ?thesis
    using chunk_data_dropped [of "example_lazy (Unsecured [Eof] None) (Chunked True 0 0) None" 0
        "str ''a''" 10 Debug "replicate 10 120 @ [13, 10, 48, 13, 10, 13, 10]" False "[]" None None]
    by (auto simp: example_size_lines usize_MAX_def has_body_def)
qed

text \<open>
  C36: The part of a size line that was read when a poll is pending is forgotten: the response is the one
  of a connection on which those bytes never arrived.
\<close>

theorem pending_poll_loses_bytes:
  assumes "lz_state r = Chunked True 0 sofar" "10 \<notin> set part"
    and "lz_trailing_content r = Some part \<and> lz_stream r = Unsecured (NotReady # es) t
      \<or> no_prefix r \<and> lz_stream r = Unsecured (Chunk part # NotReady # es) t"
  shows "create b r h = create b (r\<lparr>lz_trailing_content := None, lz_stream := Unsecured es t\<rparr>) h"
  by (rule create_line_forgotten [OF assms])

text \<open>The size line \<open>10\<close> of a chunk of sixteen bytes, cut in two, is read as that of the last chunk.\<close>

theorem pending_poll_loses_bytes_witness:
  "create Debug (example_lazy (Unsecured [Chunk [49], NotReady, Chunk (line_bytes (str ''0'') @ [13, 10])] None)
       (Chunked True 0 0) None) False
     = create Debug (example_lazy (Unsecured [Chunk (line_bytes (str ''0'') @ [13, 10])] None) (Chunked True 0 0) None) False"
  using pending_poll_loses_bytes [of "example_lazy (Unsecured [Chunk [49], NotReady, Chunk (line_bytes (str ''0'') @ [13, 10])] None)
      (Chunked True 0 0) None" 0 "[49]" "[Chunk (line_bytes (str ''0'') @ [13, 10])]" None Debug False]
  by (simp add: no_prefix_def)

text \<open>
  While a chunk has bytes left by the reader's count, each poll delivers the next piece of the
  network unchanged, framing included, and counts it as a single byte.
\<close>

lemma chunk_pieces_raw:
  assumes "0 < chunk_length c" "ck_stream c = Unsecured (Chunk d # es) t"
  shows "read_chunked b pre cap c = (Ready (Some (Ok (d, length d))),
    c\<lparr>chunk_length := chunk_length c - 1, ck_stream := Unsecured es t\<rparr>)"
  using assms poll_chunk_data_raw [OF assms] by (simp add: read_chunked_def)

text \<open>
  C35: Only the first chunk of a body is delivered. When its size line comes by itself and is followed by
  as many pieces of the network as it announces bytes, those pieces are the whole body, and the length
  in its headers: the line end after them is taken for the last chunk, and the chunks that follow are
  dropped without an error. A body of a single chunk whose bytes arrive one by one is complete.
\<close>

theorem first_chunk_only:
  assumes "lz_state r = Chunked True 0 0" "no_prefix r" "has_body h r"
    and "lz_stream r = Unsecured (Chunk (line_bytes sz) # map Chunk ds @ es) t" "NotReady \<notin> set es"
    and "plain_line sz" "parse_chunk_length sz = Some (length ds)" "ds \<noteq> []" "length ds \<le> usize_MAX"
    and "stream_bytes es = [13, 10] @ line_bytes l @ rest" "plain_line l" "ch CHR '':'' \<notin> set l"
    and "case lz_max_trailing_headers_size r of None \<Rightarrow> len_bytes l + 2 \<le> usize_MAX | Some m \<Rightarrow> len_bytes l + 2 \<le> m"
  shows "create b r h = Ready (Ok (response_of (r\<lparr>lz_headers := hm_remove (str ''transfer-encoding'')
      (hm_insert (str ''content-length'') (show_nat (length ds)) (lz_headers r))\<rparr>) (concat ds)))"
  by (rule create_first_chunk [OF assms])

text \<open>Two chunks, of which the bytes of the first arrive one by one: the second is lost.\<close>

abbreviation two_chunks :: response_lazy where
  "two_chunks \<equiv> example_lazy (Unsecured [Chunk (line_bytes (str ''2'')), Chunk [104], Chunk [105],
     Chunk ([13, 10] @ line_bytes (str ''3'') @ [121, 111, 117, 13, 10, 48, 13, 10, 13, 10])] None) (Chunked True 0 0) None"

theorem first_chunk_only_witness:
  "create Debug two_chunks False = Ready (Ok (response_of (two_chunks\<lparr>lz_headers := hm_remove (str ''transfer-encoding'')
      (hm_insert (str ''content-length'') (show_nat 2) [])\<rparr>) [104, 105]))"
proof -
  have "plain_line (str ''2'')" "plain_line (str ''3'')" by (rule plain_line_ascii; simp add: str_def)+
  moreover have "parse_chunk_length (str ''2'') = Some 2" "len_bytes (str ''3'') = 1" "58 \<notin> set (str ''3'')"
    by (simp_all add: parse_chunk_length_def rust_defs usize_MAX_def len_bytes_ascii)
  ultimately show ?thesis
    using first_chunk_only [of two_chunks False "str ''2''" "[[104], [105]]"
        "[Chunk ([13, 10] @ line_bytes (str ''3'') @ [121, 111, 117, 13, 10, 48, 13, 10, 13, 10])]" None
        "str ''3''" "[121, 111, 117, 13, 10, 48, 13, 10, 13, 10]" Debug]
    by (simp add: has_body_def usize_MAX_def flip: numeral_2_eq_2)
qed

section \<open>Using the body\<close>

text \<open>
  \<open>as_str\<close> succeeds exactly on bodies that are the UTF-8 encoding of a string, which it
  returns; otherwise the error carries why. \<open>json\<close> hides that error behind
  \<open>InvalidUtf8InResponse\<close>.
\<close>

lemma as_str_json:
  "(as_str r = Ok s \<longleftrightarrow> list_all is_scalar s \<and> response_as_bytes r = into_bytes s)
   \<and> (case as_str r of
        Ok t \<Rightarrow> json from_str r = map_err SerdeJsonError (from_str t)
      | Err e \<Rightarrow> (\<exists>u. e = InvalidUtf8InBody u) \<and> json from_str r = Err InvalidUtf8InResponse)"
proof -
  have "from_utf8 (resp_body r) = Ok s \<longleftrightarrow> list_all is_scalar s \<and> resp_body r = into_bytes s"
    using utf8.dec_Some_iff [of "resp_body r" s] by (auto simp: list_all_iff)
  moreover have "(case from_str t of Ok j \<Rightarrow> Ok j | Err err \<Rightarrow> Err (SerdeJsonError err))
      = map_err SerdeJsonError (from_str t)" for t by (cases "from_str t") simp_all
  ultimately show ?thesis
    by (auto simp: as_str_def json_def response_as_bytes_def split: result.splits)
qed

text \<open>
  Reading a response as \<open>AsyncRead\<close> fills the buffer with the bytes left over from the head and
  the next piece of the stream. It panics when the left-over bytes do not fit, and of a piece that
  does not fit the rest is lost.
\<close>

lemma poll_read_fills:
  assumes "lz_stream r = Unsecured (Chunk d # es) t" "pre = (case lz_trailing_content r of Some p \<Rightarrow> p | None \<Rightarrow> [])"
  shows "lazy_poll_read n r =
    (if n < length pre then (Panicked, [], r)
     else (Ready (Ok ()), take n (pre @ d), r\<lparr>lz_trailing_content := None, lz_stream := Unsecured es t\<rparr>))"
proof -
  have "lz_stream (r\<lparr>lz_trailing_content := None\<rparr>) = Unsecured (Chunk d # es) t" using assms(1) by simp
  then show ?thesis unfolding lazy_poll_read_def assms(2) [symmetric] Let_def by (simp add: not_less min_def)
qed

end
