(* ===== verification/Rustls_Config.thy ===== *)
theory Rustls_Config
  imports Build_Config
begin

text \<open>
  The TLS statics of \<open>connection.rs\<close> in a \<open>rustls\<close> build: the write-once cell \<open>MANUAL_ROOTS\<close> with
  \<open>set_manual_roots\<close>, and \<open>CONFIG\<close>, the client configuration that is computed on its first use and
  kept. The crates \<open>rustls\<close>, \<open>webpki-roots\<close> and \<open>rustls-native-certs\<close> are the record
  \<open>root_sources\<close>: which certificates \<open>RootCertStore::add\<close> accepts, and as which trust anchor, the
  anchors compiled into the program, and the certificates of the operating system.
\<close>

section \<open>The statics\<close>

type_synonym certificate = "u8 list"
type_synonym trust_anchor = "u8 list"

record root_sources =
  rs_anchor :: "certificate \<Rightarrow> (trust_anchor, rstring) result"
  rs_server_roots :: "trust_anchor list"
  rs_native_certs :: "certificate list"

record client_config =
  cc_roots :: "trust_anchor list"
  cc_client_auth :: bool

record tls_statics =
  MANUAL_ROOTS :: "certificate list option"
  CONFIG :: "client_config option"

definition statics_start :: tls_statics where
  "statics_start = \<lparr>MANUAL_ROOTS = None, CONFIG = None\<rparr>"

definition set_manual_roots :: "certificate list \<Rightarrow> tls_statics \<Rightarrow> tls_statics" where
  "set_manual_roots certs st =
     (case MANUAL_ROOTS st of None \<Rightarrow> st\<lparr>MANUAL_ROOTS := Some certs\<rparr> | Some _ \<Rightarrow> st)"

fun add_manual_roots :: "root_sources \<Rightarrow> certificate list \<Rightarrow> trust_anchor list \<Rightarrow> trust_anchor list poll" where
  "add_manual_roots rs [] root_certificates = Ready root_certificates"
| "add_manual_roots rs (cert # certs) root_certificates =
     (case rs_anchor rs cert of
        Ok a \<Rightarrow> add_manual_roots rs certs (root_certificates @ [a])
      | Err _ \<Rightarrow> Panicked)"

fun add_native_certs :: "root_sources \<Rightarrow> certificate list \<Rightarrow> trust_anchor list \<Rightarrow> trust_anchor list" where
  "add_native_certs rs [] root_certificates = root_certificates"
| "add_native_certs rs (cert # certs) root_certificates =
     (case rs_anchor rs cert of
        Ok a \<Rightarrow> add_native_certs rs certs (root_certificates @ [a])
      | Err _ \<Rightarrow> add_native_certs rs certs root_certificates)"

definition root_store :: "cfg \<Rightarrow> root_sources \<Rightarrow> certificate list option \<Rightarrow> trust_anchor list poll" where
  "root_store cf rs manual =
     (if feat_manual_roots cf then
        (case manual of Some certs \<Rightarrow> add_manual_roots rs certs [] | None \<Rightarrow> Panicked)
      else
        let root_certificates = rs_server_roots rs
        in Ready (if feat_rustls_probe cf then add_native_certs rs (rs_native_certs rs) root_certificates
                  else root_certificates))"

definition config_init :: "cfg \<Rightarrow> root_sources \<Rightarrow> certificate list option \<Rightarrow> client_config poll" where
  "config_init cf rs manual =
     (case root_store cf rs manual of
        Ready root_certificates \<Rightarrow> Ready \<lparr>cc_roots = root_certificates, cc_client_auth = False\<rparr>
      | Pending \<Rightarrow> Pending
      | Panicked \<Rightarrow> Panicked)"

text \<open>Dereferencing the lazy static: the first use computes it, later ones find it.\<close>

definition use_config :: "cfg \<Rightarrow> root_sources \<Rightarrow> tls_statics \<Rightarrow> (client_config \<times> tls_statics) poll" where
  "use_config cf rs st =
     (case CONFIG st of
        Some config \<Rightarrow> Ready (config, st)
      | None \<Rightarrow>
          (case config_init cf rs (MANUAL_ROOTS st) of
             Ready config \<Rightarrow> Ready (config, st\<lparr>CONFIG := Some config\<rparr>)
           | Pending \<Rightarrow> Pending
           | Panicked \<Rightarrow> Panicked))"

section \<open>Which roots are trusted\<close>

definition accepted :: "root_sources \<Rightarrow> certificate list \<Rightarrow> trust_anchor list" where
  "accepted rs certs = List.map_filter (\<lambda>c. ok (rs_anchor rs c)) certs"

lemma accepted_simps [simp]:
  "accepted rs [] = []"
  "accepted rs (c # cs) = (case rs_anchor rs c of Ok a \<Rightarrow> a # accepted rs cs | Err _ \<Rightarrow> accepted rs cs)"
  by (simp_all add: accepted_def map_filter_simps split: result.split)

lemma add_native_certs_accepted: "add_native_certs rs cs acc = acc @ accepted rs cs"
  by (induction cs arbitrary: acc) (auto split: result.split)

lemma add_manual_roots_accepted:
  "add_manual_roots rs cs acc =
     (if \<forall>c\<in>set cs. is_ok (rs_anchor rs c) then Ready (acc @ accepted rs cs) else Panicked)"
  by (induction cs arbitrary: acc) (auto split: result.split)

lemma config_init_eq:
  "config_init cf rs manual =
     (if feat_manual_roots cf then
        (case manual of
           None \<Rightarrow> Panicked
         | Some cs \<Rightarrow>
             if \<forall>c\<in>set cs. is_ok (rs_anchor rs c)
             then Ready \<lparr>cc_roots = accepted rs cs, cc_client_auth = False\<rparr> else Panicked)
      else Ready \<lparr>cc_roots = rs_server_roots rs
                    @ (if feat_rustls_probe cf then accepted rs (rs_native_certs rs) else []),
                  cc_client_auth = False\<rparr>)"
  by (auto simp: config_init_def root_store_def add_manual_roots_accepted add_native_certs_accepted split: option.split)

section \<open>The statics as a state machine\<close>

text \<open>
  Two things happen to the statics while a program runs: manual roots are set, and a request uses
  the configuration. A run that panics has no state after it.
\<close>

datatype tls_event = SetRoots "certificate list" | UseConfig client_config

inductive tls_step :: "cfg \<Rightarrow> root_sources \<Rightarrow> tls_statics \<Rightarrow> tls_event \<Rightarrow> tls_statics \<Rightarrow> bool" for cf rs where
  set_roots: "tls_step cf rs st (SetRoots certs) (set_manual_roots certs st)"
| use: "use_config cf rs st = Ready (config, st') \<Longrightarrow> tls_step cf rs st (UseConfig config) st'"

inductive tls_run :: "cfg \<Rightarrow> root_sources \<Rightarrow> tls_statics \<Rightarrow> tls_event list \<Rightarrow> tls_statics \<Rightarrow> bool" for cf rs where
  start: "tls_run cf rs st [] st"
| step: "tls_run cf rs st es st1 \<Longrightarrow> tls_step cf rs st1 e st2 \<Longrightarrow> tls_run cf rs st (es @ [e]) st2"

inductive_cases tls_step_SetRootsE: "tls_step cf rs st (SetRoots certs) st'"
inductive_cases tls_step_UseConfigE: "tls_step cf rs st (UseConfig config) st'"

fun first_roots :: "tls_event list \<Rightarrow> certificate list option" where
  "first_roots [] = None"
| "first_roots (SetRoots certs # es) = Some certs"
| "first_roots (UseConfig config # es) = first_roots es"

definition before_use :: "tls_event list \<Rightarrow> tls_event list" where
  "before_use es = takeWhile (\<lambda>e. \<nexists>config. e = UseConfig config) es"

lemma first_roots_append:
  "first_roots (es @ [SetRoots certs]) = (case first_roots es of None \<Rightarrow> Some certs | Some c \<Rightarrow> Some c)"
  "first_roots (es @ [UseConfig config]) = first_roots es"
  by (induction es rule: first_roots.induct) simp_all

lemma before_use_append:
  "before_use (es @ [e]) =
     (if \<exists>config. UseConfig config \<in> set es then before_use es
      else if \<exists>config. e = UseConfig config then es else es @ [e])"
proof (cases "\<exists>config. UseConfig config \<in> set es")
  case True
  then show ?thesis by (auto simp: before_use_def takeWhile_append1)
next
  case False
  then have "\<forall>x\<in>set es. \<nexists>config. x = UseConfig config" by auto
  with False show ?thesis by (simp add: before_use_def)
qed

text \<open>
  What every run keeps: the cell holds the roots that were set first, and every use, the first one
  and all later ones, got the configuration computed from the roots set before the first use.
\<close>

definition tls_inv :: "cfg \<Rightarrow> root_sources \<Rightarrow> tls_event list \<Rightarrow> tls_statics \<Rightarrow> bool" where
  "tls_inv cf rs es st \<longleftrightarrow>
     MANUAL_ROOTS st = first_roots es
     \<and> (\<forall>config. UseConfig config \<in> set es \<longrightarrow> CONFIG st = Some config)
     \<and> (case CONFIG st of
          None \<Rightarrow> \<nexists>config. UseConfig config \<in> set es
        | Some config \<Rightarrow> UseConfig config \<in> set es \<and> config_init cf rs (first_roots (before_use es)) = Ready config)"

lemma tls_step_inv:
  assumes "tls_inv cf rs es st" "tls_step cf rs st e st'"
  shows "tls_inv cf rs (es @ [e]) st'"
  using assms(2)
proof cases
  case (set_roots certs)
  then show ?thesis using assms(1)
    by (cases st) (auto simp: tls_inv_def set_manual_roots_def first_roots_append before_use_append split: option.splits)
next
  case (use config)
  then show ?thesis using assms(1)
    by (auto simp: tls_inv_def use_config_def first_roots_append before_use_append split: option.splits poll.splits)
qed

lemma tls_run_inv: "tls_run cf rs statics_start es st \<Longrightarrow> tls_inv cf rs es st"
proof (induction statics_start es st rule: tls_run.induct)
  case start
  show ?case by (simp add: tls_inv_def statics_start_def)
qed (rule tls_step_inv)

lemma use_config_Panicked:
  "use_config cf rs st = Panicked \<longleftrightarrow> CONFIG st = None \<and> config_init cf rs (MANUAL_ROOTS st) = Panicked"
  by (auto simp: use_config_def split: option.splits poll.splits)

lemma use_config_not_Pending: "use_config cf rs st \<noteq> Pending"
  by (auto simp: use_config_def config_init_eq split: option.splits poll.splits)

end
