(* ===== verification/Connection.thy ===== *)
theory Connection
  imports Chunked_Spec Rustls_Config
begin

text \<open>
  \<open>connection.rs\<close> and the sending half of \<open>request.rs\<close>: timeouts, connecting (directly or
  through a proxy), writing the request, reading the head of the response and following
  redirects.

  What the environment does is the record \<open>externals\<close>: name resolution, the outcome of the
  \<open>n\<close>-th dial of an address (\<open>None\<close> when it never completes), the TLS handshake, and the crates
  \<open>punycode\<close>, \<open>base64\<close> and \<open>rustls\<close>. A dialled socket answers writes and reads with scripts.
  The \<open>world\<close> is the clock, in nanoseconds, the log of what was dialled and written, and the TLS
  statics of the process.

  Time passes in two ways. Name resolution blocks: \<open>to_socket_addrs\<close> is not a future, so the clock
  moves on and no timer can interrupt it. A dial, a handshake and the answer of a peer are awaited: the
  future that waits for them is suspended, and a timer that ends before they do fires.
\<close>

section \<open>The environment\<close>

datatype write_event = Wrote nat | Blocked | WriteFail io_error

record tcp_stream =
  tcp_writes :: "write_event list"
  tcp_incoming :: "stream_event list"
  tcp_latency :: nat

type_synonym sock_addr = nat
type_synonym instant = nat
type_synonym duration = nat

datatype tls_client = RustlsClient client_config | NativeClient

record externals =
  x_cfg :: cfg
  x_env :: environment
  x_iter :: "hashmap \<Rightarrow> hashmap"
  x_punycode :: "rstring \<Rightarrow> (rstring, unit) result"
  x_b64 :: "u8 list \<Rightarrow> rstring"
  x_resolve :: "rstring \<Rightarrow> u16 \<Rightarrow> (sock_addr list, io_error) result"
  x_resolve_time :: "rstring \<Rightarrow> u16 \<Rightarrow> instant \<Rightarrow> duration"
  x_dial :: "sock_addr \<Rightarrow> nat \<Rightarrow> (duration \<times> (tcp_stream, io_error) result) option"
  x_server_name :: "rstring \<Rightarrow> (unit, rstring) result"
  x_roots :: root_sources
  x_tls_build :: "(unit, rstring) result"
  x_handshake :: "tls_client \<Rightarrow> rstring \<Rightarrow> tcp_stream \<Rightarrow> (duration \<times> (tcp_stream, io_error) result) option"

record world =
  now :: instant
  dialled :: "sock_addr list"
  connects :: "u8 list list"
  requests :: "u8 list list"
  tls_state :: tls_statics

section \<open>Timeouts\<close>

definition timeout_err :: io_error where
  "timeout_err = \<lparr>kind = TimedOut, message = str ''the timeout of the request was reached''\<rparr>"

definition timeout_at_to_duration :: "instant \<Rightarrow> instant option \<Rightarrow> (duration option, io_error) result" where
  "timeout_at_to_duration t limit =
     (case limit of
        Some deadline \<Rightarrow> if t \<le> deadline then Ok (Some (deadline - t)) else Err timeout_err
      | None \<Rightarrow> Ok None)"

record connection =
  c_request :: parsed_request
  c_timeout_at :: "instant option"

text \<open>
  \<open>Instant + Duration\<close> panics when the seconds leave the range of \<open>i64\<close>.
\<close>

definition instant_add :: "instant \<Rightarrow> nat \<Rightarrow> instant poll" where
  "instant_add t secs =
     (if t div 10 ^ 9 + secs \<le> 2 ^ 63 - 1 then Ready (t + secs * 10 ^ 9) else Panicked)"

definition env_timeout :: "environment \<Rightarrow> nat option" where
  "env_timeout env =
     (case env (str ''MINREQ_TIMEOUT'') of Some t \<Rightarrow> parse_uint 10 (2 ^ 64 - 1) t | None \<Rightarrow> None)"

definition connection_new :: "externals \<Rightarrow> world \<Rightarrow> parsed_request \<Rightarrow> connection poll" where
  "connection_new x w request =
     (let timeout = (case req_timeout (pr_config request) of
                       Some t \<Rightarrow> Some t | None \<Rightarrow> env_timeout (x_env x))
      in case timeout of
           None \<Rightarrow> Ready \<lparr>c_request = request, c_timeout_at = None\<rparr>
         | Some t \<Rightarrow>
             (case instant_add (now w) t of
                Ready t \<Rightarrow> Ready \<lparr>c_request = request, c_timeout_at = Some t\<rparr>
              | Pending \<Rightarrow> Pending
              | Panicked \<Rightarrow> Panicked))"

definition timeout :: "world \<Rightarrow> connection \<Rightarrow> (duration option, io_error) result" where
  "timeout w c = timeout_at_to_duration (now w) (c_timeout_at c)"

section \<open>Hosts\<close>

fun punycode_labels :: "(rstring \<Rightarrow> (rstring, unit) result) \<Rightarrow> rstring list \<Rightarrow> rstring \<Rightarrow> (rstring, error) result" where
  "punycode_labels enc [] result = Ok result"
| "punycode_labels enc (s # ss) result =
     (if is_ascii s then punycode_labels enc ss (result @ s @ str ''.'')
      else case enc s of
        Ok p \<Rightarrow> punycode_labels enc ss (result @ str ''xn--'' @ p @ str ''.'')
      | Err _ \<Rightarrow> Err PunycodeConversionFailed)"

definition ensure_ascii_host ::
    "cfg \<Rightarrow> (rstring \<Rightarrow> (rstring, unit) result) \<Rightarrow> rstring \<Rightarrow> (rstring, error) result" where
  "ensure_ascii_host cf enc h =
     (if is_ascii h then Ok h
      else if \<not> feat_punycode cf then Err PunycodeFeatureNotEnabled
      else and_then (punycode_labels enc (split_char (ch CHR ''.'') h) []) (\<lambda>result. Ok (butlast result)))"

section \<open>Connecting\<close>

text \<open>\<open>TcpStream::connect\<close> under an optional deadline.\<close>

definition dial ::
    "externals \<Rightarrow> world \<Rightarrow> duration option \<Rightarrow> sock_addr \<Rightarrow> (tcp_stream, io_error) result poll \<times> world" where
  "dial x w limit addr =
     (let w' = w\<lparr>dialled := dialled w @ [addr]\<rparr> in
      case x_dial x addr (length (dialled w)) of
        Some (t, stream) \<Rightarrow>
          (case limit of
             Some d \<Rightarrow> if t \<le> d then (Ready stream, w'\<lparr>now := now w + t\<rparr>)
                       else (Ready (Err timeout_err), w'\<lparr>now := now w + d\<rparr>)
           | None \<Rightarrow> (Ready stream, w'\<lparr>now := now w + t\<rparr>))
      | None \<Rightarrow>
          (case limit of
             Some d \<Rightarrow> (Ready (Err timeout_err), w'\<lparr>now := now w + d\<rparr>)
           | None \<Rightarrow> (Pending, w')))"

fun try_addrs ::
    "externals \<Rightarrow> connection \<Rightarrow> sock_addr list \<Rightarrow> world \<Rightarrow> (tcp_stream, error) result poll \<times> world" where
  "try_addrs x c [] w = (Ready (Err AddressNotFound), w)"
| "try_addrs x c (addr # addrs) w =
     (case timeout w c of
        Err e \<Rightarrow> (Ready (Err (IoError e)), w)
      | Ok limit \<Rightarrow>
          (case dial x w limit addr of
             (Ready stream, w') \<Rightarrow>
               if is_ok stream \<or> addrs = [] then (Ready (map_err error_from_io stream), w')
               else try_addrs x c addrs w'
           | (Pending, w') \<Rightarrow> (Pending, w')
           | (Panicked, w') \<Rightarrow> (Panicked, w')))"

definition tcp_connect ::
    "externals \<Rightarrow> connection \<Rightarrow> rstring \<Rightarrow> u16 \<Rightarrow> world \<Rightarrow> (tcp_stream, error) result poll \<times> world" where
  "tcp_connect x c h port w =
     (let w = w\<lparr>now := now w + x_resolve_time x h port (now w)\<rparr> in
      case x_resolve x h port of
        Err e \<Rightarrow> (Ready (Err (IoError e)), w)
      | Ok addrs \<Rightarrow> try_addrs x c addrs w)"

text \<open>
  Waiting for a time \<open>t\<close>. Every exchange of a connection runs inside the \<open>tokio::time::timeout\<close> of
  \<open>send\<close> or \<open>send_https\<close>, whose timer ends at the deadline of the connection: when that comes first,
  the future is still pending, and it is not polled again.
\<close>

definition suspend :: "connection \<Rightarrow> duration \<Rightarrow> 'a poll \<times> world \<Rightarrow> 'a poll \<times> world" where
  "suspend c t outcome =
     (case outcome of (r, w) \<Rightarrow>
        if case c_timeout_at c of Some d \<Rightarrow> d < now w + t | None \<Rightarrow> False then (Pending, w)
        else (r, w\<lparr>now := now w + t\<rparr>))"

text \<open>\<open>AsyncWriteExt::write_all\<close>: what was written before it stopped, and how it stopped.\<close>

fun write_all :: "write_event list \<Rightarrow> u8 list \<Rightarrow> (unit, io_error) result poll \<times> u8 list \<times> write_event list" where
  "write_all es [] = (Ready (Ok ()), [], es)"
| "write_all [] (b # bs) = (Pending, [], [])"
| "write_all (Blocked # es) (b # bs) = write_all es (b # bs)"
| "write_all (WriteFail e # es) (b # bs) = (Ready (Err e), [], es)"
| "write_all (Wrote n # es) (b # bs) =
     (if n = 0 then (Ready (Err \<lparr>kind = WriteZero, message = str ''failed to write whole buffer''\<rparr>), [], es)
      else case write_all es (drop n (b # bs)) of (r, out, es') \<Rightarrow> (r, take n (b # bs) @ out, es'))"

text \<open>One \<open>read\<close> into a buffer of \<open>n\<close> bytes.\<close>

fun read_some :: "nat \<Rightarrow> stream_event list \<Rightarrow> (u8 list, io_error) result poll \<times> stream_event list" where
  "read_some n [] = (Pending, [])"
| "read_some n (NotReady # es) = read_some n es"
| "read_some n (Eof # es) = (Ready (Ok []), Eof # es)"
| "read_some n (Fail e # es) = (Ready (Err e), es)"
| "read_some n (Chunk b # es) =
     (Ready (Ok (take n b)), if length b \<le> n then es else Chunk (drop n b) # es)"

definition script_weight :: "stream_event list \<Rightarrow> nat" where
  "script_weight es = sum_list (map (\<lambda>e. case e of Chunk b \<Rightarrow> length b | _ \<Rightarrow> 0) es)"

lemma read_some_weight:
  "read_some n es = (Ready (Ok b), es') \<Longrightarrow> script_weight es = length b + script_weight es'"
  by (induction n es rule: read_some.induct) (auto simp: script_weight_def)

function proxy_read :: "stream_event list \<Rightarrow> u8 list \<Rightarrow> (u8 list, io_error) result poll \<times> stream_event list" where
  "proxy_read es proxy_response =
     (case read_some 256 es of
        (Ready (Ok b), es') \<Rightarrow>
          let proxy_response = proxy_response @ b @ replicate (256 - length b) 0 in
          if length b < 256 then (Ready (Ok proxy_response), es') else proxy_read es' proxy_response
      | (Ready (Err e), es') \<Rightarrow> (Ready (Err e), es')
      | (Pending, es') \<Rightarrow> (Pending, es')
      | (Panicked, es') \<Rightarrow> (Panicked, es'))"
  by pat_completeness auto
termination
  by (relation "measure (\<lambda>(es, r). script_weight es)") (auto dest!: sym [THEN read_some_weight])

declare proxy_read.simps [simp del]

definition proxy_exchange ::
    "externals \<Rightarrow> connection \<Rightarrow> proxy \<Rightarrow> tcp_stream \<Rightarrow> world \<Rightarrow> (tcp_stream, error) result poll \<times> world" where
  "proxy_exchange x c p tcp w =
     (case write_all (tcp_writes tcp) (into_bytes (proxy_connect (x_b64 x) p (c_request c))) of
        (r, out, ws) \<Rightarrow>
          let w = w\<lparr>connects := connects w @ [out]\<rparr> in
          (case r of
             Ready (Err e) \<Rightarrow> (Ready (Err (IoError \<lparr>kind = OtherKind, message = message e\<rparr>)), w)
           | Pending \<Rightarrow> (Pending, w)
           | Panicked \<Rightarrow> (Panicked, w)
           | Ready (Ok u) \<Rightarrow>
               (case proxy_read (tcp_incoming tcp) [] of
                  (Ready (Ok proxy_response), es) \<Rightarrow>
                    (case verify_response proxy_response of
                       Err e \<Rightarrow> (Ready (Err e), w)
                     | Ok v \<Rightarrow> (Ready (Ok (tcp\<lparr>tcp_writes := ws, tcp_incoming := es\<rparr>)), w))
                | (Ready (Err e), es) \<Rightarrow> (Ready (Err (IoError e)), w)
                | (Pending, es) \<Rightarrow> (Pending, w)
                | (Panicked, es) \<Rightarrow> (Panicked, w))))"

definition connection_connect ::
    "externals \<Rightarrow> connection \<Rightarrow> world \<Rightarrow> (tcp_stream, error) result poll \<times> world" where
  "connection_connect x c w =
     (let url = pr_url (c_request c);
          direct = tcp_connect x c (host url) (port_number (url_port url)) w
      in if feat_proxy (x_cfg x) then
           (case req_proxy (pr_config (c_request c)) of
              Some p \<Rightarrow>
                (case tcp_connect x c (proxy_server p) (ucast (proxy_port p)) w of
                   (Ready (Ok tcp), w') \<Rightarrow> suspend c (tcp_latency tcp) (proxy_exchange x c p tcp w')
                 | (Ready (Err e), w') \<Rightarrow> (Ready (Err e), w')
                 | (Pending, w') \<Rightarrow> (Pending, w')
                 | (Panicked, w') \<Rightarrow> (Panicked, w'))
            | None \<Rightarrow> direct)
         else direct)"

section \<open>One exchange\<close>

text \<open>The write loop over \<open>writable\<close> and \<open>try_write\<close>: it ends with the first write that is taken.\<close>

fun try_write_loop :: "write_event list \<Rightarrow> u8 list \<Rightarrow> (u8 list, io_error) result poll" where
  "try_write_loop [] bytes = Pending"
| "try_write_loop (Wrote n # es) bytes = Ready (Ok (take n bytes))"
| "try_write_loop (Blocked # es) bytes = try_write_loop es bytes"
| "try_write_loop (WriteFail e # es) bytes =
     (if kind e = WouldBlock then try_write_loop es bytes else Ready (Err e))"

definition create_unsecured :: "stream_event list \<Rightarrow> instant option \<Rightarrow> http_stream" where
  "create_unsecured reader deadline_at = Unsecured reader deadline_at"

definition create_secured :: "stream_event list \<Rightarrow> instant option \<Rightarrow> http_stream" where
  "create_secured reader deadline_at = Secured reader deadline_at"

definition read_head ::
    "externals \<Rightarrow> connection \<Rightarrow> http_stream \<Rightarrow> (response_lazy, error) result poll" where
  "read_head x c stream =
     from_stream (profile (x_cfg x)) (x_iter x) (req_max_headers_size (pr_config (c_request c)))
       (req_max_status_line_len (pr_config (c_request c))) stream"

definition exchange_http ::
    "externals \<Rightarrow> connection \<Rightarrow> world \<Rightarrow> (response_lazy, error) result poll \<times> world" where
  "exchange_http x c w =
     (let bytes = as_bytes (x_iter x) (c_request c) in
      case connection_connect x c w of
        (Ready (Ok tcp), w) \<Rightarrow>
          (case try_write_loop (tcp_writes tcp) bytes of
             Ready (Ok out) \<Rightarrow>
               suspend c (tcp_latency tcp)
                 (read_head x c (create_unsecured (tcp_incoming tcp) (c_timeout_at c)), w\<lparr>requests := requests w @ [out]\<rparr>)
           | Ready (Err e) \<Rightarrow> (Ready (Err (IoError e)), w)
           | Pending \<Rightarrow> (Pending, w)
           | Panicked \<Rightarrow> (Panicked, w))
      | (Ready (Err e), w) \<Rightarrow> (Ready (Err e), w)
      | (Pending, w) \<Rightarrow> (Pending, w)
      | (Panicked, w) \<Rightarrow> (Panicked, w))"

definition other_io_error :: "rstring \<Rightarrow> error" where
  "other_io_error msg = IoError \<lparr>kind = OtherKind, message = msg\<rparr>"

definition handshake_error_to :: "tls_client \<Rightarrow> io_error \<Rightarrow> error" where
  "handshake_error_to client e =
     (case client of RustlsClient _ \<Rightarrow> IoError e | NativeClient \<Rightarrow> other_io_error (message e))"

definition tls_setup ::
    "externals \<Rightarrow> tls_backend \<Rightarrow> connection \<Rightarrow> world \<Rightarrow> (tls_client, error) result poll \<times> world" where
  "tls_setup x backend c w =
     (case backend of
        NativeTls \<Rightarrow> (Ready (Ok NativeClient), w)
      | Rustls \<Rightarrow>
          (case x_server_name x (host (pr_url (c_request c))) of
             Err msg \<Rightarrow> (Ready (Err (other_io_error msg)), w)
           | Ok u \<Rightarrow>
               (case use_config (x_cfg x) (x_roots x) (tls_state w) of
                  Ready (config, st) \<Rightarrow> (Ready (Ok (RustlsClient config)), w\<lparr>tls_state := st\<rparr>)
                | Pending \<Rightarrow> (Pending, w)
                | Panicked \<Rightarrow> (Panicked, w))))"

text \<open>Nothing is awaited once the request is written: the first poll of a TLS stream panics.\<close>

definition exchange_tls ::
    "externals \<Rightarrow> tls_client \<Rightarrow> connection \<Rightarrow> u8 list \<Rightarrow> tcp_stream \<Rightarrow> world
      \<Rightarrow> (response_lazy, error) result poll \<times> world" where
  "exchange_tls x client c bytes tcp w =
     (case x_handshake x client (host (pr_url (c_request c))) tcp of
        None \<Rightarrow> (Pending, w)
      | Some (t, tls) \<Rightarrow>
          (case suspend c t (Ready tls, w) of
             (Ready (Ok tls), w) \<Rightarrow>
               (case write_all (tcp_writes tls) bytes of
                  (r, out, ws) \<Rightarrow>
                    let w = w\<lparr>requests := requests w @ [out]\<rparr> in
                    (case r of
                       Ready (Ok u) \<Rightarrow> (read_head x c (create_secured (tcp_incoming tls) (c_timeout_at c)), w)
                     | Ready (Err e) \<Rightarrow> (Ready (Err (IoError e)), w)
                     | Pending \<Rightarrow> (Pending, w)
                     | Panicked \<Rightarrow> (Panicked, w)))
           | (Ready (Err e), w) \<Rightarrow> (Ready (Err (handshake_error_to client e)), w)
           | (Pending, w) \<Rightarrow> (Pending, w)
           | (Panicked, w) \<Rightarrow> (Panicked, w)))"

definition exchange_https ::
    "externals \<Rightarrow> tls_backend \<Rightarrow> connection \<Rightarrow> world \<Rightarrow> (response_lazy, error) result poll \<times> world" where
  "exchange_https x backend c w =
     (let bytes = as_bytes (x_iter x) (c_request c) in
      case tls_setup x backend c w of
        (Ready (Ok client), w) \<Rightarrow>
          (case connection_connect x c w of
             (Ready (Ok tcp), w) \<Rightarrow> exchange_tls x client c bytes tcp w
           | (Ready (Err e), w) \<Rightarrow> (Ready (Err e), w)
           | (Pending, w) \<Rightarrow> (Pending, w)
           | (Panicked, w) \<Rightarrow> (Panicked, w))
      | (Ready (Err e), w) \<Rightarrow> (Ready (Err e), w)
      | (Pending, w) \<Rightarrow> (Pending, w)
      | (Panicked, w) \<Rightarrow> (Panicked, w))"

section \<open>Redirects\<close>

datatype next_hop = Redirect "(connection, error) result" | Destination connection

definition get_redirect :: "cfg \<Rightarrow> connection \<Rightarrow> int \<Rightarrow> rstring option \<Rightarrow> next_hop" where
  "get_redirect cf c status_code url =
     (if status_code = 301 \<or> status_code = 302 \<or> status_code = 303 \<or> status_code = 307 then
        (case url of
           None \<Rightarrow> Redirect (Err RedirectLocationMissing)
         | Some url \<Rightarrow>
             (case redirect_to cf url (c_request c) of
                (r, Ok u) \<Rightarrow>
                  let m = req_method (pr_config r);
                      r = (if status_code = 303 \<and> (m = Post \<or> m = Put \<or> m = Delete)
                           then r\<lparr>pr_config := (pr_config r)\<lparr>req_method := Get\<rparr>\<rparr> else r)
                  in Redirect (Ok (c\<lparr>c_request := r\<rparr>))
              | (r, Err err) \<Rightarrow> Redirect (Err err)))
      else Destination c)"

definition with_ascii_host :: "externals \<Rightarrow> connection \<Rightarrow> (connection, error) result" where
  "with_ascii_host x c =
     (let r = c_request c in
      and_then (ensure_ascii_host (x_cfg x) (x_punycode x) (host (pr_url r)))
        (\<lambda>h. Ok (c\<lparr>c_request := r\<lparr>pr_url := (pr_url r)\<lparr>host := h\<rparr>\<rparr>\<rparr>)))"

text \<open>
  \<open>tokio::time::timeout\<close> around a future that started at \<open>start\<close>: the future is polled first, and
  what it returns counts, however late; only a future that is pending is given up, as soon as the
  timer has ended.
\<close>

definition deadline ::
    "instant \<Rightarrow> duration option \<Rightarrow> ('a, error) result poll \<times> world \<Rightarrow> ('a, error) result poll \<times> world" where
  "deadline start limit outcome =
     (case limit of
        None \<Rightarrow> outcome
      | Some d \<Rightarrow>
          (case outcome of
             (Pending, w) \<Rightarrow> (Ready (Err (IoError timeout_err)), w\<lparr>now := max (now w) (start + d)\<rparr>)
           | (Ready r, w) \<Rightarrow> (Ready r, w)
           | (Panicked, w) \<Rightarrow> (Panicked, w)))"

definition hops_left :: "connection \<Rightarrow> nat" where
  "hops_left c = Suc (req_max_redirects (pr_config (c_request c))) - length (pr_redirects (c_request c))"

lemma get_redirect_hops:
  assumes "get_redirect cf c code url = Redirect (Ok c')"
  shows "hops_left c' < hops_left c"
proof -
  obtain u r where u: "redirect_to cf u (c_request c) = (r, Ok ())"
    and r: "pr_redirects (c_request c') = pr_redirects r"
      "req_max_redirects (pr_config (c_request c')) = req_max_redirects (pr_config r)"
    using assms
    by (auto simp: get_redirect_def Let_def split: if_splits option.splits prod.splits result.splits)
  from u obtain v where "r = push_redirect v (c_request c)" "check_redirects r = Ok ()"
    by (rule redirect_to_Ok)
  then show ?thesis using r
    by (auto simp: hops_left_def check_redirects_Ok push_redirect_def)
qed

lemma with_ascii_host_hops: "with_ascii_host x c = Ok c' \<Longrightarrow> hops_left c' = hops_left c"
  by (cases "ensure_ascii_host (x_cfg x) (x_punycode x) (host (pr_url (c_request c)))")
    (auto simp: with_ascii_host_def Let_def hops_left_def)

function send :: "externals \<Rightarrow> connection \<Rightarrow> world \<Rightarrow> (response_lazy, error) result poll \<times> world"
  and send_without_timeout ::
    "externals \<Rightarrow> connection \<Rightarrow> world \<Rightarrow> (response_lazy, error) result poll \<times> world"
  and send_https ::
    "externals \<Rightarrow> tls_backend \<Rightarrow> connection \<Rightarrow> world \<Rightarrow> (response_lazy, error) result poll \<times> world"
  and send_https_without_timeout ::
    "externals \<Rightarrow> tls_backend \<Rightarrow> connection \<Rightarrow> world \<Rightarrow> (response_lazy, error) result poll \<times> world"
  and handle_redirects ::
    "externals \<Rightarrow> connection \<Rightarrow> response_lazy \<Rightarrow> world \<Rightarrow> (response_lazy, error) result poll \<times> world" where
  "send x c w =
     (case timeout w c of
        Err e \<Rightarrow> (Ready (Err (IoError e)), w)
      | Ok limit \<Rightarrow> deadline (now w) limit (send_without_timeout x c w))"
| "send_without_timeout x c w =
     (case with_ascii_host x c of
        Err e \<Rightarrow> (Ready (Err e), w)
      | Ok c' \<Rightarrow>
          (case exchange_http x c' w of
             (Ready (Ok response), w') \<Rightarrow> handle_redirects x c' response w'
           | (Ready (Err e), w') \<Rightarrow> (Ready (Err e), w')
           | (Pending, w') \<Rightarrow> (Pending, w')
           | (Panicked, w') \<Rightarrow> (Panicked, w')))"
| "send_https x backend c w =
     (case timeout w c of
        Err e \<Rightarrow> (Ready (Err (IoError e)), w)
      | Ok limit \<Rightarrow>
          (case (if backend = NativeTls then x_tls_build x else Ok ()) of
             Err msg \<Rightarrow> (Ready (Err (other_io_error msg)), w)
           | Ok u \<Rightarrow> deadline (now w) limit (send_https_without_timeout x backend c w)))"
| "send_https_without_timeout x backend c w =
     (case with_ascii_host x c of
        Err e \<Rightarrow> (Ready (Err e), w)
      | Ok c' \<Rightarrow>
          (case exchange_https x backend c' w of
             (Ready (Ok response), w') \<Rightarrow> handle_redirects x c' response w'
           | (Ready (Err e), w') \<Rightarrow> (Ready (Err e), w')
           | (Pending, w') \<Rightarrow> (Pending, w')
           | (Panicked, w') \<Rightarrow> (Panicked, w')))"
| "handle_redirects x c response w =
     (case get_redirect (x_cfg x) c (lz_status_code response)
             (hm_get (lz_headers response) (str ''location'')) of
        Redirect (Err e) \<Rightarrow> (Ready (Err e), w)
      | Redirect (Ok c') \<Rightarrow>
          if https (pr_url (c_request c')) then
            (case feat_tls (x_cfg x) of
               None \<Rightarrow> (Ready (Err HttpsFeatureNotEnabled), w)
             | Some backend \<Rightarrow> send_https x backend c' w)
          else send x c' w
      | Destination c' \<Rightarrow>
          let dst_url = pr_url (c_request c')
          in (Ready (Ok (response\<lparr>lz_url :=
                write_resource_to dst_url (write_base_url_to dst_url (lz_url response))\<rparr>)), w))"
  by pat_completeness auto
termination
  by (relation "measure (\<lambda>a. case a of
        Inl (Inl (x, c, w)) \<Rightarrow> 3 * hops_left c + 2
      | Inl (Inr (x, c, w)) \<Rightarrow> 3 * hops_left c + 1
      | Inr (Inl (x, be, c, w)) \<Rightarrow> 3 * hops_left c + 2
      | Inr (Inr (Inl (x, be, c, w))) \<Rightarrow> 3 * hops_left c + 1
      | Inr (Inr (Inr (x, c, r, w))) \<Rightarrow> 3 * hops_left c)")
    (auto dest: get_redirect_hops with_ascii_host_hops)

declare send.simps [simp del] send_without_timeout.simps [simp del] send_https.simps [simp del]
  send_https_without_timeout.simps [simp del] handle_redirects.simps [simp del]

section \<open>Sending a request\<close>

definition request_send_lazy ::
    "externals \<Rightarrow> request \<Rightarrow> world \<Rightarrow> (response_lazy, error) result poll \<times> world" where
  "request_send_lazy x req w =
     (case parsed_request_new (x_cfg x) (x_env x) req of
        Err e \<Rightarrow> (Ready (Err e), w)
      | Ok parsed_request \<Rightarrow>
          if https (pr_url parsed_request) then
            (case feat_tls (x_cfg x) of
               None \<Rightarrow> (Ready (Err HttpsFeatureNotEnabled), w)
             | Some backend \<Rightarrow>
                 (case connection_new x w parsed_request of
                    Ready c \<Rightarrow> send_https x backend c w
                  | Pending \<Rightarrow> (Pending, w)
                  | Panicked \<Rightarrow> (Panicked, w)))
          else
            (case connection_new x w parsed_request of
               Ready c \<Rightarrow> send x c w
             | Pending \<Rightarrow> (Pending, w)
             | Panicked \<Rightarrow> (Panicked, w)))"

definition request_send ::
    "externals \<Rightarrow> request \<Rightarrow> world \<Rightarrow> (response, error) result poll \<times> world" where
  "request_send x req w =
     (case parsed_request_new (x_cfg x) (x_env x) req of
        Err e \<Rightarrow> (Ready (Err e), w)
      | Ok parsed_request \<Rightarrow>
          let is_head = (req_method (pr_config parsed_request) = Head);
              finish = (\<lambda>(r, w'). (await r (\<lambda>response. create (profile (x_cfg x)) response is_head), w'))
          in if https (pr_url parsed_request) then
               (case feat_tls (x_cfg x) of
                  None \<Rightarrow> (Ready (Err HttpsFeatureNotEnabled), w)
                | Some backend \<Rightarrow>
                    (case connection_new x w parsed_request of
                       Ready c \<Rightarrow> finish (send_https x backend c w)
                     | Pending \<Rightarrow> (Pending, w)
                     | Panicked \<Rightarrow> (Panicked, w)))
             else
               (case connection_new x w parsed_request of
                  Ready c \<Rightarrow> finish (send x c w)
                | Pending \<Rightarrow> (Pending, w)
                | Panicked \<Rightarrow> (Panicked, w)))"

end
