(* ===== verification/Connection_Spec.thy ===== *)
theory Connection_Spec
  imports Connection
begin

text \<open>
  What sending a request promises: redirect chains as a step relation that \<open>send\<close> follows, the
  bound on the number of requests, the choice among resolved addresses, hosts in punycode, and
  the exchange with a proxy.
\<close>

section \<open>Waiting\<close>

lemma suspend_Ready:
  "suspend c t (r, w) = (Ready y, w') \<longleftrightarrow> r = Ready y \<and> w' = w\<lparr>now := now w + t\<rparr>
     \<and> (case c_timeout_at c of None \<Rightarrow> True | Some d \<Rightarrow> now w + t \<le> d)"
  by (auto simp: suspend_def not_less split: option.splits)

text \<open>The timer of the connection ends first, or the wait is over.\<close>

lemma suspend_cases:
  "suspend c t (r, w) = (r', w') \<Longrightarrow>
     r' = Pending \<and> w' = w \<and> (\<exists>d. c_timeout_at c = Some d \<and> d < now w + t)
     \<or> r' = r \<and> w' = w\<lparr>now := now w + t\<rparr> \<and> (case c_timeout_at c of None \<Rightarrow> True | Some d \<Rightarrow> now w + t \<le> d)"
  by (cases "c_timeout_at c") (simp_all add: suspend_def not_less split: if_splits)

lemma suspend_frame [simp]:
  "requests (snd (suspend c t o1)) = requests (snd o1)"
  "tls_state (snd (suspend c t o1)) = tls_state (snd o1)"
  by (auto simp: suspend_def split: prod.splits)

section \<open>Redirect chains\<close>

definition is_redirect :: "int \<Rightarrow> bool" where
  "is_redirect code \<longleftrightarrow> code \<in> {301, 302, 303, 307}"

text \<open>
  The connections that were left for a redirect, each with the host it was contacted under, and
  the connection the chain has come to.
\<close>

inductive redirect_chain :: "externals \<Rightarrow> connection \<Rightarrow> connection list \<Rightarrow> connection \<Rightarrow> bool" for x where
  stop: "redirect_chain x c [] c"
| hop: "with_ascii_host x c = Ok ca \<Longrightarrow> get_redirect (x_cfg x) ca code loc = Redirect (Ok c')
    \<Longrightarrow> redirect_chain x c' vs cl \<Longrightarrow> redirect_chain x c (ca # vs) cl"

inductive_cases redirect_chain_NilE: "redirect_chain x c [] cl"
inductive_cases redirect_chain_ConsE: "redirect_chain x c (v # vs) cl"

abbreviation conn_url :: "connection \<Rightarrow> http_url" where
  "conn_url c \<equiv> pr_url (c_request c)"

abbreviation conn_config :: "connection \<Rightarrow> request" where
  "conn_config c \<equiv> pr_config (c_request c)"

definition same_config :: "connection \<Rightarrow> connection \<Rightarrow> bool" where
  "same_config c c' \<longleftrightarrow>
     (conn_config c' = conn_config c \<or> conn_config c' = (conn_config c)\<lparr>req_method := Get\<rparr>)
     \<and> c_timeout_at c' = c_timeout_at c"

lemma same_config_refl [simp]: "same_config c c"
  by (simp add: same_config_def)

lemma same_config_trans: "same_config a b \<Longrightarrow> same_config b c \<Longrightarrow> same_config a c"
  by (auto simp: same_config_def)

lemma with_ascii_host_Ok:
  assumes "with_ascii_host x c = Ok ca"
  obtains h where "ensure_ascii_host (x_cfg x) (x_punycode x) (host (conn_url c)) = Ok h"
    and "ca = c\<lparr>c_request := (c_request c)\<lparr>pr_url := (conn_url c)\<lparr>host := h\<rparr>\<rparr>\<rparr>"
  using assms
  by (cases "ensure_ascii_host (x_cfg x) (x_punycode x) (host (conn_url c))") (auto simp: with_ascii_host_def Let_def)

lemma with_ascii_host_frame:
  assumes "with_ascii_host x c = Ok ca"
  shows "same_config c ca" "pr_redirects (c_request ca) = pr_redirects (c_request c)"
  using assms by (auto elim!: with_ascii_host_Ok simp: same_config_def)

lemma with_ascii_host_plain:
  assumes "with_ascii_host x c = Ok ca" "\<not> feat_punycode (x_cfg x)"
  shows "ca = c"
  using assms by (auto elim!: with_ascii_host_Ok simp: ensure_ascii_host_def split: if_splits)

lemma get_redirect_Redirect:
  assumes "get_redirect cf c code loc = Redirect (Ok c')"
  shows "is_redirect code" "pr_redirects (c_request c') = pr_redirects (c_request c) @ [conn_url c]"
    "length (pr_redirects (c_request c')) \<le> req_max_redirects (conn_config c')"
    "conn_url c' \<notin> set (pr_redirects (c_request c'))" "same_config c c'"
proof -
  obtain u r where u: "redirect_to cf u (c_request c) = (r, Ok ())"
    and r: "pr_redirects (c_request c') = pr_redirects r" "conn_url c' = pr_url r"
      "conn_config c' = pr_config r \<or> conn_config c' = (pr_config r)\<lparr>req_method := Get\<rparr>"
      "c_timeout_at c' = c_timeout_at c" and code: "is_redirect code"
    using assms
    by (auto simp: get_redirect_def is_redirect_def Let_def
        split: if_splits option.splits prod.splits result.splits)
  from u obtain v where v: "r = push_redirect v (c_request c)" "check_redirects r = Ok ()"
    by (rule redirect_to_Ok)
  show "is_redirect code" by (rule code)
  show "pr_redirects (c_request c') = pr_redirects (c_request c) @ [conn_url c]"
    "length (pr_redirects (c_request c')) \<le> req_max_redirects (conn_config c')"
    "conn_url c' \<notin> set (pr_redirects (c_request c'))" "same_config c c'"
    using v r by (auto simp: push_redirect_def check_redirects_Ok same_config_def)
qed

lemma redirect_chain_frame:
  "redirect_chain x c vs cl \<Longrightarrow> same_config c cl
     \<and> pr_redirects (c_request cl) = pr_redirects (c_request c) @ map conn_url vs
     \<and> (vs \<noteq> [] \<longrightarrow> length (pr_redirects (c_request cl)) \<le> req_max_redirects (conn_config cl))"
proof (induction rule: redirect_chain.induct)
  case (stop c)
  show ?case by simp
next
  case (hop c ca code loc c' vs cl)
  note r = get_redirect_Redirect [OF hop.hyps(2)] and a = with_ascii_host_frame [OF hop.hyps(1)]
  have "same_config c cl" using a(1) r(5) hop.IH same_config_trans by blast
  moreover have "length (pr_redirects (c_request cl)) \<le> req_max_redirects (conn_config cl)"
  proof (cases "vs = []")
    case True
    then have "cl = c'" using hop.hyps(3) by (auto elim: redirect_chain_NilE)
    then show ?thesis using r(3) by simp
  qed (use hop.IH in metis)
  ultimately show ?case using a(2) r(2) hop.IH by simp
qed

lemma redirect_chain_distinct:
  "redirect_chain x c vs cl \<Longrightarrow> \<not> feat_punycode (x_cfg x) \<Longrightarrow> distinct (pr_redirects (c_request c) @ [conn_url c])
     \<Longrightarrow> distinct (pr_redirects (c_request cl) @ [conn_url cl])"
proof (induction rule: redirect_chain.induct)
  case (hop c ca code loc c' vs cl)
  have "ca = c" using hop.hyps(1) hop.prems(1) by (rule with_ascii_host_plain)
  then have "distinct (pr_redirects (c_request c') @ [conn_url c'])"
    using get_redirect_Redirect(2,4) [OF hop.hyps(2)] hop.prems(2) by auto
  then show ?case using hop.IH hop.prems(1) by blast
qed simp

lemma get_redirect_wf_url:
  assumes "get_redirect cf c code loc = Redirect (Ok c')" "\<not> feat_urlencoding cf"
  shows "wf_url (conn_url c')"
proof -
  obtain u r where u: "redirect_to cf u (c_request c) = (r, Ok ())" "conn_url c' = pr_url r"
    using assms(1)
    by (auto simp: get_redirect_def Let_def split: if_splits option.splits prod.splits result.splits)
  from u(1) obtain v s where "r = push_redirect v (c_request c)" "parse cf s (Some (conn_url c)) = Ok v"
    by (elim redirect_to_Ok) blast
  then show ?thesis using u(2) assms(2) parse_wf by (simp add: push_redirect_def)
qed

lemma redirect_chain_wf_url:
  "redirect_chain x c vs cl \<Longrightarrow> \<not> feat_urlencoding (x_cfg x) \<Longrightarrow> \<not> feat_punycode (x_cfg x) \<Longrightarrow> wf_url (conn_url c)
     \<Longrightarrow> \<forall>v\<in>set (vs @ [cl]). wf_url (conn_url v)"
proof (induction rule: redirect_chain.induct)
  case (hop c ca code loc c' vs cl)
  have "ca = c" using hop.hyps(1) hop.prems(2) by (rule with_ascii_host_plain)
  then show ?case using hop.IH [OF hop.prems(1,2) get_redirect_wf_url [OF hop.hyps(2) hop.prems(1)]] hop.prems(3) by auto
qed simp

section \<open>Sending follows a chain\<close>

lemma from_stream_url: "from_stream b iter m n s = Ready (Ok r) \<Longrightarrow> lz_url r = []"
  by (auto simp: from_stream_def Let_def split: prod.splits poll.splits result.splits)

lemma from_stream_Secured: "from_stream b iter m n (Secured es t) = Panicked"
  by (simp add: from_stream_def read_metadata_def read_line_async_def line_loop_async.simps line_start_def)

lemma exchange_http_url: "exchange_http x c w = (Ready (Ok r), w') \<Longrightarrow> lz_url r = []"
  by (auto simp: exchange_http_def read_head_def suspend_Ready Let_def split: prod.splits poll.splits result.splits
      dest: from_stream_url)

lemma exchange_tls_no_response: "fst (exchange_tls x client c bs tcp w) \<noteq> Ready (Ok r)"
  by (auto simp: exchange_tls_def create_secured_def read_head_def from_stream_Secured Let_def
      split: prod.splits poll.splits result.splits option.splits)

lemma exchange_https_no_response: "fst (exchange_https x be c w) \<noteq> Ready (Ok r)"
  using exchange_tls_no_response
  by (auto simp: exchange_https_def Let_def split: prod.splits poll.splits result.splits)

lemma fst_deadline_Ok: "fst (deadline t limit (r, w)) = Ready (Ok a) \<longleftrightarrow> r = Ready (Ok a)"
  by (auto simp: deadline_def split: option.splits poll.splits)

lemma deadline_Ok: "deadline t limit (r, w) = (Ready (Ok a), w') \<longleftrightarrow> r = Ready (Ok a) \<and> w' = w"
  by (auto simp: deadline_def split: option.splits poll.splits)

lemma send_https_no_response: "fst (send_https x be c w) \<noteq> Ready (Ok r)"
proof -
  have "fst (send_https_without_timeout x be c w) \<noteq> Ready (Ok a)" for a
    using exchange_https_no_response [of x be]
    by (subst send_https_without_timeout.simps)
      (auto split: result.splits prod.splits poll.splits, metis fst_conv)
  then show ?thesis
    by (subst send_https.simps, cases "send_https_without_timeout x be c w")
      (auto simp: fst_deadline_Ok split: result.splits)
qed

text \<open>
  A response is final when its status is no redirect and its URL is that of the last connection
  of a chain.
\<close>

definition final_response :: "externals \<Rightarrow> connection \<Rightarrow> response_lazy \<Rightarrow> bool" where
  "final_response x c r \<longleftrightarrow> \<not> is_redirect (lz_status_code r) \<and>
     (\<exists>vs cl ca. redirect_chain x c vs cl \<and> with_ascii_host x cl = Ok ca \<and> lz_url r = print_url (conn_url ca))"

lemma final_response_hop:
  assumes "with_ascii_host x c = Ok ca" "get_redirect (x_cfg x) ca code loc = Redirect (Ok c')" "final_response x c' r"
  shows "final_response x c r"
  using assms by (auto simp: final_response_def intro: redirect_chain.hop)

lemma get_redirect_Destination:
  "get_redirect cf c code loc = Destination c' \<longleftrightarrow> c' = c \<and> \<not> is_redirect code"
  by (auto simp: get_redirect_def is_redirect_def Let_def split: option.splits prod.splits result.splits)

lemma send_final:
  "send x c w = (Ready (Ok r), w') \<Longrightarrow> final_response x c r"
proof (induction "hops_left c" arbitrary: c w r w' rule: less_induct)
  case less
  obtain r1 w1 where s1: "send_without_timeout x c w = (r1, w1)" by fastforce
  then have sw: "send_without_timeout x c w = (Ready (Ok r), w')"
    using less.prems by (subst (asm) send.simps) (auto simp: deadline_Ok split: result.splits)
  then obtain ca where ca: "with_ascii_host x c = Ok ca"
    by (subst (asm) send_without_timeout.simps) (auto split: result.splits)
  then obtain resp w2 where ex: "exchange_http x ca w = (Ready (Ok resp), w2)"
    and h: "handle_redirects x ca resp w2 = (Ready (Ok r), w')"
    using sw by (subst (asm) send_without_timeout.simps)
      (auto split: result.splits prod.splits poll.splits)
  define code loc where "code = lz_status_code resp" and "loc = hm_get (lz_headers resp) (str ''location'')"
  have u: "lz_url resp = []" using ex by (rule exchange_http_url)
  show ?case
  proof (cases "get_redirect (x_cfg x) ca code loc")
    case (Destination c1)
    then have "c1 = ca" "\<not> is_redirect code" by (simp_all add: get_redirect_Destination)
    moreover have "r = resp\<lparr>lz_url := write_resource_to (conn_url ca) (write_base_url_to (conn_url ca) [])\<rparr>"
      using h Destination u \<open>c1 = ca\<close>
      by (subst (asm) handle_redirects.simps) (simp add: code_def loc_def Let_def)
    ultimately show ?thesis using ca
      by (auto simp: final_response_def print_url_def code_def intro: redirect_chain.stop)
  next
    case (Redirect res)
    then obtain c1 where c1: "get_redirect (x_cfg x) ca code loc = Redirect (Ok c1)"
      and "send x c1 w2 = (Ready (Ok r), w') \<or> (\<exists>be. send_https x be c1 w2 = (Ready (Ok r), w'))"
      using h by (subst (asm) handle_redirects.simps)
        (auto simp: code_def loc_def split: result.splits if_splits option.splits)
    then have "send x c1 w2 = (Ready (Ok r), w')" using send_https_no_response by (metis fst_conv)
    moreover have "hops_left c1 < hops_left c"
      using get_redirect_hops [OF c1] with_ascii_host_hops [OF ca] by simp
    ultimately have "final_response x c1 r" using less.hyps by blast
    then show ?thesis using final_response_hop [OF ca c1] by blast
  qed
qed

text \<open>When the TLS configuration panics, so does sending, and nothing is dialled.\<close>

lemma send_https_config_panics:
  assumes "timeout w c = Ok limit" "with_ascii_host x c = Ok ca" "x_server_name x (host (conn_url ca)) = Ok ()"
    and "use_config (x_cfg x) (x_roots x) (tls_state w) = Panicked"
  shows "send_https x Rustls c w = (Panicked, w)"
proof -
  have "send_https_without_timeout x Rustls c w = (Panicked, w)"
    using assms(2-4) by (simp add: send_https_without_timeout.simps exchange_https_def tls_setup_def)
  then show ?thesis using assms(1) by (simp add: send_https.simps deadline_def split: option.split)
qed

section \<open>The number of requests\<close>

lemma dial_requests: "requests (snd (dial x w limit a)) = requests w"
  by (auto simp: dial_def Let_def split: option.splits)

lemma try_addrs_requests: "requests (snd (try_addrs x c addrs w)) = requests w"
proof (induction addrs arbitrary: w)
  case (Cons a addrs)
  then show ?case
    using dial_requests [of x w _ a]
    by (auto split: result.splits prod.splits poll.splits) (metis snd_conv)+
qed simp

lemma tcp_connect_requests: "requests (snd (tcp_connect x c h p w)) = requests w"
  by (auto simp: tcp_connect_def try_addrs_requests Let_def split: result.splits)

lemma proxy_exchange_requests: "requests (snd (proxy_exchange x c p tcp w)) = requests w"
  by (auto simp: proxy_exchange_def Let_def split: prod.splits poll.splits result.splits)

lemma connection_connect_requests: "requests (snd (connection_connect x c w)) = requests w"
  using tcp_connect_requests [of x c] proxy_exchange_requests [of x c]
  by (auto simp: connection_connect_def Let_def split: option.splits prod.splits poll.splits result.splits)
    (metis snd_conv)+

lemma exchange_http_requests: "length (requests (snd (exchange_http x c w))) \<le> Suc (length (requests w))"
proof -
  obtain r w1 where "connection_connect x c w = (r, w1)" by fastforce
  then show ?thesis using connection_connect_requests [of x c w]
    by (auto simp: exchange_http_def Let_def split: poll.splits result.splits)
qed

lemma exchange_tls_requests: "length (requests (snd (exchange_tls x be c bs tcp w))) \<le> Suc (length (requests w))"
  by (auto simp: exchange_tls_def suspend_def Let_def split: option.splits prod.splits poll.splits result.splits if_splits)

lemma tls_setup_requests: "requests (snd (tls_setup x be c w)) = requests w"
  by (auto simp: tls_setup_def split: tls_backend.splits result.splits poll.splits)

lemma exchange_https_requests: "length (requests (snd (exchange_https x be c w))) \<le> Suc (length (requests w))"
proof -
  obtain s w0 where s: "tls_setup x be c w = (s, w0)" by fastforce
  obtain r w1 where "connection_connect x c w0 = (r, w1)" by fastforce
  then show ?thesis
    using s tls_setup_requests [of x be c w] connection_connect_requests [of x c w0] exchange_tls_requests [of x _ c _ _ w1]
    by (auto simp: exchange_https_def Let_def split: poll.splits result.splits)
qed

lemma deadline_requests: "requests (snd (deadline t limit o1)) = requests (snd o1)"
  by (auto simp: deadline_def split: option.splits prod.splits poll.splits)

lemma get_redirect_hops_pos: "get_redirect cf c code loc = Redirect (Ok c') \<Longrightarrow> 0 < hops_left c'"
  using get_redirect_Redirect(3) by (fastforce simp: hops_left_def)

definition sends_at_most :: "externals \<Rightarrow> nat \<Rightarrow> connection \<Rightarrow> bool" where
  "sends_at_most x n c \<longleftrightarrow>
     (\<forall>w. length (requests (snd (send x c w))) \<le> length (requests w) + n
        \<and> (\<forall>be. length (requests (snd (send_https x be c w))) \<le> length (requests w) + n))"

lemma handle_redirects_requests:
  assumes "\<And>c' code loc. get_redirect (x_cfg x) c code loc = Redirect (Ok c') \<Longrightarrow> sends_at_most x (hops_left c') c'"
  shows "length (requests (snd (handle_redirects x c r w))) \<le> length (requests w) + (hops_left c - 1)"
proof (cases "\<exists>c'. get_redirect (x_cfg x) c (lz_status_code r) (hm_get (lz_headers r) (str ''location'')) = Redirect (Ok c')")
  case True
  then obtain c' where c': "get_redirect (x_cfg x) c (lz_status_code r) (hm_get (lz_headers r) (str ''location''))
      = Redirect (Ok c')" by blast
  have le: "hops_left c' \<le> hops_left c - 1" using get_redirect_hops [OF c'] by simp
  have "length (requests (snd (handle_redirects x c r w))) \<le> length (requests w) + hops_left c'"
    using assms [OF c'] c'
    by (subst handle_redirects.simps) (auto simp: sends_at_most_def split: option.splits)
  then show ?thesis using le by simp
next
  case False
  then show ?thesis
    by (subst handle_redirects.simps) (auto simp: Let_def split: next_hop.splits result.splits)
qed

lemma sends_at_most_hops: "sends_at_most x (Suc (hops_left c - 1)) c"
proof (induction "hops_left c" arbitrary: c rule: less_induct)
  case less
  have h: "length (requests (snd (handle_redirects x ca r w))) \<le> k + Suc (hops_left c - 1)"
    if ca: "with_ascii_host x c = Ok ca" and k: "length (requests w) \<le> Suc k" for ca r w k
  proof -
    have "sends_at_most x (hops_left c') c'" if "get_redirect (x_cfg x) ca code loc = Redirect (Ok c')" for c' code loc
      using less [of c'] get_redirect_hops [OF that] get_redirect_hops_pos [OF that] with_ascii_host_hops [OF ca]
      by simp
    then show ?thesis using handle_redirects_requests [of x ca r w] with_ascii_host_hops [OF ca] k by fastforce
  qed
  have "length (requests (snd (send_without_timeout x c w))) \<le> length (requests w) + Suc (hops_left c - 1)" for w
  proof (cases "with_ascii_host x c")
    case (Ok ca)
    obtain r1 w1 where "exchange_http x ca w = (r1, w1)" by fastforce
    then show ?thesis using exchange_http_requests [of x ca w] Ok h [OF Ok, of w1]
      by (subst send_without_timeout.simps) (auto split: poll.splits result.splits)
  qed (subst send_without_timeout.simps, simp)
  moreover have "length (requests (snd (send_https_without_timeout x be c w))) \<le> length (requests w) + Suc (hops_left c - 1)" for be w
  proof (cases "with_ascii_host x c")
    case (Ok ca)
    obtain r1 w1 where "exchange_https x be ca w = (r1, w1)" by fastforce
    then show ?thesis using exchange_https_requests [of x be ca w] Ok h [OF Ok, of w1]
      by (subst send_https_without_timeout.simps) (auto split: poll.splits result.splits)
  qed (subst send_https_without_timeout.simps, simp)
  ultimately show ?case
    by (simp add: sends_at_most_def send.simps send_https.simps deadline_requests split: result.split)
qed

section \<open>The time that is left\<close>

lemma timeout_Ok:
  "timeout w c = Ok limit \<longleftrightarrow>
     (case c_timeout_at c of None \<Rightarrow> limit = None | Some t \<Rightarrow> now w \<le> t \<and> limit = Some (t - now w))"
  by (auto simp: timeout_def timeout_at_to_duration_def split: option.splits)

lemma timeout_Err: "timeout w c = Err e \<longleftrightarrow> (\<exists>t. c_timeout_at c = Some t \<and> t < now w) \<and> e = timeout_err"
  by (auto simp: timeout_def timeout_at_to_duration_def split: option.splits)

lemma send_expired:
  assumes "c_timeout_at c = Some t" "t < now w"
  shows "send x c w = (Ready (Err (IoError timeout_err)), w)"
    "send_https x be c w = (Ready (Err (IoError timeout_err)), w)"
  using assms timeout_Err [of w c timeout_err] by (simp_all add: send.simps send_https.simps)

section \<open>Resolved addresses\<close>

text \<open>The first address that answers, or the last error.\<close>

fun pick :: "(tcp_stream, io_error) result list \<Rightarrow> (tcp_stream, io_error) result" where
  "pick [r] = r"
| "pick (r # rs) = (if is_ok r then r else pick rs)"
| "pick [] = Err timeout_err"

lemma pick_Cons: "rs \<noteq> [] \<Longrightarrow> pick (r # rs) = (if is_ok r then r else pick rs)"
  by (cases rs) simp_all

definition answers :: "externals \<Rightarrow> nat \<Rightarrow> sock_addr list \<Rightarrow> (tcp_stream, io_error) result list \<Rightarrow> bool" where
  "answers x n addrs rs \<longleftrightarrow> length rs = length addrs
     \<and> (\<forall>i<length addrs. \<exists>t. x_dial x (addrs ! i) (n + i) = Some (t, rs ! i))"

lemma answers_Cons:
  "answers x n (a # addrs) rs \<longleftrightarrow>
     (\<exists>t r rs'. rs = r # rs' \<and> x_dial x a n = Some (t, r) \<and> answers x (Suc n) addrs rs')"
proof -
  have "(\<forall>i<Suc k. P i) \<longleftrightarrow> P 0 \<and> (\<forall>i<k. P (Suc i))" for k P by (auto simp: less_Suc_eq_0_disj)
  then show ?thesis by (cases rs) (auto simp: answers_def)
qed

lemma try_addrs_pick:
  assumes "c_timeout_at c = None" "addrs \<noteq> []" "answers x (length (dialled w)) addrs rs"
  shows "fst (try_addrs x c addrs w) = Ready (map_err IoError (pick rs))"
  using assms
proof (induction addrs arbitrary: w rs)
  case (Cons a addrs)
  obtain t r rs' where rs: "rs = r # rs'" "x_dial x a (length (dialled w)) = Some (t, r)"
    "answers x (Suc (length (dialled w))) addrs rs'"
    using Cons.prems(3) by (auto simp: answers_Cons)
  have "timeout w c = Ok None" using Cons.prems(1) by (simp add: timeout_Ok)
  moreover have "map_err error_from_io r = map_err IoError r" by (cases r) simp_all
  ultimately show ?case
  proof (cases "addrs = []")
    case True
    then have "rs' = []" using rs(3) by (simp add: answers_def)
    then show ?thesis using True rs(1,2) \<open>timeout w c = Ok None\<close> \<open>map_err error_from_io r = _\<close>
      by (simp add: dial_def)
  next
    case False
    let ?w = "w\<lparr>dialled := dialled w @ [a], now := now w + t\<rparr>"
    have "fst (try_addrs x c addrs ?w) = Ready (map_err IoError (pick rs'))"
      using Cons.IH [of ?w rs'] Cons.prems(1) False rs(3) by simp
    moreover have "rs' \<noteq> []" using rs(3) False by (auto simp: answers_def)
    ultimately show ?thesis
      using False rs(1,2) \<open>timeout w c = Ok None\<close> \<open>map_err error_from_io r = _\<close>
      by (simp add: dial_def pick_Cons)
  qed
qed simp

section \<open>Hosts\<close>

text \<open>The ASCII form of a label, if it has one.\<close>

definition ascii_label :: "(rstring \<Rightarrow> (rstring, unit) result) \<Rightarrow> rstring \<Rightarrow> rstring option" where
  "ascii_label enc s =
     (if is_ascii s then Some s else case enc s of Ok p \<Rightarrow> Some (str ''xn--'' @ p) | Err _ \<Rightarrow> None)"

lemma punycode_labels_Ok:
  "punycode_labels enc ls acc = Ok h \<longleftrightarrow>
     (\<exists>ls'. map (ascii_label enc) ls = map Some ls' \<and> h = acc @ concat (map (\<lambda>l. l @ [46]) ls'))"
proof (induction ls arbitrary: acc)
  case (Cons l ls)
  show ?case
  proof (cases "ascii_label enc l")
    case None
    then have "\<not> is_ascii l" "\<exists>e. enc l = Err e" by (auto simp: ascii_label_def split: if_splits result.splits)
    with None show ?thesis by (auto simp: Cons_eq_map_conv)
  next
    case (Some l')
    then have "punycode_labels enc (l # ls) acc = punycode_labels enc ls (acc @ l' @ [46])"
      by (auto simp: ascii_label_def str_def split: if_splits result.splits)
    moreover have "(\<exists>ks. map (ascii_label enc) (l # ls) = map Some ks \<and> h = acc @ concat (map (\<lambda>l. l @ [46]) ks))
        \<longleftrightarrow> (\<exists>ls'. map (ascii_label enc) ls = map Some ls' \<and> h = acc @ concat (map (\<lambda>l. l @ [46]) (l' # ls')))"
    proof -
      have "map (ascii_label enc) (l # ls) = map Some ks \<longleftrightarrow> (\<exists>ls'. ks = l' # ls' \<and> map (ascii_label enc) ls = map Some ls')" for ks
        using Some by (cases ks) auto
      then show ?thesis by (simp del: list.map) blast
    qed
    ultimately show ?thesis using Cons.IH [of "acc @ l' @ [46]"] by simp
  qed
qed auto

lemma punycode_labels_Err:
  "punycode_labels enc ls acc = Err e \<longleftrightarrow> (\<exists>l\<in>set ls. ascii_label enc l = None) \<and> e = PunycodeConversionFailed"
  by (induction ls arbitrary: acc) (auto simp: ascii_label_def split: result.splits)

lemma ascii_label_None: "ascii_label enc l = None \<longleftrightarrow> \<not> is_ascii l \<and> \<not> is_ok (enc l)"
  by (auto simp: ascii_label_def split: result.split)

lemma split_char_parts: "w \<in> set (split_char d s) \<Longrightarrow> e \<in> set w \<Longrightarrow> e \<in> set s \<and> e \<noteq> d"
proof (induction s arbitrary: w)
  case (Cons c s)
  then show ?case
    by (cases "split_char d s") (fastforce split: if_splits)+
qed simp

lemma split_char_join:
  assumes "ls \<noteq> []" "\<forall>l\<in>set ls. d \<notin> set l"
  shows "split_char d (butlast (concat (map (\<lambda>l. l @ [d]) ls))) = ls"
  using assms
proof (induction ls)
  case (Cons l ls)
  show ?case
  proof (cases "ls = []")
    case True
    then show ?thesis using Cons.prems by (simp add: split_char_no_delim butlast_append)
  next
    case False
    then have "concat (map (\<lambda>l. l @ [d]) ls) \<noteq> []" by (cases ls) simp_all
    then have "butlast (concat (map (\<lambda>l. l @ [d]) (l # ls)))
        = l @ d # butlast (concat (map (\<lambda>l. l @ [d]) ls))"
      by (simp add: butlast_append)
    then show ?thesis using Cons False by (simp add: split_char_append_delim)
  qed
qed simp

lemma is_ascii_butlast: "is_ascii s \<Longrightarrow> is_ascii (butlast s)"
  by (auto simp: is_ascii_def dest: in_set_butlastD)

lemma is_ascii_concat: "is_ascii (concat ss) \<longleftrightarrow> (\<forall>s\<in>set ss. is_ascii s)"
  by (auto simp: is_ascii_def)

definition ascii_encoder :: "(rstring \<Rightarrow> (rstring, unit) result) \<Rightarrow> bool" where
  "ascii_encoder enc \<longleftrightarrow> (\<forall>s p. enc s = Ok p \<longrightarrow> is_ascii p \<and> ch CHR ''.'' \<notin> set p)"

lemma ascii_label_ascii:
  "ascii_encoder enc \<Longrightarrow> 46 \<notin> set s \<Longrightarrow> ascii_label enc s = Some l \<Longrightarrow> is_ascii l \<and> 46 \<notin> set l"
  by (auto simp: ascii_label_def ascii_encoder_def str_def split: result.splits if_splits)

lemma ensure_ascii_host_Ok:
  assumes "ensure_ascii_host cf enc h = Ok h'" "ascii_encoder enc"
  shows "is_ascii h'" "map (ascii_label enc) (split_char 46 h) = map Some (split_char 46 h')" "is_ascii h \<or> feat_punycode cf"
proof -
  let ?ls = "split_char 46 h"
  have "is_ascii h' \<and> map (ascii_label enc) ?ls = map Some (split_char 46 h') \<and> (is_ascii h \<or> feat_punycode cf)"
  proof (cases "is_ascii h")
    case True
    then have "ascii_label enc l = Some l" if "l \<in> set ?ls" for l
      using split_char_parts [OF that] by (auto simp: ascii_label_def is_ascii_def)
    then show ?thesis using True assms(1) by (auto simp: ensure_ascii_host_def)
  next
    case False
    then obtain ls where ls: "map (ascii_label enc) ?ls = map Some ls" "h' = butlast (concat (map (\<lambda>l. l @ [46]) ls))"
      "feat_punycode cf"
      using assms(1) by (cases "punycode_labels enc ?ls []") (auto simp: ensure_ascii_host_def dest!: iffD1 [OF punycode_labels_Ok] split: if_splits)
    have l: "is_ascii l \<and> 46 \<notin> set l" if "l \<in> set ls" for l
    proof -
      have "Some l \<in> set (map (ascii_label enc) ?ls)" unfolding ls(1) using that by simp
      then obtain k where "k \<in> set ?ls" "ascii_label enc k = Some l" by fastforce
      moreover from this(1) have "46 \<notin> set k" using split_char_parts by blast
      ultimately show ?thesis using ascii_label_ascii [OF assms(2)] by blast
    qed
    have "ls \<noteq> []" using arg_cong [OF ls(1), of length] by (cases ls) simp_all
    then have "split_char 46 h' = ls" unfolding ls(2) using l by (intro split_char_join) auto
    moreover have "is_ascii h'" unfolding ls(2) using l by (intro is_ascii_butlast) (simp add: is_ascii_concat)
    ultimately show ?thesis using ls by simp
  qed
  then show "is_ascii h'" "map (ascii_label enc) (split_char 46 h) = map Some (split_char 46 h')" "is_ascii h \<or> feat_punycode cf"
    by simp_all
qed

lemma ensure_ascii_host_Err:
  "ensure_ascii_host cf enc h = Err e \<longleftrightarrow> \<not> is_ascii h \<and>
     (if feat_punycode cf
      then (\<exists>l\<in>set (split_char 46 h). \<not> is_ascii l \<and> \<not> is_ok (enc l)) \<and> e = PunycodeConversionFailed
      else e = PunycodeFeatureNotEnabled)"
  using punycode_labels_Err [of enc "split_char 46 h" "[]" e]
  by (cases "punycode_labels enc (split_char 46 h) []") (auto simp: ensure_ascii_host_def ascii_label_None)

section \<open>The answer of a proxy\<close>

lemma from_utf8_lossy_valid: "\<forall>c\<in>set s. is_scalar c \<Longrightarrow> from_utf8_lossy (into_bytes s) = s"
proof (induction s)
  case Nil
  show ?case by (simp add: from_utf8_lossy.simps)
next
  case (Cons c s)
  then show ?case
    by (subst from_utf8_lossy.simps) (simp add: utf8_next_encode)
qed

lemma first_line_crlf:
  assumes "10 \<notin> set l"
  shows "first_line (l @ [13, 10] @ r) = Some l"
proof -
  have "takeWhile (\<lambda>c. c \<noteq> 10) ((l @ [13]) @ 10 # r) = l @ [13]"
    using assms by (intro takeWhile_append_stop) auto
  then show ?thesis by (simp add: first_line_def Let_def)
qed

text \<open>What the first line of the answer means.\<close>

definition proxy_verdict :: "rstring \<Rightarrow> (unit, error) result" where
  "proxy_verdict line =
     (case split_whitespace line of
        version # code # rest \<Rightarrow>
          if code = str ''200'' then Ok ()
          else if code \<in> {str ''401'', str ''407''} then Err InvalidProxyCreds else Err BadProxy
      | _ \<Rightarrow> Err BadProxy)"

lemma verify_response_line:
  assumes "\<forall>c\<in>set (l @ r). is_scalar c" "10 \<notin> set l"
  shows "verify_response (into_bytes (l @ [13, 10] @ r)) = proxy_verdict l"
proof -
  have "\<forall>c\<in>set (l @ [13, 10] @ r). is_scalar c" using assms(1) by (auto simp: is_scalar_def)
  then have "from_utf8_lossy (into_bytes (l @ [13, 10] @ r)) = l @ [13, 10] @ r"
    by (rule from_utf8_lossy_valid)
  then show ?thesis
    by (simp add: verify_response_def proxy_verdict_def first_line_crlf [OF assms(2), simplified] del: into_bytes_simps
        split: list.split)
qed

lemma write_all_Ok: "write_all es bs = (Ready (Ok u), out, es') \<Longrightarrow> out = bs"
proof (induction es bs arbitrary: out rule: write_all.induct)
  case (5 n es b bs)
  then show ?case by (auto split: if_splits prod.splits)
qed auto

lemma into_bytes_zeros: "into_bytes (replicate n 0) = replicate n 0"
  by (induction n) (simp_all add: encode_utf8_def byte_def)

lemma proxy_read_short:
  "length b < 256 \<Longrightarrow> proxy_read (Chunk b # es) acc = (Ready (Ok (acc @ b @ replicate (256 - length b) 0)), es)"
  by (subst proxy_read.simps) simp

lemma proxy_exchange_answer:
  assumes w: "write_all (tcp_writes tcp) (into_bytes (proxy_connect (x_b64 x) p (c_request c))) = (Ready (Ok ()), out, ws)"
    and i: "tcp_incoming tcp = Chunk (into_bytes (l @ [13, 10] @ r)) # es"
    and l: "length (into_bytes (l @ [13, 10] @ r)) < 256" "\<forall>c\<in>set (l @ r). is_scalar c" "10 \<notin> set l"
  shows "proxy_exchange x c p tcp w0 =
    (Ready (case proxy_verdict l of
       Ok u \<Rightarrow> Ok (tcp\<lparr>tcp_writes := ws, tcp_incoming := es\<rparr>) | Err e \<Rightarrow> Err e),
     w0\<lparr>connects := connects w0 @ [into_bytes (proxy_connect (x_b64 x) p (c_request c))]\<rparr>)"
proof -
  let ?n = "256 - length (into_bytes (l @ [13, 10] @ r))"
  have "into_bytes (l @ [13, 10] @ r) @ replicate ?n 0 = into_bytes (l @ [13, 10] @ (r @ replicate ?n 0))"
    by (simp add: into_bytes_zeros)
  moreover have "\<forall>c\<in>set (l @ (r @ replicate ?n 0)). is_scalar c"
    using l(2) by (auto simp: is_scalar_def)
  ultimately have "verify_response (into_bytes (l @ [13, 10] @ r) @ replicate ?n 0) = proxy_verdict l"
    using verify_response_line l(3) by metis
  then show ?thesis
    using w proxy_read_short [OF l(1), of es "[]"] write_all_Ok [OF w] unfolding i [symmetric]
    by (simp add: proxy_exchange_def Let_def del: into_bytes_simps split: result.split)
qed

section \<open>A direct exchange\<close>

text \<open>
  The request reaches the server over its first address, in time, and the socket takes \<open>n\<close> bytes of it.
\<close>

definition resolved_at :: "externals \<Rightarrow> connection \<Rightarrow> world \<Rightarrow> instant" where
  "resolved_at x c w = now w + x_resolve_time x (host (conn_url c)) (port_number (url_port (conn_url c))) (now w)"

definition reaches :: "externals \<Rightarrow> connection \<Rightarrow> world \<Rightarrow> nat \<Rightarrow> tcp_stream \<Rightarrow> bool" where
  "reaches x c w n tcp \<longleftrightarrow>
     (feat_proxy (x_cfg x) \<longrightarrow> req_proxy (conn_config c) = None)
     \<and> (\<exists>a as t ws. x_resolve x (host (conn_url c)) (port_number (url_port (conn_url c))) = Ok (a # as)
          \<and> x_dial x a (length (dialled w)) = Some (t, Ok tcp) \<and> tcp_writes tcp = Wrote n # ws
          \<and> (case c_timeout_at c of None \<Rightarrow> True | Some d \<Rightarrow> resolved_at x c w + t + tcp_latency tcp \<le> d))"

definition in_time :: "world \<Rightarrow> connection \<Rightarrow> bool" where
  "in_time w c \<longleftrightarrow> (case c_timeout_at c of None \<Rightarrow> True | Some d \<Rightarrow> now w \<le> d)"

lemma exchange_http_reaches:
  assumes "reaches x c w n tcp"
  obtains w' where "exchange_http x c w = (read_head x c (Unsecured (tcp_incoming tcp) (c_timeout_at c)), w')"
    "requests w' = requests w @ [take n (as_bytes (x_iter x) (c_request c))]" "in_time w c" "in_time w' c"
proof -
  obtain a as t ws where r: "x_resolve x (host (conn_url c)) (port_number (url_port (conn_url c))) = Ok (a # as)"
    "x_dial x a (length (dialled w)) = Some (t, Ok tcp)" "tcp_writes tcp = Wrote n # ws"
    and d: "case c_timeout_at c of None \<Rightarrow> True | Some d \<Rightarrow> resolved_at x c w + t + tcp_latency tcp \<le> d"
    using assms by (auto simp: reaches_def)
  let ?w = "w\<lparr>dialled := dialled w @ [a], now := resolved_at x c w + t\<rparr>"
  have "connection_connect x c w = (Ready (Ok tcp), ?w)"
    using assms r d
    by (auto simp: connection_connect_def tcp_connect_def dial_def reaches_def timeout_def timeout_at_to_duration_def
        resolved_at_def Let_def split: option.splits)
  then have "exchange_http x c w = (read_head x c (Unsecured (tcp_incoming tcp) (c_timeout_at c)),
      ?w\<lparr>requests := requests w @ [take n (as_bytes (x_iter x) (c_request c))], now := resolved_at x c w + t + tcp_latency tcp\<rparr>)"
    using r(3) d by (auto simp: exchange_http_def create_unsecured_def suspend_def split: option.splits)
  then show ?thesis by (rule that) (use d in \<open>auto simp: in_time_def resolved_at_def split: option.splits\<close>)
qed

lemma send_reaches:
  assumes "reaches x c w n tcp" "is_ascii (host (conn_url c))"
    and "read_head x c (Unsecured (tcp_incoming tcp) (c_timeout_at c)) = Ready (Ok r)" "\<not> is_redirect (lz_status_code r)"
  shows "\<exists>w'. send x c w = (Ready (Ok (r\<lparr>lz_url := print_url (conn_url c)\<rparr>)), w')
    \<and> requests w' = requests w @ [take n (as_bytes (x_iter x) (c_request c))]"
proof -
  obtain w1 where w1: "exchange_http x c w = (Ready (Ok r), w1)"
    "requests w1 = requests w @ [take n (as_bytes (x_iter x) (c_request c))]" "in_time w c" "in_time w1 c"
    using exchange_http_reaches [OF assms(1)] assms(3) by metis
  have a: "with_ascii_host x c = Ok c"
    using assms(2) by (simp add: with_ascii_host_def ensure_ascii_host_def)
  have "get_redirect (x_cfg x) c (lz_status_code r) loc = Destination c" for loc
    using assms(4) by (simp add: get_redirect_Destination)
  then have "handle_redirects x c r w1 = (Ready (Ok (r\<lparr>lz_url := print_url (conn_url c)\<rparr>)), w1)"
    using exchange_http_url [OF w1(1)] by (simp add: handle_redirects.simps print_url_def Let_def)
  then have s: "send_without_timeout x c w = (Ready (Ok (r\<lparr>lz_url := print_url (conn_url c)\<rparr>)), w1)"
    using a w1(1) by (simp add: send_without_timeout.simps)
  show ?thesis
  proof (cases "timeout w c")
    case (Ok limit)
    then have "deadline (now w) limit (send_without_timeout x c w) = (Ready (Ok (r\<lparr>lz_url := print_url (conn_url c)\<rparr>)), w1)"
      unfolding s deadline_Ok by simp
    then show ?thesis using Ok w1(2) by (simp add: send.simps)
  next
    case (Err e)
    then show ?thesis using w1(3) by (auto simp: timeout_Err in_time_def)
  qed
qed

end
