(* ===== verification/Send_Rule.thy ===== *)
theory Send_Rule
  imports Connection_Spec
begin

text \<open>
  A rule for \<open>Connection::send\<close> and the functions it is mutually recursive with. What is to be
  shown of sending is stated as four predicates: \<open>I\<close> of a connection that is to be sent, \<open>J\<close> of
  one whose host has been converted, \<open>Q\<close> of an outcome and \<open>K\<close> of the world. When one exchange
  and one redirect keep them, sending does, whatever the servers answer; an exchange that the timer of
  its connection ends is pending, and becomes an error. Termination, the types of
  responses, the absence of panics and of injected lines and the errors that can be returned are instances.
\<close>

lemma parse_Err: "parse cf url from = Err e \<Longrightarrow> \<exists>io. e = IoError io"
  by (auto simp: parse_eq_split invalid_protocol_error_def split: option.splits prod.splits)

lemma parsed_request_new_Err: "parsed_request_new cf env req = Err e \<Longrightarrow> \<exists>io. e = IoError io"
  by (cases "parse cf (req_url req) None") (auto simp: parsed_request_new_def Let_def dest: parse_Err)

locale sending =
  fixes x :: externals
    and I J :: "connection \<Rightarrow> bool"
    and Q :: "(response_lazy, error) result poll \<Rightarrow> bool"
    and K :: "world \<Rightarrow> bool"
  assumes ascii: "I c \<Longrightarrow> with_ascii_host x c = Ok ca \<Longrightarrow> J ca"
    and http: "J c \<Longrightarrow> K w \<Longrightarrow> exchange_http x c w = (r, w') \<Longrightarrow> (Q r \<or> r = Pending \<and> c_timeout_at c \<noteq> None) \<and> K w'"
    and https: "J c \<Longrightarrow> K w \<Longrightarrow> feat_tls (x_cfg x) = Some be \<Longrightarrow> exchange_https x be c w = (r, w') \<Longrightarrow>
      (Q r \<or> r = Pending \<and> c_timeout_at c \<noteq> None) \<and> K w'"
    and redirect: "J c \<Longrightarrow> Q (Ready (Ok resp)) \<Longrightarrow>
      get_redirect (x_cfg x) c (lz_status_code resp) (hm_get (lz_headers resp) (str ''location'')) = Redirect (Ok c') \<Longrightarrow> I c'"
    and error: "Q (Ready (Err (IoError io)))"
    and ascii_error: "I c \<Longrightarrow> with_ascii_host x c = Err e \<Longrightarrow> Q (Ready (Err e))"
    and redirect_error: "J c \<Longrightarrow> get_redirect (x_cfg x) c code loc = Redirect (Err e) \<Longrightarrow> Q (Ready (Err e))"
    and no_https: "feat_tls (x_cfg x) = None \<Longrightarrow> Q (Ready (Err HttpsFeatureNotEnabled))"
    and url: "Q (Ready (Ok resp)) \<Longrightarrow> Q (Ready (Ok (resp\<lparr>lz_url := u\<rparr>)))"
    and clock: "K w \<Longrightarrow> K (w\<lparr>now := t\<rparr>)"
begin

definition holds :: "(response_lazy, error) result poll \<times> world \<Rightarrow> bool" where
  "holds o1 \<longleftrightarrow> Q (fst o1) \<and> K (snd o1)"

definition sends :: "connection \<Rightarrow> bool" where
  "sends c \<longleftrightarrow> (\<forall>w. K w \<longrightarrow> holds (send x c w) \<and> (\<forall>be. feat_tls (x_cfg x) = Some be \<longrightarrow> holds (send_https x be c w)))"

lemma holds_simps [simp]:
  "holds (r, w) \<longleftrightarrow> Q r \<and> K w"
  by (simp add: holds_def)

text \<open>What holds inside the timeout of a connection.\<close>

definition holds_in :: "connection \<Rightarrow> (response_lazy, error) result poll \<times> world \<Rightarrow> bool" where
  "holds_in c o1 \<longleftrightarrow> (Q (fst o1) \<or> fst o1 = Pending \<and> c_timeout_at c \<noteq> None) \<and> K (snd o1)"

lemma holds_holds_in: "holds o1 \<Longrightarrow> holds_in c o1"
  by (simp add: holds_def holds_in_def)

lemma deadline_holds: "holds_in c o1 \<Longrightarrow> timeout w c = Ok limit \<Longrightarrow> holds (deadline t limit o1)"
  by (cases o1) (auto simp: deadline_def holds_in_def timeout_Ok error clock split: option.splits poll.splits)

lemma handle_redirects_holds:
  assumes "J c" "Q (Ready (Ok r))" "K w"
    and "\<And>c' code loc. get_redirect (x_cfg x) c code loc = Redirect (Ok c') \<Longrightarrow> I c' \<Longrightarrow> sends c'"
  shows "holds (handle_redirects x c r w)"
proof (cases "get_redirect (x_cfg x) c (lz_status_code r) (hm_get (lz_headers r) (str ''location''))")
  case (Redirect res)
  show ?thesis
  proof (cases res)
    case (Ok c')
    then have "sends c'" using assms(4) redirect [OF assms(1,2)] Redirect by blast
    then show ?thesis using Redirect Ok assms(3)
      by (subst handle_redirects.simps) (auto simp: sends_def no_https split: option.splits)
  next
    case (Err e)
    then show ?thesis using Redirect assms(3) by (subst handle_redirects.simps) (simp add: redirect_error [OF assms(1)])
  qed
next
  case (Destination c')
  then show ?thesis using assms(2,3) url by (subst handle_redirects.simps) (simp add: Let_def)
qed

lemma sends: "I c \<Longrightarrow> sends c"
proof (induction "hops_left c" arbitrary: c rule: less_induct)
  case less
  have h: "holds (handle_redirects x ca r w)" if "with_ascii_host x c = Ok ca" "Q (Ready (Ok r))" "K w" for ca r w
  proof (rule handle_redirects_holds [OF ascii [OF less.prems that(1)] that(2,3)])
    show "sends c'" if "get_redirect (x_cfg x) ca code loc = Redirect (Ok c')" "I c'" for c' code loc
      using less.hyps [of c'] get_redirect_hops [OF that(1)] with_ascii_host_hops [OF \<open>with_ascii_host x c = Ok ca\<close>] that(2)
      by simp
  qed
  have at: "c_timeout_at ca = c_timeout_at c" if "with_ascii_host x c = Ok ca" for ca
    using with_ascii_host_frame(1) [OF that] by (simp add: same_config_def)
  have "holds_in c (send_without_timeout x c w)" if "K w" for w
  proof (cases "with_ascii_host x c")
    case (Ok ca)
    obtain r w1 where e: "exchange_http x ca w = (r, w1)" by fastforce
    then show ?thesis using http [OF ascii [OF less.prems Ok] that e] h [OF Ok] Ok at [OF Ok]
      by (subst send_without_timeout.simps) (auto simp: holds_in_def holds_def split: poll.splits result.splits)
  qed (subst send_without_timeout.simps, simp add: holds_in_def ascii_error [OF less.prems] that)
  moreover have "holds_in c (send_https_without_timeout x be c w)" if "feat_tls (x_cfg x) = Some be" "K w" for be w
  proof (cases "with_ascii_host x c")
    case (Ok ca)
    obtain r w1 where e: "exchange_https x be ca w = (r, w1)" by fastforce
    then show ?thesis using https [OF ascii [OF less.prems Ok] that(2,1) e] h [OF Ok] Ok at [OF Ok]
      by (subst send_https_without_timeout.simps) (auto simp: holds_in_def holds_def split: poll.splits result.splits)
  qed (subst send_https_without_timeout.simps, simp add: holds_in_def ascii_error [OF less.prems] that)
  ultimately show ?case
    by (auto simp: sends_def send.simps send_https.simps error other_io_error_def split: result.split intro: deadline_holds)
qed

lemma send_keeps: "I c \<Longrightarrow> K w \<Longrightarrow> send x c w = (r, w') \<Longrightarrow> Q r \<and> K w'"
  using sends [of c] by (auto simp: sends_def)

text \<open>A request starts with a connection, or panics when its deadline is out of range.\<close>

lemma request_send_lazy_keeps:
  assumes "\<And>pr c. parsed_request_new (x_cfg x) (x_env x) req = Ok pr \<Longrightarrow> connection_new x w pr = Ready c \<Longrightarrow> I c"
    and "K w" "request_send_lazy x req w = (r, w')"
  shows "Q r \<and> K w' \<or> r = Panicked \<and> w' = w \<and>
    (\<exists>pr. parsed_request_new (x_cfg x) (x_env x) req = Ok pr \<and> connection_new x w pr = Panicked)"
proof (cases "parsed_request_new (x_cfg x) (x_env x) req")
  case (Ok pr)
  have n: "connection_new x w pr \<noteq> Pending"
    by (auto simp: connection_new_def instant_add_def Let_def split: option.splits)
  show ?thesis
  proof (cases "connection_new x w pr")
    case (Ready c)
    then have "sends c" using assms(1) Ok sends by blast
    then show ?thesis using assms(2,3) Ok Ready
      by (auto simp: request_send_lazy_def sends_def no_https split: if_splits option.splits)
  next
    case Panicked
    then show ?thesis using assms(2,3) Ok by (auto simp: request_send_lazy_def no_https split: if_splits option.splits)
  qed (use n in simp)
qed (use assms(2,3) error in \<open>auto simp: request_send_lazy_def dest!: parsed_request_new_Err\<close>)

end

end
