(* ===== verification/Progress_Spec.thy ===== *)
theory Progress_Spec
  imports Send_Rule
begin

text \<open>
  Nothing hangs once every connection is closed by its peer: whatever bytes arrived before, in
  whatever pieces, well-formed or not, each operation that awaits returns. The argument follows
  the layers: the stream, the line readers, the head, the bodies, the exchange, and sending.
\<close>

section \<open>Reading the head\<close>

text \<open>A stream that stays in a set of states in which waiting for it ends.\<close>

locale live_stream = stream_invariant +
  assumes next_ends: "P s \<Longrightarrow> fst (next_await s) \<noteq> Pending"
begin

lemma line_loop_async_ends: "P s \<Longrightarrow> fst (line_loop_async m e acc s) \<noteq> Pending"
proof (induction m e acc s rule: line_loop_async.induct)
  case (1 m e acc s)
  obtain y s1 where y: "next_await s = (y, s1)" by fastforce
  then have "P s1" "y \<noteq> Pending" using next_keeps [OF y "1.prems"] next_ends [OF "1.prems"] by simp_all
  then show ?case using "1.IH" [OF y [symmetric]] y
    by (subst line_loop_async.simps) (auto split: poll.splits option.splits result.splits)
qed

lemma read_line_async_ends: "P s \<Longrightarrow> fst (read_line_async m e pre s) \<noteq> Pending"
  using line_loop_async_ends
  by (auto simp: read_line_async_def Let_def split: prod.splits poll.splits result.splits) (metis fst_conv)+

lemma header_loop_ends: "P s \<Longrightarrow> fst (header_loop b m tr h s) \<noteq> Pending"
proof (induction b m tr h s rule: header_loop.induct)
  case (1 b m tr h s)
  obtain y s1 where y: "read_line_async m HeadersOverflow tr s = (y, s1)" by fastforce
  then have "P s1" "y \<noteq> Pending"
    using read_line_async_keeps [OF y "1.prems"] read_line_async_ends [OF "1.prems", of m HeadersOverflow tr] by simp_all
  then show ?case using "1.IH" [OF y [symmetric]] y
    by (subst header_loop.simps) (auto split: poll.splits option.splits result.splits)
qed

lemma read_metadata_ends: "P s \<Longrightarrow> fst (read_metadata b iter m n s) \<noteq> Pending"
proof -
  assume P: "P s"
  obtain y s1 where y: "read_line_async n StatusLineOverflow [] s = (y, s1)" by fastforce
  have "P s1" "y \<noteq> Pending"
    using read_line_async_keeps [OF y P] read_line_async_ends [OF P, of n StatusLineOverflow "[]"] y by simp_all
  then show ?thesis using y header_loop_ends [of s1 b m _ "[]"]
    by (auto simp: read_metadata_def split: prod.splits poll.splits result.splits) (metis fst_conv)+
qed

lemma from_stream_ends: "P s \<Longrightarrow> from_stream b iter m n s \<noteq> Pending"
  using read_metadata_ends [of s b iter m n]
  by (auto simp: from_stream_def Let_def split: prod.splits poll.splits result.splits)

lemma from_stream_keeps: "from_stream b iter m n s = Ready (Ok r) \<Longrightarrow> P s \<Longrightarrow> P (lz_stream r)"
  using read_metadata_keeps [of b iter m n s]
  by (auto simp: from_stream_def Let_def split: prod.splits poll.splits result.splits)

end

text \<open>The peer closes the connection in the end.\<close>

definition ends :: "http_stream \<Rightarrow> bool" where
  "ends s \<longleftrightarrow> Eof \<in> set (events s)"

lemma poll_next_ends:
  assumes "ends s" "poll_next s = (y, s1)"
  shows "ends s1" "y = Pending \<Longrightarrow> length (events s1) < length (events s)"
  using assms by (cases s rule: poll_next.cases; auto simp: ends_def)+

lemma wait_ready_ends: "ends s \<Longrightarrow> ends (wait_ready s) \<and> fst (poll_next (wait_ready s)) \<noteq> Pending"
proof (cases s)
  case (Unsecured es t)
  assume "ends s"
  with Unsecured have "Eof \<in> set es" by (simp add: ends_def)
  then have "Eof \<in> set (dropWhile (\<lambda>e. e = NotReady) es) \<and> fst (poll_next (Unsecured (dropWhile (\<lambda>e. e = NotReady) es) t)) \<noteq> Pending"
  proof (induction es)
    case (Cons ev es)
    then show ?case by (cases ev) auto
  qed simp
  with Unsecured show ?thesis by (simp add: wait_ready_def ends_def)
qed (simp add: wait_ready_def)

interpretation ending: live_stream ends
proof unfold_locales
  fix s s' :: http_stream and x
  show "next_await s = (x, s') \<Longrightarrow> ends s \<Longrightarrow> ends s'"
    unfolding next_await_def using wait_ready_ends poll_next_ends(1) by blast
  show "ends s \<Longrightarrow> fst (next_await s) \<noteq> Pending"
    unfolding next_await_def using wait_ready_ends by blast
qed

section \<open>Reading the body\<close>

text \<open>
  One poll of a stream whose peer closes: the end stays ahead, nothing is taken back, and a poll
  that has to wait has taken an event.
\<close>

definition progress :: "http_stream \<Rightarrow> 'a poll \<Rightarrow> http_stream \<Rightarrow> bool" where
  "progress s y s' \<longleftrightarrow> (ends s \<longrightarrow> ends s' \<and> length (events s') \<le> length (events s)
     \<and> (y = Pending \<longrightarrow> length (events s') < length (events s)))"

lemma progress_refl: "y \<noteq> Pending \<Longrightarrow> progress s y s"
  by (simp add: progress_def)

lemma progress_trans: "progress s y s1 \<Longrightarrow> progress s1 z s2 \<Longrightarrow> progress s z s2"
  by (auto simp: progress_def)

lemma progress_cong: "progress s y s' \<Longrightarrow> (z = Pending \<Longrightarrow> y = Pending) \<Longrightarrow> progress s z s'"
  by (auto simp: progress_def)

lemma poll_next_progress: "poll_next s = (y, s') \<Longrightarrow> progress s y s'"
  using poll_next_ends poll_next_events unfolding progress_def by blast

lemma line_loop_progress: "line_loop m e acc s = (y, s') \<Longrightarrow> progress s y s'"
proof (induction m e acc s arbitrary: y s' rule: line_loop.induct)
  case (1 m e acc s)
  obtain z s1 where z: "poll_next s = (z, s1)" by fastforce
  then have p: "progress s z s1" by (rule poll_next_progress)
  show ?case
  proof (cases "\<exists>chunk. z = Ready (Some (Ok chunk)) \<and> \<not> over_cap m acc \<and> new_line_flag (fold push_byte chunk acc)")
    case True
    then obtain chunk where c: "z = Ready (Some (Ok chunk))" "\<not> over_cap m acc"
      "new_line_flag (fold push_byte chunk acc)" by blast
    then have "line_loop m e (fold push_byte chunk acc) s1 = (y, s')"
      using "1.prems" z by (subst (asm) line_loop.simps) simp
    then have "progress s1 y s'"
      using "1.IH" [OF z [symmetric] c(1) refl refl c(2) refl] c(3) by simp
    with p show ?thesis by (rule progress_trans)
  next
    case False
    then have "s' = s1" "y = Pending \<Longrightarrow> z = Pending" using "1.prems" z
      by (subst (asm) line_loop.simps,
          auto simp: Let_def split: poll.splits option.splits result.splits if_splits)+
    with p show ?thesis by (auto intro: progress_cong)
  qed
qed

lemma read_line_progress:
  assumes "read_line m e pre s = (y, s')"
  shows "progress s y s'"
proof -
  obtain z s1 where z: "line_loop m e (fold push_byte pre line_start) s = (z, s1)" by fastforce
  have "y \<noteq> Pending \<and> s' = s \<or> s' = s1 \<and> (y = Pending \<longrightarrow> z = Pending)" using assms z
    by (auto simp: read_line_def Let_def split: poll.splits result.splits if_splits)
  then show ?thesis using progress_refl progress_cong [OF line_loop_progress [OF z]] by blast
qed

lemma read_trailers_progress: "read_trailers b s h m tr = (y, s', h') \<Longrightarrow> progress s y s'"
proof (induction b s h m tr arbitrary: y s' h' rule: read_trailers.induct)
  case (1 b s h m tr)
  obtain z s1 where z: "read_line m HeadersOverflow tr s = (z, s1)" by fastforce
  then have p: "progress s z s1" by (rule read_line_progress)
  show ?case
  proof (cases "s' = s1 \<and> (y = Pending \<longrightarrow> z = Pending)")
    case True
    with p show ?thesis by (auto intro: progress_cong)
  next
    case False
    then obtain l tr' cap k v where a: "z = Ready (Ok (l, tr'))" "lower_cap b m l = Some cap" "parse_header l = Some (k, v)"
      "read_trailers b s1 (hm_insert k v h) cap tr' = (y, s', h')"
      using "1.prems" z
      by (subst (asm) read_trailers.simps) (auto split: poll.splits option.splits result.splits)
    have "progress s1 y s'" using "1.IH" [OF z [symmetric] a(1) refl refl a(2,3) refl a(4)] .
    with p show ?thesis by (rule progress_trans)
  qed
qed

lemma begin_chunk_progress:
  "begin_chunk b pre m c = Inl (y, c') \<Longrightarrow> progress (ck_stream c) y (ck_stream c')"
  "begin_chunk b pre m c = Inr c' \<Longrightarrow> progress (ck_stream c) (Ready ()) (ck_stream c')"
proof -
  obtain z s1 where z: "read_line (Some 1024) MalformedChunkLength pre (ck_stream c) = (z, s1)" by fastforce
  then have p: "progress (ck_stream c) z s1" by (rule read_line_progress)
  show "progress (ck_stream c) y (ck_stream c')" if c': "begin_chunk b pre m c = Inl (y, c')"
  proof (cases "ck_stream c' = s1 \<and> (y = Pending \<longrightarrow> z = Pending)")
    case True
    with p show ?thesis by (auto intro: progress_cong)
  next
    case False
    then obtain tr u h where "read_trailers b s1 (ck_headers c) m tr = (u, ck_stream c', h)" "y = Pending \<longrightarrow> u = Pending"
      using c' z
      by (auto simp: begin_chunk_def end_of_chunks_def Let_def split: if_splits poll.splits result.splits option.splits prod.splits)
    then show ?thesis using progress_trans [OF p read_trailers_progress] progress_cong by blast
  qed
  show "progress (ck_stream c) (Ready ()) (ck_stream c')" if "begin_chunk b pre m c = Inr c'"
  proof -
    have "ck_stream c' = s1" using that z
      by (auto simp: begin_chunk_def Let_def split: if_splits poll.splits result.splits option.splits prod.splits)
    then show ?thesis using p by (simp add: progress_def)
  qed
qed

lemma poll_chunk_data_progress:
  assumes "poll_chunk_data c = (y, c')"
  shows "progress (ck_stream c) y (ck_stream c')"
proof -
  obtain z s where z: "poll_next (ck_stream c) = (z, s)" by fastforce
  have "y \<noteq> Pending \<and> ck_stream c' = ck_stream c \<or> ck_stream c' = s \<and> (y = Pending \<longrightarrow> z = Pending)"
    using assms z by (auto simp: poll_chunk_data_def Let_def split: if_splits poll.splits option.splits result.splits)
  then show ?thesis using progress_refl progress_cong [OF poll_next_progress [OF z]] by (metis (full_types))
qed

lemma read_chunked_progress:
  assumes "read_chunked b pre m c = (y, c')"
  shows "progress (ck_stream c) y (ck_stream c')"
proof -
  from assms consider "y \<noteq> Pending" "c' = c" | "begin_chunk b pre m c = Inl (y, c')"
    | c1 where "begin_chunk b pre m c = Inr c1" "poll_chunk_data c1 = (y, c')"
    | "poll_chunk_data c = (y, c')"
    by (auto simp: read_chunked_def split: if_splits sum.splits)
  then show ?thesis
  proof cases
    case (3 c1)
    then show ?thesis by (blast intro: progress_trans [OF begin_chunk_progress(2) poll_chunk_data_progress])
  qed (use progress_refl begin_chunk_progress(1) poll_chunk_data_progress in blast)+
qed

lemma lazy_poll_next_progress:
  assumes "lazy_poll_next b r = (y, r')"
  shows "progress (lz_stream r) y (lz_stream r')"
proof -
  obtain z s where z: "poll_next (lz_stream r) = (z, s)" by fastforce
  show ?thesis
  proof (cases "lz_state r")
    case (Chunked u v k)
    then show ?thesis using assms
      by (auto simp: lazy_poll_next_def Let_def split: prod.splits dest!: read_chunked_progress)
  next
    case EndOnClose
    then have "y \<noteq> Pending \<and> lz_stream r' = lz_stream r \<or> lz_stream r' = s \<and> (y = Pending \<longrightarrow> z = Pending)"
      using assms z
      by (auto simp: lazy_poll_next_def read_until_closed_def process_prefix_def Let_def
          split: prod.splits if_splits poll.splits option.splits result.splits)
    then show ?thesis using progress_refl progress_cong [OF poll_next_progress [OF z]] by (metis (full_types))
  next
    case (ContentLength n)
    then have "y \<noteq> Pending \<and> lz_stream r' = lz_stream r \<or> lz_stream r' = s \<and> (y = Pending \<longrightarrow> z = Pending)"
      using assms z
      by (auto simp: lazy_poll_next_def read_with_content_length_def process_prefix_def Let_def
          split: prod.splits if_splits poll.splits option.splits result.splits)
    then show ?thesis using progress_refl progress_cong [OF poll_next_progress [OF z]] by (metis (full_types))
  qed
qed

lemma lazy_next_ends:
  "ends (lz_stream r) \<Longrightarrow> lazy_next b r = (y, r') \<Longrightarrow> y \<noteq> Pending \<and> ends (lz_stream r')"
proof (induction b r arbitrary: y r' rule: lazy_next.induct)
  case (1 b r)
  obtain z r1 where z: "lazy_poll_next b r = (z, r1)" by fastforce
  then have p: "ends (lz_stream r1)" "z = Pending \<longrightarrow> length (events (lz_stream r1)) < length (events (lz_stream r))"
    using lazy_poll_next_progress "1.prems"(1) by (auto simp: progress_def)
  then show ?case using "1.IH" [OF z [symmetric]] "1.prems" z
    by (auto simp: lazy_next.simps [of b r] split: poll.splits)
qed

lemma drain_ends: "ends (lz_stream r) \<Longrightarrow> drain b r body \<noteq> Pending"
proof (induction b r body rule: drain.induct)
  case (1 b r body)
  obtain y r1 where y: "lazy_next b r = (y, r1)" by fastforce
  with "1.prems" have "y \<noteq> Pending" "ends (lz_stream r1)" using lazy_next_ends by blast+
  then show ?case using "1.IH" [OF y [symmetric]] y
    by (subst drain.simps) (auto split: poll.splits option.splits result.splits)
qed

lemma create_ends: "ends (lz_stream r) \<Longrightarrow> create b r h \<noteq> Pending"
  using drain_ends [of r b "[]"] by (auto simp: create_def split: poll.splits result.splits)

section \<open>Sending\<close>

text \<open>
  A socket that is closed in the end: reads reach the end of the stream, and writes that were not
  taken fail.
\<close>

definition closing_socket :: "tcp_stream \<Rightarrow> bool" where
  "closing_socket tcp \<longleftrightarrow> Eof \<in> set (tcp_incoming tcp) \<and> (\<exists>e. WriteFail e \<in> set (tcp_writes tcp) \<and> kind e \<noteq> WouldBlock)"

definition responsive :: "externals \<Rightarrow> bool" where
  "responsive x \<longleftrightarrow>
     (\<forall>a n. \<exists>t r. x_dial x a n = Some (t, r) \<and> (\<forall>tcp. r = Ok tcp \<longrightarrow> closing_socket tcp))
     \<and> (\<forall>k h tcp. \<exists>t r. x_handshake x k h tcp = Some (t, r) \<and> (\<forall>tls. r = Ok tls \<longrightarrow> closing_socket tls))"

lemma write_all_ends:
  "WriteFail e \<in> set ws \<Longrightarrow> write_all ws bs = (r, out, ws') \<Longrightarrow>
     r \<noteq> Pending \<and> (r = Ready (Ok u) \<longrightarrow> WriteFail e \<in> set ws')"
proof (induction ws bs arbitrary: r out ws' rule: write_all.induct)
  case (5 n es b bs)
  then show ?case by (cases "n = 0") (auto split: prod.splits)
qed (auto split: if_splits)

lemma try_write_loop_ends:
  "WriteFail e \<in> set ws \<Longrightarrow> kind e \<noteq> WouldBlock \<Longrightarrow> try_write_loop ws bs \<noteq> Pending"
  by (induction ws bs rule: try_write_loop.induct) auto

lemma read_some_ends: "Eof \<in> set es \<Longrightarrow> read_some n es = (r, es') \<Longrightarrow> r \<noteq> Pending \<and> (r = Ready (Ok b) \<longrightarrow> Eof \<in> set es')"
  by (induction n es rule: read_some.induct) auto

lemma proxy_read_ends:
  "Eof \<in> set es \<Longrightarrow> proxy_read es acc = (r, es') \<Longrightarrow> r \<noteq> Pending \<and> (r = Ready (Ok b) \<longrightarrow> Eof \<in> set es')"
proof (induction es acc arbitrary: r es' rule: proxy_read.induct)
  case (1 es acc)
  obtain y es1 where y: "read_some 256 es = (y, es1)" by fastforce
  have p: "y \<noteq> Pending" "\<And>b. y = Ready (Ok b) \<Longrightarrow> Eof \<in> set es1"
    using read_some_ends [OF "1.prems"(1) y] by blast+
  show ?case
  proof (cases "\<exists>c. y = Ready (Ok c) \<and> \<not> length c < 256")
    case True
    then obtain c where c: "y = Ready (Ok c)" "\<not> length c < 256" by blast
    then have "proxy_read es1 (acc @ c @ replicate (256 - length c) 0) = (r, es')"
      using "1.prems"(2) y by (subst (asm) proxy_read.simps) (simp add: Let_def)
    then show ?thesis using "1.IH" [OF y [symmetric] c(1) refl refl c(2) p(2) [OF c(1)]] by blast
  next
    case False
    then show ?thesis using "1.prems"(2) y p
      by (subst (asm) proxy_read.simps) (auto simp: Let_def split: poll.splits result.splits)
  qed
qed

text \<open>What is promised of a step that yields a socket.\<close>

definition yields_closing :: "(tcp_stream, 'e) result poll \<Rightarrow> bool" where
  "yields_closing r \<longleftrightarrow> r \<noteq> Pending \<and> (\<forall>tcp. r = Ready (Ok tcp) \<longrightarrow> closing_socket tcp)"

lemma proxy_exchange_ends:
  assumes "closing_socket tcp"
  shows "yields_closing (fst (proxy_exchange x c p tcp w))"
proof -
  obtain e where e: "WriteFail e \<in> set (tcp_writes tcp)" "kind e \<noteq> WouldBlock" "Eof \<in> set (tcp_incoming tcp)"
    using assms by (auto simp: closing_socket_def)
  obtain r out ws where w: "write_all (tcp_writes tcp) (into_bytes (proxy_connect (x_b64 x) p (c_request c))) = (r, out, ws)"
    using prod_cases3 by blast
  obtain q es where q: "proxy_read (tcp_incoming tcp) [] = (q, es)" by fastforce
  show ?thesis
    using write_all_ends [OF e(1) w] proxy_read_ends [OF e(3) q] e(2) w q
    by (auto simp: proxy_exchange_def yields_closing_def closing_socket_def Let_def split: poll.splits result.splits)
qed

lemma dial_ends:
  assumes "responsive x"
  shows "yields_closing (fst (dial x w limit a))"
proof -
  obtain t r where "x_dial x a (length (dialled w)) = Some (t, r)" "\<forall>tcp. r = Ok tcp \<longrightarrow> closing_socket tcp"
    using assms unfolding responsive_def by blast
  then show ?thesis by (auto simp: yields_closing_def dial_def Let_def split: option.splits)
qed

lemma try_addrs_ends: "responsive x \<Longrightarrow> yields_closing (fst (try_addrs x c addrs w))"
proof (induction addrs arbitrary: w)
  case (Cons a addrs)
  show ?case
  proof (cases "timeout w c")
    case (Ok limit)
    obtain r w1 where "dial x w limit a = (r, w1)" by fastforce
    then show ?thesis using Ok Cons dial_ends [OF Cons.prems, of w limit a]
      by (auto simp: yields_closing_def split: poll.splits)
  qed (simp add: yields_closing_def)
qed (simp add: yields_closing_def)

lemma tcp_connect_ends: "responsive x \<Longrightarrow> yields_closing (fst (tcp_connect x c h p w))"
  by (auto simp: tcp_connect_def Let_def try_addrs_ends yields_closing_def [of "Ready (Err _)"] split: result.split)

text \<open>A wait is ended by the timer of the connection, if it has one.\<close>

definition timed_out :: "connection \<Rightarrow> 'a poll \<Rightarrow> bool" where
  "timed_out c r \<longleftrightarrow> r = Pending \<and> c_timeout_at c \<noteq> None"

lemma fst_suspend: "fst (suspend c t o1) = fst o1 \<or> timed_out c (fst (suspend c t o1))"
  by (cases o1) (auto simp: suspend_def timed_out_def)

lemma connection_connect_ends:
  assumes "responsive x"
  shows "yields_closing (fst (connection_connect x c w)) \<or> timed_out c (fst (connection_connect x c w))"
proof (cases "feat_proxy (x_cfg x)")
  case True
  show ?thesis
  proof (cases "req_proxy (conn_config c)")
    case (Some p)
    obtain r w1 where r: "tcp_connect x c (proxy_server p) (ucast (proxy_port p)) w = (r, w1)" by fastforce
    have "yields_closing r" using tcp_connect_ends [OF assms, of c "proxy_server p" "ucast (proxy_port p)" w] r by simp
    have "yields_closing (fst (suspend c (tcp_latency tcp) (proxy_exchange x c p tcp w1)))
        \<or> timed_out c (fst (suspend c (tcp_latency tcp) (proxy_exchange x c p tcp w1)))" if "closing_socket tcp" for tcp
      using proxy_exchange_ends [OF that, of x c p w1] fst_suspend [of c "tcp_latency tcp" "proxy_exchange x c p tcp w1"] by auto
    with \<open>yields_closing r\<close> show ?thesis using True Some r
      by (auto simp: connection_connect_def yields_closing_def [of r] yields_closing_def [of "Ready (Err _)"]
          yields_closing_def [of Panicked] split: poll.splits result.splits)
  qed (use True tcp_connect_ends [OF assms] in \<open>simp add: connection_connect_def Let_def\<close>)
qed (use tcp_connect_ends [OF assms] in \<open>simp add: connection_connect_def Let_def\<close>)

text \<open>A response that was read from a connection that ends: its body ends too.\<close>

definition yields_ending :: "(response_lazy, error) result poll \<Rightarrow> bool" where
  "yields_ending r \<longleftrightarrow> r \<noteq> Pending \<and> (\<forall>resp. r = Ready (Ok resp) \<longrightarrow> ends (lz_stream resp))"

lemma read_head_ends: "ends s \<Longrightarrow> yields_ending (read_head x c s)"
  by (auto simp: yields_ending_def read_head_def ending.from_stream_ends intro: ending.from_stream_keeps)

lemma exchange_http_ends:
  assumes "responsive x"
  shows "yields_ending (fst (exchange_http x c w)) \<or> timed_out c (fst (exchange_http x c w))"
proof -
  obtain r w1 where r: "connection_connect x c w = (r, w1)" by fastforce
  then have y: "yields_closing r \<or> timed_out c r" using connection_connect_ends [OF assms, of c w] by simp
  show ?thesis
  proof (cases "\<exists>tcp. r = Ready (Ok tcp)")
    case True
    then obtain tcp e where tcp: "r = Ready (Ok tcp)" "Eof \<in> set (tcp_incoming tcp)"
      "WriteFail e \<in> set (tcp_writes tcp)" "kind e \<noteq> WouldBlock"
      using y by (auto simp: yields_closing_def timed_out_def closing_socket_def)
    have "yields_ending (read_head x c (create_unsecured (tcp_incoming tcp) (c_timeout_at c)))"
      using tcp(2) by (intro read_head_ends) (simp add: create_unsecured_def ends_def)
    then have "yields_ending (fst (suspend c t (read_head x c (create_unsecured (tcp_incoming tcp) (c_timeout_at c)), w')))
        \<or> timed_out c (fst (suspend c t (read_head x c (create_unsecured (tcp_incoming tcp) (c_timeout_at c)), w')))" for t w'
      using fst_suspend [of c t "(read_head x c (create_unsecured (tcp_incoming tcp) (c_timeout_at c)), w')"] by auto
    then show ?thesis using r tcp(1) try_write_loop_ends [OF tcp(3,4), of "as_bytes (x_iter x) (c_request c)"]
      by (auto simp: exchange_http_def yields_ending_def [of "Ready (Err _)"] yields_ending_def [of Panicked] Let_def
          split: poll.splits result.splits)
  next
    case False
    then show ?thesis using r y
      by (auto simp: exchange_http_def yields_closing_def yields_ending_def timed_out_def Let_def split: poll.splits result.splits)
  qed
qed

lemma exchange_tls_ends:
  assumes "responsive x"
  shows "yields_ending (fst (exchange_tls x client c bs tcp w)) \<or> timed_out c (fst (exchange_tls x client c bs tcp w))"
proof -
  obtain t r where h: "x_handshake x client (host (conn_url c)) tcp = Some (t, r)" "\<forall>tls. r = Ok tls \<longrightarrow> closing_socket tls"
    using assms unfolding responsive_def by blast
  show ?thesis
  proof (cases r)
    case (Ok tls)
    then obtain e where e: "WriteFail e \<in> set (tcp_writes tls)" "Eof \<in> set (tcp_incoming tls)"
      using h(2) by (auto simp: closing_socket_def)
    obtain q out ws where q: "write_all (tcp_writes tls) bs = (q, out, ws)" using prod_cases3 by blast
    have "yields_ending (read_head x c (create_secured (tcp_incoming tls) (c_timeout_at c)))"
      using e(2) by (intro read_head_ends) (simp add: create_secured_def ends_def)
    then show ?thesis using h(1) Ok q write_all_ends [OF e(1) q]
      by (auto simp: exchange_tls_def yields_ending_def timed_out_def suspend_def Let_def split: poll.splits result.splits option.splits)
  qed (use h(1) in \<open>auto simp: exchange_tls_def yields_ending_def timed_out_def suspend_def split: option.split\<close>)
qed

lemma tls_setup_ends: "fst (tls_setup x be c w) \<noteq> Pending"
  using use_config_not_Pending [of "x_cfg x" "x_roots x" "tls_state w"]
  by (auto simp: tls_setup_def split: tls_backend.splits result.splits poll.splits)

lemma exchange_https_ends:
  assumes "responsive x"
  shows "yields_ending (fst (exchange_https x be c w)) \<or> timed_out c (fst (exchange_https x be c w))"
proof -
  obtain s w0 where s: "tls_setup x be c w = (s, w0)" by fastforce
  obtain r w1 where r: "connection_connect x c w0 = (r, w1)" by fastforce
  have "s \<noteq> Pending" "yields_closing r \<or> timed_out c r"
    using tls_setup_ends [of x be c w] connection_connect_ends [OF assms, of c w0] s r by simp_all
  then show ?thesis using s r exchange_tls_ends [OF assms, of _ c _ _ w1]
    by (auto simp: exchange_https_def yields_closing_def yields_ending_def timed_out_def Let_def split: poll.splits result.splits)
qed

interpretation ending_send: sending x "\<lambda>_. True" "\<lambda>_. True" "\<lambda>r. responsive x \<longrightarrow> yields_ending r" "\<lambda>_. True" for x
proof unfold_locales
  show "((responsive x \<longrightarrow> yields_ending r) \<or> r = Pending \<and> c_timeout_at c \<noteq> None) \<and> True"
    if "exchange_http x c w = (r, w')" for c w r w'
    using exchange_http_ends [of x c w] that by (auto simp: timed_out_def)
  show "((responsive x \<longrightarrow> yields_ending r) \<or> r = Pending \<and> c_timeout_at c \<noteq> None) \<and> True"
    if "exchange_https x be c w = (r, w')" for be c w r w'
    using exchange_https_ends [of x be c w] that by (auto simp: timed_out_def)
qed (auto simp: yields_ending_def)

lemma request_send_lazy_ends:
  assumes "responsive x"
  shows "yields_ending (fst (request_send_lazy x req w))"
  using ending_send.request_send_lazy_keeps [of x req w] assms
  by (cases "request_send_lazy x req w") (fastforce simp: yields_ending_def)

text \<open>\<open>send\<close> is \<open>send_lazy\<close> followed by reading the whole body.\<close>

lemma request_send_lazy_create:
  "request_send x req w =
     (case request_send_lazy x req w of
        (r, w') \<Rightarrow> (await r (\<lambda>response. create (profile (x_cfg x)) response (req_method req = Head)), w'))"
proof (cases "parsed_request_new (x_cfg x) (x_env x) req")
  case (Ok pr)
  then show ?thesis using parsed_request_config(3) [OF Ok]
    by (auto simp: request_send_def request_send_lazy_def Let_def split: option.splits poll.splits prod.splits)
qed (simp add: request_send_def request_send_lazy_def)

lemma request_send_ends:
  assumes "responsive x"
  shows "fst (request_send x req w) \<noteq> Pending"
proof -
  obtain r w' where r: "request_send_lazy x req w = (r, w')" by fastforce
  then have "yields_ending r" using request_send_lazy_ends [OF assms, of req w] by simp
  then show ?thesis unfolding request_send_lazy_create r
    by (cases "(r, \<lambda>response. create (profile (x_cfg x)) response (req_method req = Head))" rule: await.cases)
      (auto simp: yields_ending_def create_ends)
qed

end
