(* ===== verification/Delivery_Spec.thy ===== *)
theory Delivery_Spec
  imports Response_Properties Progress_Spec
begin

text \<open>
  A request from end to end over plain HTTP: what it takes for a server to answer, that the answer
  is what \<open>send\<close> returns, and that redirects which servers answer with are followed to the last
  one.
\<close>

section \<open>One server\<close>

text \<open>
  A plain HTTP connection that reaches its server, which takes the request whole and answers with
  a response that can be read; it is the final answer when it is no redirect.
\<close>

definition served ::
    "externals \<Rightarrow> connection \<Rightarrow> world \<Rightarrow> tcp_stream \<Rightarrow> rstring \<Rightarrow> rstring list \<Rightarrow> u8 list \<Rightarrow> bool" where
  "served x c w tcp sl hs body \<longleftrightarrow> \<not> https (conn_url c) \<and> is_ascii (host (conn_url c))
     \<and> (\<exists>n\<ge>length (as_bytes (x_iter x) (c_request c)). reaches x c w n tcp)
     \<and> readable (x_iter x) (req_max_headers_size (conn_config c)) (req_max_status_line_len (conn_config c))
         (Unsecured (tcp_incoming tcp) (c_timeout_at c)) sl hs body"

definition answered ::
    "externals \<Rightarrow> connection \<Rightarrow> world \<Rightarrow> tcp_stream \<Rightarrow> rstring \<Rightarrow> rstring list \<Rightarrow> u8 list \<Rightarrow> bool" where
  "answered x c w tcp sl hs body \<longleftrightarrow> served x c w tcp sl hs body \<and> \<not> is_redirect (fst (parse_status_line sl))"

lemma send_answered:
  assumes "answered x c w tcp sl hs body" "framing (fold insert_header hs []) = Ok fr"
  obtains r w' where "send x c w = (Ready (Ok r), w')" "requests w' = requests w @ [as_bytes (x_iter x) (c_request c)]"
    and "is_unsecured (lz_stream r)" "body_avail r = body" "lz_state r = fr"
    and "closes (tcp_incoming tcp) \<longrightarrow> closes (events (lz_stream r))"
    and "stalls (tcp_incoming tcp) \<longrightarrow> stalls (events (lz_stream r))"
    and "lz_status_code r = fst (parse_status_line sl)"
    and "\<And>bd. response_of r bd = (parsed_response sl hs bd)\<lparr>resp_url := print_url (conn_url c)\<rparr>"
proof -
  obtain n where n: "length (as_bytes (x_iter x) (c_request c)) \<le> n" "reaches x c w n tcp" "is_ascii (host (conn_url c))"
    "\<not> is_redirect (fst (parse_status_line sl))"
    and rd: "readable (x_iter x) (req_max_headers_size (conn_config c)) (req_max_status_line_len (conn_config c))
         (Unsecured (tcp_incoming tcp) (c_timeout_at c)) sl hs body"
    using assms(1) by (auto simp: answered_def served_def)
  obtain r where r: "read_head x c (Unsecured (tcp_incoming tcp) (c_timeout_at c)) = Ready (Ok r)"
    "is_unsecured (lz_stream r)" "body_avail r = body" "lz_state r = fr"
    "closes (tcp_incoming tcp) \<longrightarrow> closes (events (lz_stream r))"
    "stalls (tcp_incoming tcp) \<longrightarrow> stalls (events (lz_stream r))"
    "lz_status_code r = fst (parse_status_line sl)" "\<forall>bd. response_of r bd = parsed_response sl hs bd"
    using from_stream_readable [OF rd assms(2), of "profile (x_cfg x)"] by (auto simp: read_head_def)
  obtain w' where "send x c w = (Ready (Ok (r\<lparr>lz_url := print_url (conn_url c)\<rparr>)), w')"
    "requests w' = requests w @ [take n (as_bytes (x_iter x) (c_request c))]"
    using send_reaches [OF n(2,3) r(1)] r(7) n(4) by auto
  moreover have "take n (as_bytes (x_iter x) (c_request c)) = as_bytes (x_iter x) (c_request c)" using n(1) by simp
  moreover have "response_of (r\<lparr>lz_url := u\<rparr>) bd = (parsed_response sl hs bd)\<lparr>resp_url := u\<rparr>" for u bd
    using r(8) [rule_format, of bd] by (simp add: response_of_def parsed_response_def)
  moreover have "body_avail (r\<lparr>lz_url := u\<rparr>) = body_avail r" for u by (simp add: body_avail_def)
  ultimately show ?thesis using r(2-7) by (intro that [of "r\<lparr>lz_url := print_url (conn_url c)\<rparr>" w']) auto
qed

lemma request_send_http:
  assumes "parsed_request_new (x_cfg x) (x_env x) req = Ok pr" "connection_new x w pr = Ready c"
    and "\<not> https (conn_url c)" "send x c w = (Ready (Ok r), w')"
  shows "request_send x req w = (create (profile (x_cfg x)) r (req_method (pr_config pr) = Head), w')"
proof -
  have "c_request c = pr"
    using assms(2) by (auto simp: connection_new_def Let_def split: option.splits poll.splits)
  then show ?thesis using assms by (simp add: request_send_def Let_def)
qed

section \<open>Redirects\<close>

text \<open>
  A server that answers with a redirect to another plain HTTP address, and the world once it has.
\<close>

definition redirected :: "externals \<Rightarrow> connection \<Rightarrow> world \<Rightarrow> connection \<Rightarrow> world \<Rightarrow> bool" where
  "redirected x c w c' w' \<longleftrightarrow> w' = snd (exchange_http x c w) \<and> \<not> https (conn_url c')
     \<and> (\<exists>tcp sl hs body. served x c w tcp sl hs body \<and> is_ok (framing (fold insert_header hs []))
          \<and> get_redirect (x_cfg x) c (fst (parse_status_line sl))
              (hm_get (fold insert_header hs []) (str ''location'')) = Redirect (Ok c'))"

lemma redirected_exchange:
  assumes "redirected x c w c' w'"
  obtains r where "exchange_http x c w = (Ready (Ok r), w')"
    and "get_redirect (x_cfg x) c (lz_status_code r) (hm_get (lz_headers r) (str ''location'')) = Redirect (Ok c')"
    and "requests w' = requests w @ [as_bytes (x_iter x) (c_request c)]" "in_time w c" "in_time w' c"
proof -
  obtain tcp sl hs body fr n where n: "length (as_bytes (x_iter x) (c_request c)) \<le> n" "reaches x c w n tcp"
    and rd: "readable (x_iter x) (req_max_headers_size (conn_config c)) (req_max_status_line_len (conn_config c))
         (Unsecured (tcp_incoming tcp) (c_timeout_at c)) sl hs body" "framing (fold insert_header hs []) = Ok fr"
    and g: "get_redirect (x_cfg x) c (fst (parse_status_line sl)) (hm_get (fold insert_header hs []) (str ''location'')) = Redirect (Ok c')"
    and w': "w' = snd (exchange_http x c w)"
    using assms by (auto simp: redirected_def served_def is_ok_iff)
  obtain r where r: "read_head x c (Unsecured (tcp_incoming tcp) (c_timeout_at c)) = Ready (Ok r)"
    "lz_status_code r = fst (parse_status_line sl)" "\<forall>bd. response_of r bd = parsed_response sl hs bd"
    using from_stream_readable [OF rd, of "profile (x_cfg x)"] by (auto simp: read_head_def)
  have h: "lz_headers r = fold insert_header hs []" using r(3) by (simp add: response_of_def parsed_response_def)
  obtain w1 where "exchange_http x c w = (Ready (Ok r), w1)"
    "requests w1 = requests w @ [take n (as_bytes (x_iter x) (c_request c))]" "in_time w c" "in_time w1 c"
    using exchange_http_reaches [OF n(2)] r(1) by metis
  then show ?thesis using that [of r] n(1) g r(2) h w' by simp
qed

lemma redirected_send:
  assumes "redirected x c w c' w1" "send x c' w1 = (Ready (Ok r), w2)"
  shows "send x c w = (Ready (Ok r), w2)"
proof -
  obtain resp where e: "exchange_http x c w = (Ready (Ok resp), w1)"
    "get_redirect (x_cfg x) c (lz_status_code resp) (hm_get (lz_headers resp) (str ''location'')) = Redirect (Ok c')"
    "in_time w c" "in_time w1 c"
    using redirected_exchange [OF assms(1)] by blast
  have "with_ascii_host x c = Ok c"
    using assms(1) by (auto simp: redirected_def served_def with_ascii_host_def ensure_ascii_host_def)
  then have s: "send_without_timeout x c w = (Ready (Ok r), w2)"
    using e(1,2) assms by (simp add: send_without_timeout.simps handle_redirects.simps redirected_def)
  show ?thesis
  proof (cases "timeout w c")
    case (Ok limit)
    then have "deadline (now w) limit (send_without_timeout x c w) = (Ready (Ok r), w2)"
      unfolding s deadline_Ok by simp
    then show ?thesis using Ok by (simp add: send.simps)
  next
    case (Err er)
    then show ?thesis using e(3) by (auto simp: timeout_Err in_time_def)
  qed
qed

text \<open>The servers a request is sent to one after the other, each but the last answering with a redirect.\<close>

inductive served_chain :: "externals \<Rightarrow> connection \<Rightarrow> world \<Rightarrow> connection list \<Rightarrow> connection \<Rightarrow> world \<Rightarrow> bool" for x where
  arrived: "served_chain x c w [] c w"
| onward: "redirected x c w c' w1 \<Longrightarrow> served_chain x c' w1 vs cl wl \<Longrightarrow> served_chain x c w (c # vs) cl wl"

lemma served_chain_requests:
  "served_chain x c w vs cl wl \<Longrightarrow> requests wl = requests w @ map (\<lambda>v. as_bytes (x_iter x) (c_request v)) vs"
proof (induction rule: served_chain.induct)
  case (onward c w c' w1 vs cl wl)
  then show ?case using redirected_exchange [OF onward.hyps(1)] by auto
qed simp

lemma served_chain_send:
  "served_chain x c w vs cl wl \<Longrightarrow> send x cl wl = (Ready (Ok r), w') \<Longrightarrow> send x c w = (Ready (Ok r), w')"
  by (induction rule: served_chain.induct) (auto intro: redirected_send)

lemma served_chain_redirect_chain: "served_chain x c w vs cl wl \<Longrightarrow> redirect_chain x c vs cl"
proof (induction rule: served_chain.induct)
  case (onward c w c' w1 vs cl wl)
  have "with_ascii_host x c = Ok c"
    using onward.hyps(1) by (auto simp: redirected_def served_def with_ascii_host_def ensure_ascii_host_def)
  then show ?case using redirected_exchange [OF onward.hyps(1)] onward.IH by (auto intro: redirect_chain.hop)
qed (rule redirect_chain.stop)

text \<open>What the caller gets of a response that was served with its body delimited.\<close>

definition delimited :: "stream_state \<Rightarrow> u8 list \<Rightarrow> tcp_stream \<Rightarrow> bool" where
  "delimited fr body tcp \<longleftrightarrow> fr = ContentLength (length body) \<or> fr = EndOnClose \<and> closes (tcp_incoming tcp)"

lemma create_delivers:
  assumes "is_unsecured (lz_stream r)" "body_avail r = body" "lz_state r = fr" "delimited fr body tcp"
    and "closes (tcp_incoming tcp) \<longrightarrow> closes (events (lz_stream r))"
  shows "create b r h = Ready (Ok (response_of r (if h \<or> lz_status_code r \<in> {204, 304} then [] else body)))"
proof -
  have "until_closed r \<or> within_length r" using assms by (auto simp: delimited_def until_closed_def within_length_def)
  then show ?thesis
    using closed_body.create_left [of r h b] sized_body.create_left [of r h b] create_no_body [of h r b] assms(2)
    by (auto simp: has_body_def)
qed

lemma served_chain_request:
  assumes "parsed_request_new (x_cfg x) (x_env x) req = Ok pr" "connection_new x w pr = Ready c" "\<not> https (conn_url c)"
    and "served_chain x c w vs cl wl" "answered x cl wl tcp sl hs body"
    and "framing (fold insert_header hs []) = Ok fr" "delimited fr body tcp"
  shows "\<exists>w'. request_send x req w =
      (Ready (Ok ((parsed_response sl hs
          (if req_method (pr_config pr) = Head \<or> fst (parse_status_line sl) \<in> {204, 304} then [] else body))
            \<lparr>resp_url := print_url (conn_url cl)\<rparr>)), w')
    \<and> requests w' = requests w @ map (\<lambda>v. as_bytes (x_iter x) (c_request v)) (vs @ [cl])"
proof -
  obtain r w' where r: "send x cl wl = (Ready (Ok r), w')" "requests w' = requests wl @ [as_bytes (x_iter x) (c_request cl)]"
    "is_unsecured (lz_stream r)" "body_avail r = body" "lz_state r = fr"
    "closes (tcp_incoming tcp) \<longrightarrow> closes (events (lz_stream r))" "lz_status_code r = fst (parse_status_line sl)"
    "\<And>bd. response_of r bd = (parsed_response sl hs bd)\<lparr>resp_url := print_url (conn_url cl)\<rparr>"
    using send_answered [OF assms(5,6)] by metis
  have "send x c w = (Ready (Ok r), w')" by (rule served_chain_send [OF assms(4) r(1)])
  from request_send_http [OF assms(1-3) this] show ?thesis
    using create_delivers [OF r(3-5) assms(7) r(6)] r(2,7,8) served_chain_requests [OF assms(4)] by simp
qed

end
