(* ===== verification/Request_Properties.thy ===== *)
theory Request_Properties
  imports Request
begin

text \<open>
  The properties of URLs, proxies, requests and redirects of a parsed request: what the theories
  \<open>Http_Url\<close>, \<open>Proxy\<close>, \<open>Request\<close>, \<open>Errors\<close> and \<open>Build_Config\<close> add up to.
\<close>

section \<open>URLs\<close>

abbreviation plain_cfg :: cfg where
  "plain_cfg \<equiv> \<lparr>feat_urlencoding = False, feat_punycode = False, feat_proxy = True, feat_tls = None,
     feat_manual_roots = False, feat_rustls_probe = False,
     have_min_max_version = True, profile = Debug\<rparr>"

text \<open>
  C17: The character loop of \<open>HttpUrl::parse\<close> computes the split of the URL grammar: everything up
  to the first of \<open>/ ? :\<close> is the host, a port follows a colon, the rest up to the first \<open>#\<close> is the
  resource, with \<open>/\<close> for an empty one, and what follows is the fragment, which is inherited from
  the URL redirected from when there is none. URLs without an HTTP scheme are refused.
\<close>

theorem parse_splits:
  "parse cf url from =
     (case strip_scheme url of
        None \<Rightarrow> Err invalid_protocol_error
      | Some (rest, sec) \<Rightarrow>
          (case url_split rest of (h, p, path, frag) \<Rightarrow>
             Ok \<lparr>https = sec, host = h, url_port = parse_port sec p,
                 path_and_query = (if path = [] then [ch CHR ''/''] else encode_resource cf path),
                 fragment = (case frag of Some f \<Rightarrow> Some (encode_resource cf f)
                             | None \<Rightarrow> Option.bind from fragment)\<rparr>))"
  by (rule parse_eq_split)

text \<open>
  C18: Without percent-encoding, a well-formed URL is parsed back from its printed form, and every
  URL that parsing returns is well formed; so reparsing a printed URL changes nothing.
\<close>

theorem url_roundtrip:
  assumes "\<not> feat_urlencoding cf"
  shows "(wf_url u \<longrightarrow> parse cf (print_url u) None = Ok u)
    \<and> (parse cf s from = Ok v \<longrightarrow> wf_url v \<and> parse cf (print_url v) None = Ok v)"
  using assms parse_wf [of cf s "from" v] by (auto intro: parse_print_general)

abbreviation example_url :: http_url where
  "example_url \<equiv> \<lparr>https = False, host = str ''a.b'', url_port = Explicit 81,
     path_and_query = str ''/x?y'', fragment = Some (str ''f'')\<rparr>"

lemma wf_example_url: "wf_url example_url"
  by (simp add: wf_url_def host_char_def str_def)

theorem url_roundtrip_witness:
  "parse plain_cfg (print_url example_url) None = Ok example_url \<and> wf_url example_url"
  using url_roundtrip [of plain_cfg example_url "[]" None example_url] wf_example_url by simp

text \<open>Parsing fails exactly when the URL has no HTTP scheme, always with the same error.\<close>

lemma parse_fails_iff:
  "parse cf url from = Err e \<longleftrightarrow>
     e = invalid_protocol_error \<and> (\<nexists>r. url = str ''http://'' @ r \<or> url = str ''https://'' @ r)"
proof -
  have "strip_scheme url = None \<longleftrightarrow> (\<nexists>r. url = str ''http://'' @ r \<or> url = str ''https://'' @ r)"
    unfolding strip_scheme_def
    by (auto split: option.splits) (metis option.distinct(1) strip_prefix_Some strip_prefix_append)+
  then show ?thesis using parse_Err_iff [of cf url "from"] parse_Err_kind [of cf url "from"] by auto
qed

text \<open>
  C19: With percent-encoding, the path of a parsed URL uses only the characters that need no
  escape and the percent sign, and decoding it gives back the UTF-8 bytes of the path that was
  written.
\<close>

theorem path_percent_encoded:
  assumes "feat_urlencoding cf" "\<forall>c\<in>set h. host_char c" "ch CHR ''#'' \<notin> set path" "\<exists>t. path = str ''/'' @ t"
  shows "\<exists>u. parse cf (str ''http://'' @ h @ path) None = Ok u \<and> host u = h
    \<and> percent_decode (path_and_query u) = into_bytes path
    \<and> (\<forall>c\<in>set (path_and_query u). url_safe c \<or> c = ch CHR ''%'')"
proof -
  obtain t where "path = 47 # t" using assms(4) by (auto simp: str_def)
  then have "url_split (h @ path) = (h, [], path, None)"
    using url_split_parts [OF assms(2), of path 47 t "[]" "[]" undefined None] assms(3) by simp
  then show ?thesis
    using assms(1) \<open>path = 47 # t\<close> percent_decode_encode [OF assms(1), of path]
      encode_resource_set [OF assms(1), of _ path]
    by (auto simp: parse_eq_split)
qed

theorem path_percent_encoded_witness:
  "\<exists>u. parse (plain_cfg\<lparr>feat_urlencoding := True\<rparr>) (str ''http://'' @ str ''h'' @ str ''/a b'') None = Ok u
    \<and> host u = str ''h'' \<and> percent_decode (path_and_query u) = into_bytes (str ''/a b'')
    \<and> (\<forall>c\<in>set (path_and_query u). url_safe c \<or> c = ch CHR ''%'')"
  by (rule path_percent_encoded) (simp_all add: host_char_def str_def)

text \<open>
  The URL redirected from matters for the fragment only: it is kept when the new URL has none.
\<close>

lemma redirect_fragment:
  "parse cf url (Some old) =
     (case parse cf url None of
        Ok v \<Rightarrow> Ok (v\<lparr>fragment := (case fragment v of None \<Rightarrow> fragment old | Some f \<Rightarrow> Some f)\<rparr>)
      | Err e \<Rightarrow> Err e)"
  by (auto simp: parse_eq_split split: option.splits prod.splits)

section \<open>Proxies\<close>

text \<open>
  C25: A proxy configuration is read back from its documented printed form, and everything
  \<open>Proxy::new\<close> accepts can be printed and read back.
\<close>

theorem proxy_roundtrip:
  "(wf_proxy p \<longrightarrow> proxy_new (print_proxy p) = Ok p)
   \<and> (proxy_new s = Ok q \<longrightarrow> wf_proxy q \<and> proxy_new (print_proxy q) = Ok q)"
  using proxy.dec_enc [of p] proxy.dec_wf [of s q] proxy.normalise [of s q] by simp

abbreviation example_proxy :: proxy where
  "example_proxy \<equiv> \<lparr>proxy_server = str ''p'', proxy_port = 81, proxy_user = Some (str ''u''),
     proxy_password = Some (str ''w''), proxy_kind = Basic\<rparr>"

theorem proxy_roundtrip_witness:
  "wf_proxy example_proxy \<and> proxy_new (print_proxy example_proxy) = Ok example_proxy"
  using proxy_roundtrip [of example_proxy "[]" example_proxy] by (simp add: wf_proxy_def str_def)

text \<open>
  \<open>Proxy::new\<close> fails exactly when a scheme other than \<open>http\<close> is given or the text after the
  first colon of the address, which follows the last \<open>@\<close>, is not a 32-bit number; the error is
  always \<open>BadProxy\<close>.
\<close>

definition proxy_address :: "rstring \<Rightarrow> rstring" where
  "proxy_address s =
     (let a = (case split_once s (str ''://'') of Some (proto, a) \<Rightarrow> a | None \<Rightarrow> s)
      in case rsplit_once a (str ''@'') of Some (userinfo, h) \<Rightarrow> h | None \<Rightarrow> a)"

lemma proxy_new_error:
  "proxy_new s = Err e \<longleftrightarrow> e = BadProxy \<and>
     ((\<exists>proto a. split_once s (str ''://'') = Some (proto, a) \<and> proto \<noteq> str ''http'')
      \<or> (\<exists>h port. split_once (proxy_address s) (str '':'') = Some (h, port)
           \<and> parse_uint 10 (2 ^ 32 - 1) port = None))"
  by (cases "split_once s (str ''://'')")
    (auto simp: proxy_new_def proxy_authority_def parse_address_def proxy_address_def Let_def
      split: option.splits prod.splits if_splits)

section \<open>Requests\<close>

text \<open>Requests whose parts carry no line feed.\<close>

definition lf_free :: "parsed_request \<Rightarrow> bool" where
  "lf_free r \<longleftrightarrow> LF \<notin> set (method_fmt (req_method (pr_config r))) \<and> LF \<notin> set (path_and_query (pr_url r))
     \<and> LF \<notin> set (host (pr_url r))
     \<and> (\<forall>(k, v)\<in>set (req_headers (pr_config r)). LF \<notin> set k \<and> LF \<notin> set v)"

lemma head_lines_lf_free:
  assumes "lf_free r" "hash_order iter"
  shows "\<forall>l\<in>set (head_lines iter r). 10 \<notin> set l"
proof -
  have n: "10 \<notin> set (show_nat k)" for k using show_nat_digits [of 10 k] by auto
  show ?thesis using assms(1) n
    by (auto simp: lf_free_def head_lines_def request_line_def host_line_def str_def
        hash_order_set [OF assms(2)] split: port.splits)
qed

text \<open>
  The head of a request without line feeds in its parts, cut at the line feeds, is exactly
  the request line, the host line, one line per header, possibly a zero content length, and an
  empty line at the end: no part can add a line.
\<close>

lemma request_head_lines:
  assumes "lf_free r" "hash_order iter"
  shows "split_char LF (get_http_head iter r) = map (\<lambda>l. l @ [CR]) (head_lines iter r) @ [[]]"
  unfolding get_http_head_lines using split_crlf_lines head_lines_lf_free [OF assms] by simp

abbreviation example_request :: parsed_request where
  "example_request \<equiv> \<lparr>pr_url = example_url, pr_redirects = [],
     pr_config = with_body [104, 105] (post (str ''http://a.b:81/x?y#f''))\<rparr>"

lemma example_request_simps:
  "req_method (with_body b (post u)) = Post"
  "req_headers (with_body b (post u)) = [(str ''Content-Length'', show_nat (length b))]"
  "req_body (with_body b (post u)) = Some b"
  by (simp_all add: with_body_def with_header_def post_def request_new_def hm_insert_def)

lemma lf_free_example: "lf_free example_request"
  by (simp add: lf_free_def example_request_simps) (simp add: str_def show_nat.simps)

lemma not_length_content_length: "\<not> not_length (str ''Content-Length'')"
  by (simp add: not_length_def rust_defs)

text \<open>
  A request with a body sends the head followed by the body; one of the lines of the head is
  the content length, which is the length of the body, and no zero content length is added.
\<close>

lemma body_announced:
  assumes "hash_order iter" "pr_config r = with_body body q"
  shows "as_bytes iter r = into_bytes (crlf_lines (head_lines iter r)) @ body
    \<and> str ''Content-Length: '' @ show_nat (length body) \<in> set (head_lines iter r)
    \<and> \<not> needs_length (pr_config r)"
proof -
  let ?h = "req_headers (pr_config r)"
  have h: "?h = hm_insert (str ''Content-Length'') (show_nat (length body)) (req_headers q)"
    "req_body (pr_config r) = Some body"
    using assms(2) by (simp_all add: with_body_def with_header_def)
  then have "hm_get ?h (str ''Content-Length'') = Some (show_nat (length body))"
    by (simp add: hm.look_ins_same)
  then have m: "(str ''Content-Length'', show_nat (length body)) \<in> set ?h"
    by (simp add: hm_get_eq map_of_SomeD)
  then have "str ''Content-Length'' @ str '': '' @ show_nat (length body) \<in> set (head_lines iter r)"
    unfolding head_lines_def using hash_order_set [OF assms(1), of ?h] by (auto simp: rev_image_eqI)
  moreover have "str ''Content-Length'' @ str '': '' @ t = str ''Content-Length: '' @ t" for t
    by (simp add: str_def)
  moreover have "\<not> list_all not_length (map fst ?h)"
    using m not_length_content_length by (force simp: list_all_iff)
  ultimately show ?thesis using h(2)
    by (simp add: as_bytes_def get_http_head_lines needs_length_def)
qed

text \<open>
  The parameters given to the builder are appended to the path in their order, joined by
  \<open>&\<close>, after a \<open>?\<close> when the path has no query yet and after an \<open>&\<close> when it has one.
\<close>

lemma params_appended:
  assumes "\<not> feat_urlencoding cf" "kvs \<noteq> []"
  shows "append_params (req_params (fold (\<lambda>(k, v). with_param cf uenc k v) kvs (request_new m url))) u =
    u\<lparr>path_and_query := path_and_query u
        @ (if ch CHR ''?'' \<in> set (path_and_query u) then str ''&'' else str ''?'') @ join_params kvs\<rparr>"
proof -
  have p: "req_params (fold (\<lambda>(k, v). with_param cf uenc k v) kvs (request_new m url)) = join_params kvs"
    using with_param_join_append [OF assms(1), of uenc kvs "request_new m url"] by (simp add: request_new_def)
  have "join_params kvs \<noteq> []"
    using assms(2) by (cases kvs) (auto simp: join_params_def str_def)
  moreover have "contains (path_and_query u) (str ''?'') \<longleftrightarrow> 63 \<in> set (path_and_query u)"
    using split_first_char_None [of 63 "path_and_query u"] by (auto simp: contains_def str_def)
  ultimately show ?thesis unfolding p by (simp add: append_params_def)
qed

text \<open>
  Of the environment, the default proxy depends on \<open>http_proxy\<close>, \<open>https_proxy\<close> and
  \<open>all_proxy\<close> only: the upper-case variables the source's comment lists are never read, and
  \<open>all_proxy\<close> is not read for HTTPS. A proxy set by the caller is kept.
\<close>

lemma default_proxy_environment:
  assumes "env (str ''https_proxy'') = env' (str ''https_proxy'')"
    and "\<not> is_https \<longrightarrow> env (str ''http_proxy'') = env' (str ''http_proxy'') \<and> env (str ''all_proxy'') = env' (str ''all_proxy'')"
  shows "default_proxy cf env is_https c = default_proxy cf env' is_https c
    \<and> (req_proxy c \<noteq> None \<longrightarrow> default_proxy cf env is_https c = c)"
  using assms by (auto simp: default_proxy_def)

section \<open>Redirecting a request\<close>

text \<open>
  C22: What \<open>redirect_to\<close> answers for a target it can parse: too many redirections when the limit
  is passed, a loop when the target was visited before, and success otherwise; on success the
  visited URLs stay distinct and within the limit, and the configuration of the request is kept.
\<close>

theorem redirect_to_outcome:
  assumes "redirect_inv r"
    and "parse cf (if contains url (str ''://'') then url else write_base_url_to (pr_url r) [] @ url) (Some (pr_url r)) = Ok u"
  shows "snd (redirect_to cf url r) =
      (if req_max_redirects (pr_config r) \<le> length (pr_redirects r) then Err TooManyRedirections
       else if u \<in> set (pr_redirects r @ [pr_url r]) then Err InfiniteRedirectionLoop else Ok ())
    \<and> pr_url (fst (redirect_to cf url r)) = u \<and> pr_config (fst (redirect_to cf url r)) = pr_config r
    \<and> (snd (redirect_to cf url r) = Ok () \<longrightarrow> redirect_inv (fst (redirect_to cf url r)))"
proof -
  have "redirect_to cf url r = (push_redirect u r, check_redirects (push_redirect u r))"
    using assms(2) by (auto simp: redirect_to_def Let_def split: if_splits)
  then show ?thesis using assms(1)
    by (auto simp: check_redirects_def push_redirect_def redirect_inv_def list_ex_iff)
qed

lemma redirect_inv_example: "redirect_inv example_request"
  by (simp add: redirect_inv_def)

lemma redirect_example_parse:
  "parse plain_cfg (write_base_url_to example_url [] @ str ''/z'') (Some example_url)
     = Ok (example_url\<lparr>path_and_query := str ''/z''\<rparr>)"
  by (simp add: write_base_url_to_def str_def show_nat.simps) 
    (simp add: parse_eq_split strip_scheme_def strip_prefix_def url_split_def split_port_def host_char_def
      port_char_def push_resource_def str_def parse_port_def parse_uint_def parse_digits_def to_digit_def)

theorem redirect_to_outcome_witness:
  "snd (redirect_to plain_cfg (str ''/z'') example_request) = Ok ()"
proof -
  have "\<not> contains (str ''/z'') (str ''://'')" by (simp add: rust_defs)
  moreover have "req_max_redirects (pr_config example_request) = 100"
    by (simp add: with_body_def with_header_def post_def request_new_def)
  ultimately show ?thesis
    using redirect_to_outcome [of example_request plain_cfg "str ''/z''" "example_url\<lparr>path_and_query := str ''/z''\<rparr>"]
      redirect_inv_example redirect_example_parse by (simp add: str_def)
qed

section \<open>Errors and the build script\<close>

text \<open>
  Errors are told apart by their message: two different errors without a cause never display
  alike, and the display of an error with a cause ends with that of the cause.
\<close>

lemma error_messages:
  "inj_on error_fmt (set unit_errors)
   \<and> (error_source e = None \<longleftrightarrow> e \<in> set unit_errors \<or> (\<exists>m. e = Other m))
   \<and> (case error_source e of Some c \<Rightarrow> suffix (cause_fmt c) (error_fmt e) | None \<Rightarrow> True)"
  using error_source_None [of e] error_fmt_source [of e] error_fmt_unit_inject
  by (auto simp: inj_on_def split: option.split)

definition version_at_least :: "environment \<Rightarrow> rstring \<Rightarrow> nat \<Rightarrow> bool" where
  "version_at_least env k least \<longleftrightarrow>
     (\<exists>v n. env k = Some v \<and> parse_uint 16 (2 ^ 64 - 1) v = Some n \<and> least \<le> n)"

definition version_malformed :: "environment \<Rightarrow> rstring \<Rightarrow> bool" where
  "version_malformed env k \<longleftrightarrow> (\<exists>v. env k = Some v \<and> parse_uint 16 (2 ^ 64 - 1) v = None)"

text \<open>
  The build script fails exactly when a version variable is not hexadecimal, and otherwise
  sets \<open>have_min_max_version\<close> exactly for OpenSSL from 1.1.0 and LibreSSL from 2.6.1.
\<close>

lemma build_script:
  "(build_main env = Panicked \<longleftrightarrow>
      version_malformed env (str ''DEP_OPENSSL_VERSION_NUMBER'')
      \<or> version_malformed env (str ''DEP_OPENSSL_LIBRESSL_VERSION_NUMBER''))
   \<and> (case build_main env of
        Ready out \<Rightarrow>
          flag_set out \<longleftrightarrow> version_at_least env (str ''DEP_OPENSSL_VERSION_NUMBER'') 0x10100000
                         \<or> version_at_least env (str ''DEP_OPENSSL_LIBRESSL_VERSION_NUMBER'') 0x20601000
      | Panicked \<Rightarrow> True
      | Pending \<Rightarrow> False)"
proof -
  let ?a = "version_line 0x10100000 (env (str ''DEP_OPENSSL_VERSION_NUMBER''))"
  let ?b = "version_line 0x20601000 (env (str ''DEP_OPENSSL_LIBRESSL_VERSION_NUMBER''))"
  have p: "build_main env = Panicked \<longleftrightarrow> ?a = None \<or> ?b = None"
    by (auto simp: build_main_def split: option.split)
  show ?thesis
  proof (cases "?a = None \<or> ?b = None")
    case True
    then show ?thesis using p by (auto simp: version_line_None version_malformed_def)
  next
    case False
    then obtain x y where xy: "?a = Some x" "?b = Some y" by auto
    then have r: "build_main env = Ready (x @ y)" by (simp add: build_main_def)
    have "flag_set (x @ y) \<longleftrightarrow> version_at_least env (str ''DEP_OPENSSL_VERSION_NUMBER'') 0x10100000
        \<or> version_at_least env (str ''DEP_OPENSSL_LIBRESSL_VERSION_NUMBER'') 0x20601000"
      unfolding flag_set_append version_line_flag [OF xy(1)] version_line_flag [OF xy(2)] version_at_least_def
      by blast
    moreover have "\<not> version_malformed env (str ''DEP_OPENSSL_VERSION_NUMBER'')"
      "\<not> version_malformed env (str ''DEP_OPENSSL_LIBRESSL_VERSION_NUMBER'')"
      using xy version_line_None [of _ "env (str ''DEP_OPENSSL_VERSION_NUMBER'')"]
        version_line_None [of _ "env (str ''DEP_OPENSSL_LIBRESSL_VERSION_NUMBER'')"]
      unfolding version_malformed_def by (metis option.distinct(1))+
    ultimately show ?thesis using r by simp
  qed
qed

end
