(* ===== verification/Example_Requests.thy ===== *)
theory Example_Requests
  imports Delivery_Spec Request_Properties
begin

text \<open>
  Concrete requests, connections and servers, on which the properties of the development are
  applied: a small request with a timeout, a server that answers it, and one that redirects it.
\<close>

abbreviation example_tcp :: "stream_event list \<Rightarrow> tcp_stream" where
  "example_tcp es \<equiv> \<lparr>tcp_writes = [Wrote 1000], tcp_incoming = es, tcp_latency = 5\<rparr>"

abbreviation example_ext :: "stream_event list \<Rightarrow> externals" where
  "example_ext es \<equiv> \<lparr>x_cfg = plain_cfg, x_env = (\<lambda>k. None), x_iter = (\<lambda>m. m), x_punycode = (\<lambda>s. Err ()),
     x_b64 = (\<lambda>b. []), x_resolve = (\<lambda>h p. Ok [7]), x_resolve_time = (\<lambda>h p t. 0), x_dial = (\<lambda>a k. Some (1, Ok (example_tcp es))),
     x_server_name = (\<lambda>h. Ok ()), x_roots = \<lparr>rs_anchor = Ok, rs_server_roots = [], rs_native_certs = []\<rparr>,
     x_tls_build = Ok (), x_handshake = (\<lambda>k h t. Some (1, Ok t))\<rparr>"

abbreviation example_world :: world where
  "example_world \<equiv> \<lparr>now = 0, dialled = [], connects = [], requests = [], tls_state = statics_start\<rparr>"

definition small_request :: request where
  "small_request = with_timeout 1 (get (str ''http://h/''))"

abbreviation small_url :: http_url where
  "small_url \<equiv> \<lparr>https = False, host = str ''h'', url_port = ImplicitHttp, path_and_query = str ''/'', fragment = None\<rparr>"

abbreviation small_connection :: connection where
  "small_connection \<equiv>
     \<lparr>c_request = \<lparr>pr_url = small_url, pr_redirects = [], pr_config = small_request\<rparr>,
      c_timeout_at = Some 1000000000\<rparr>"

lemma small_request_simps:
  "req_method small_request = Get" "req_url small_request = str ''http://h/''" "req_params small_request = []"
  "req_headers small_request = []" "req_body small_request = None" "req_timeout small_request = Some 1"
  "req_max_headers_size small_request = None" "req_max_status_line_len small_request = None"
  "req_max_redirects small_request = 100" "req_proxy small_request = None"
  by (simp_all add: small_request_def with_timeout_def get_def request_new_def)

lemma small_parsed:
  "parsed_request_new plain_cfg (\<lambda>k. None) small_request = Ok (c_request small_connection)"
proof -
  have "wf_url small_url" by (simp add: wf_url_def host_char_def str_def)
  then have "parse plain_cfg (print_url small_url) None = Ok small_url" by (intro parse_print_general) simp_all
  moreover have "print_url small_url = str ''http://h/''" by (simp add: print_url_eq str_def)
  ultimately show ?thesis
    by (simp add: parsed_request_new_def small_request_simps append_params_def default_proxy_def set_env_proxy_def)
qed

lemma small_connection_new:
  "connection_new (example_ext es) example_world (c_request small_connection) = Ready small_connection"
  by (simp add: connection_new_def small_request_simps instant_add_def)

lemma small_bytes: "length (as_bytes (\<lambda>m. m) (c_request small_connection)) = 27"
proof -
  have "get_http_head (\<lambda>m. m) (c_request small_connection) = str ''GET / HTTP/1.1'' @ crlf @ str ''Host: h'' @ crlf @ crlf"
    by (simp add: get_http_head_def small_request_simps str_def)
  then show ?thesis
    by (simp add: as_bytes_def small_request_simps encode_utf8_def str_def)
qed

lemma small_answered:
  assumes "delivers (Unsecured es None) (str ''HTTP/1.1 200 OK'') [str ''Content-Length: 2''] body"
  shows "answered (example_ext es) small_connection example_world (example_tcp es)
    (str ''HTTP/1.1 200 OK'') [str ''Content-Length: 2''] body"
proof -
  have "reaches (example_ext es) small_connection example_world 1000 (example_tcp es)"
    by (simp add: reaches_def resolved_at_def small_request_simps)
  moreover have "is_ascii (str ''h'')" by (simp add: str_def)
  moreover have "readable (\<lambda>m. m) None None (Unsecured es (Some 1000000000)) (str ''HTTP/1.1 200 OK'') [str ''Content-Length: 2''] body"
    using assms example_framing(2)
    by (simp add: readable_def delivers_def avail_def status_fits_def block_fits_def len_bytes_example usize_MAX_def)
  ultimately show ?thesis using small_bytes
    by (auto simp: answered_def served_def small_request_simps example_status is_redirect_def intro!: exI [of _ 1000])
qed

lemma small_answered_example:
  "answered (example_ext (events example_stream)) small_connection example_world (example_tcp (events example_stream))
    (str ''HTTP/1.1 200 OK'') [str ''Content-Length: 2''] [104, 105]"
  by (rule small_answered) (use delivers_example in simp)

lemma small_redirect:
  "get_redirect plain_cfg small_connection 302 (Some (str ''/z'')) =
     Redirect (Ok (small_connection\<lparr>c_request := push_redirect (small_url\<lparr>path_and_query := str ''/z''\<rparr>) (c_request small_connection)\<rparr>))"
proof -
  have "wf_url (small_url\<lparr>path_and_query := str ''/z''\<rparr>)" by (simp add: wf_url_def host_char_def str_def)
  then have "parse plain_cfg (print_url (small_url\<lparr>path_and_query := str ''/z''\<rparr>)) None = Ok (small_url\<lparr>path_and_query := str ''/z''\<rparr>)"
    by (intro parse_print_general) simp_all
  moreover have "print_url (small_url\<lparr>path_and_query := str ''/z''\<rparr>) = write_base_url_to small_url [] @ str ''/z''"
    by (simp add: print_url_eq write_base_url_to_def str_def)
  ultimately have "parse plain_cfg (write_base_url_to small_url [] @ str ''/z'') (Some small_url) =
      Ok (small_url\<lparr>path_and_query := str ''/z''\<rparr>)"
    by (simp add: redirect_fragment [of _ _ small_url])
  moreover have "\<not> contains (str ''/z'') (str ''://'')" by (simp add: rust_defs)
  ultimately show ?thesis
    by (simp add: get_redirect_def redirect_to_def check_redirects_def push_redirect_def small_request_simps str_def)
qed

text \<open>A server that redirects to \<open>/z\<close>, and one dialled after it that answers.\<close>

abbreviation moved_stream :: http_stream where
  "moved_stream \<equiv> Unsecured [Chunk (line_bytes (str ''HTTP/1.1 302 Found'') @ line_bytes (str ''Location: /z'')), NotReady,
     Chunk [13, 10]] None"

abbreviation moved_ext :: externals where
  "moved_ext \<equiv> (example_ext (events example_stream))\<lparr>x_dial :=
     (\<lambda>a k. Some (1, Ok (example_tcp (events (if k = 0 then moved_stream else example_stream)))))\<rparr>"

abbreviation moved_connection :: connection where
  "moved_connection \<equiv> small_connection\<lparr>c_request :=
     push_redirect (small_url\<lparr>path_and_query := str ''/z''\<rparr>) (c_request small_connection)\<rparr>"

lemma moved_headers:
  "fold insert_header [str ''Location: /z''] [] = [(str ''location'', str ''/z'')]"
  "framing [(str ''location'', str ''/z'')] = Ok EndOnClose" "one_length [(str ''location'', str ''/z'')]"
proof -
  show "fold insert_header [str ''Location: /z''] [] = [(str ''location'', str ''/z'')]"
    using insert_header_print [of "str ''Location''" "str ''/z''" "[]"]
    by (simp add: print_header_def hm_insert_def rust_defs)
  have "\<not> is_length (str ''location'')" "\<not> is_chunked (str ''location'') (str ''/z'')"
    by (simp_all add: is_length_def is_chunked_def rust_defs)
  then show "framing [(str ''location'', str ''/z'')] = Ok EndOnClose" "one_length [(str ''location'', str ''/z'')]"
    by (simp_all add: framing_def one_length_def lengths_def chunked_headers_def)
qed

lemma moved_status: "parse_status_line (str ''HTTP/1.1 302 Found'') = (302, str ''Found'')"
proof -
  have "print_status 302 (str ''Found'') = str ''HTTP/1.1 302 Found''"
    by (simp add: print_status_def str_def show_nat.simps)
  then show ?thesis using parse_status_print [of 302 "str ''Found''"] by simp
qed

lemma moved_readable:
  "readable (\<lambda>m. m) None None (Unsecured (events moved_stream) t) (str ''HTTP/1.1 302 Found'') [str ''Location: /z''] []"
proof -
  have "plain_line (str ''HTTP/1.1 302 Found'')" "plain_line (str ''Location: /z'')"
    by (rule plain_line_ascii; simp add: str_def)+
  moreover have "len_bytes (str ''HTTP/1.1 302 Found'') = 18" "len_bytes (str ''Location: /z'') = 12"
    by (simp_all add: len_bytes_ascii str_def)
  ultimately show ?thesis using moved_headers(1,3)
    by (simp add: readable_def delivers_def response_bytes_def avail_def status_fits_def block_fits_def usize_MAX_def)
      (simp add: str_def)
qed

lemma moved_served:
  "served moved_ext small_connection example_world (example_tcp (events moved_stream))
     (str ''HTTP/1.1 302 Found'') [str ''Location: /z''] []"
proof -
  have "reaches moved_ext small_connection example_world 1000 (example_tcp (events moved_stream))"
    by (simp add: reaches_def resolved_at_def small_request_simps)
  moreover have "is_ascii (str ''h'')" by (simp add: str_def)
  ultimately show ?thesis using small_bytes moved_readable
    by (auto simp: served_def small_request_simps intro!: exI [of _ 1000])
qed

abbreviation moved_world :: world where
  "moved_world \<equiv> snd (exchange_http moved_ext small_connection example_world)"

lemma moved_redirected: "redirected moved_ext small_connection example_world moved_connection moved_world"
  using moved_served small_redirect moved_headers
  by (auto simp: redirected_def push_redirect_def moved_status hm_get_eq
      intro!: exI [of _ "example_tcp (events moved_stream)"] exI [of _ "str ''HTTP/1.1 302 Found''"]
        exI [of _ "[str ''Location: /z'']"])

lemma moved_chain:
  "served_chain moved_ext small_connection example_world [small_connection] moved_connection moved_world"
  by (rule served_chain.onward [OF moved_redirected served_chain.arrived])

lemma moved_world_simps: "dialled moved_world = [7]" "now moved_world = 6"
  by (simp_all add: exchange_http_def connection_connect_def tcp_connect_def dial_def timeout_def timeout_at_to_duration_def
      suspend_def small_request_simps)

lemma moved_bytes: "length (as_bytes (\<lambda>m. m) (c_request moved_connection)) = 28"
proof -
  have "get_http_head (\<lambda>m. m) (c_request moved_connection) = str ''GET /z HTTP/1.1'' @ crlf @ str ''Host: h'' @ crlf @ crlf"
    by (simp add: get_http_head_def push_redirect_def small_request_simps str_def)
  then show ?thesis
    by (simp add: as_bytes_def push_redirect_def small_request_simps encode_utf8_def str_def)
qed

lemma moved_answered:
  "answered moved_ext moved_connection moved_world (example_tcp (events example_stream))
     (str ''HTTP/1.1 200 OK'') [str ''Content-Length: 2''] [104, 105]"
proof -
  have "reaches moved_ext moved_connection moved_world 1000 (example_tcp (events example_stream))"
    using moved_world_simps by (simp add: reaches_def resolved_at_def push_redirect_def small_request_simps)
  moreover have "is_ascii (str ''h'')" by (simp add: str_def)
  moreover have "readable (\<lambda>m. m) None None (Unsecured (events example_stream) (Some 1000000000))
      (str ''HTTP/1.1 200 OK'') [str ''Content-Length: 2''] [104, 105]"
    using delivers_example example_framing(2)
    by (simp add: readable_def delivers_def avail_def status_fits_def block_fits_def len_bytes_example usize_MAX_def)
  ultimately show ?thesis using moved_bytes
    by (auto simp: answered_def served_def push_redirect_def small_request_simps example_status is_redirect_def
        intro!: exI [of _ 1000])
qed

end
