(* ===== verification/Example_Programs.thy ===== *)
theory Example_Programs
  imports Delivery_Spec
begin

text \<open>
  The programs under \<open>examples/\<close>: \<open>hello.rs\<close>, \<open>json.rs\<close> and \<open>iterator.rs\<close>, which polls the body of a
  lazy response and prints it piece by piece. What a program writes to the standard output is
  part of its result; pauses and flushing are left out.
\<close>

section \<open>\<open>hello.rs\<close> and \<open>json.rs\<close>\<close>

definition hello_main :: "externals \<Rightarrow> world \<Rightarrow> (unit, error) result poll \<times> rstring \<times> world" where
  "hello_main x w =
     (case request_send x (get (str ''http://example.com'')) w of
        (Ready (Ok response), w') \<Rightarrow>
          (case as_str response of
             Ok html \<Rightarrow> (Ready (Ok ()), html @ [LF], w')
           | Err e \<Rightarrow> (Ready (Err e), [], w'))
      | (Ready (Err e), w') \<Rightarrow> (Ready (Err e), [], w')
      | (Pending, w') \<Rightarrow> (Pending, [], w')
      | (Panicked, w') \<Rightarrow> (Panicked, [], w'))"

text \<open>The crate \<open>serde_json\<close> is the arguments \<open>from_str\<close>, its parser, and \<open>data_of\<close>, how the member \<open>data\<close> prints.\<close>

definition json_main ::
    "(rstring \<Rightarrow> ('j, rstring) result) \<Rightarrow> ('j \<Rightarrow> rstring) \<Rightarrow> externals \<Rightarrow> world
      \<Rightarrow> (unit, error) result poll \<times> rstring \<times> world" where
  "json_main from_str data_of x w =
     (case request_send x (with_body (into_bytes (str ''Hello, world!'')) (get (str ''http://httpbin.org/anything''))) w of
        (Ready (Ok response), w') \<Rightarrow>
          (case json from_str response of
             Ok j \<Rightarrow> (Ready (Ok ()), [34] @ str ''Hello, world!'' @ [34] @ str '' == '' @ data_of j @ [LF], w')
           | Err e \<Rightarrow> (Ready (Err e), [], w'))
      | (Ready (Err e), w') \<Rightarrow> (Ready (Err e), [], w')
      | (Pending, w') \<Rightarrow> (Pending, [], w')
      | (Panicked, w') \<Rightarrow> (Panicked, [], w'))"

section \<open>\<open>iterator.rs\<close>\<close>

function iterator_loop ::
    "build \<Rightarrow> response_lazy \<Rightarrow> rstring \<Rightarrow> u8 list \<Rightarrow> (unit, error) result poll \<times> rstring \<times> u8 list" where
  "iterator_loop b response_lazy out buffer =
     (case lazy_next b response_lazy of
        (Ready (Some (Ok (bytes, len))), response_lazy') \<Rightarrow>
          (case from_utf8 bytes of
             Ok s \<Rightarrow> iterator_loop b response_lazy' (out @ s) (buffer @ bytes)
           | Err _ \<Rightarrow> (Panicked, out, buffer))
      | (Ready (Some (Err e)), response_lazy') \<Rightarrow> (Ready (Err e), out, buffer)
      | (Ready None, response_lazy') \<Rightarrow> (Ready (Ok ()), out, buffer)
      | (Pending, response_lazy') \<Rightarrow> (Pending, out, buffer)
      | (Panicked, response_lazy') \<Rightarrow> (Panicked, out, buffer))"
  by pat_completeness auto
termination
  by (relation "measure (\<lambda>(b, r, out, buffer). lazy_weight r)") (auto dest: sym [THEN lazy_next_shrinks])

declare iterator_loop.simps [simp del]

definition iterator_main :: "externals \<Rightarrow> world \<Rightarrow> (unit, error) result poll \<times> rstring \<times> u8 list" where
  "iterator_main x w =
     (case request_send_lazy x (get (str ''http://example.com'')) w of
        (Ready (Ok response_lazy), w') \<Rightarrow> iterator_loop (profile (x_cfg x)) response_lazy [] []
      | (Ready (Err e), w') \<Rightarrow> (Ready (Err e), [], [])
      | (Pending, w') \<Rightarrow> (Pending, [], [])
      | (Panicked, w') \<Rightarrow> (Panicked, [], []))"

text \<open>
  For a body of known extent: either all of it is printed and collected, or the program panics at
  a piece that is not UTF-8 by itself, having printed and collected what came before.
\<close>

definition iterates :: "(unit, error) result poll \<times> rstring \<times> u8 list \<Rightarrow> rstring \<Rightarrow> u8 list \<Rightarrow> u8 list \<Rightarrow> bool" where
  "iterates res out buffer body \<longleftrightarrow>
     (case res of (r, out', buffer') \<Rightarrow>
        into_bytes out' @ drop (length buffer') (buffer @ body) = into_bytes out @ body
        \<and> (r = Ready (Ok ()) \<and> buffer' = buffer @ body
           \<or> r = Panicked \<and> (\<exists>pre piece rest. body = pre @ piece @ rest \<and> buffer' = buffer @ pre \<and> \<not> is_ok (from_utf8 piece))))"

context body_reader
begin

lemma iterator_left: "good r \<Longrightarrow> iterates (iterator_loop b r out buffer) out buffer (left r)"
proof (induction r arbitrary: out buffer rule: measure_induct_rule [where f = lazy_weight])
  case (less r)
  from step [OF less.prems] show ?case
  proof (elim disjE exE conjE)
    fix bytes n r1
    assume r1: "lazy_next b r = (Ready (Some (Ok (bytes, n))), r1)" "good r1" "left r = bytes @ left r1"
    show ?thesis
    proof (cases "from_utf8 bytes")
      case (Ok s)
      then have "into_bytes s = bytes" by (simp add: from_utf8_Ok_iff)
      moreover have "iterates (iterator_loop b r1 (out @ s) (buffer @ bytes)) (out @ s) (buffer @ bytes) (left r1)"
        using less.IH [OF lazy_next_shrinks [OF r1(1)] r1(2)] .
      ultimately show ?thesis using r1 Ok
        by (subst iterator_loop.simps) (fastforce simp: iterates_def)
    next
      case (Err e)
      then have "\<exists>pre piece rest. bytes @ left r1 = pre @ piece @ rest \<and> buffer = buffer @ pre \<and> \<not> is_ok (from_utf8 piece)"
        by - (rule exI [of _ "[]"], rule exI [of _ bytes], auto)
      with Err r1 show ?thesis by (subst iterator_loop.simps) (simp add: iterates_def)
    qed
  qed (subst iterator_loop.simps, simp add: iterates_def)
qed

end

lemma iterator_delivers:
  assumes "until_closed r \<or> within_length r"
  shows "iterates (iterator_loop b r [] []) [] [] (body_avail r)"
  using assms closed_body.iterator_left sized_body.iterator_left by blast

lemma from_utf8_ascii: "\<forall>b\<in>set bs. b < 128 \<Longrightarrow> is_ok (from_utf8 bs)"
proof -
  assume a: "\<forall>b\<in>set bs. b < 128"
  have "from_utf8 bs = Ok (map unat bs)"
    unfolding from_utf8_Ok_iff
  proof
    have u: "unat b < 128" if "b \<in> set bs" for b using a that by (auto simp: word_less_nat_alt)
    then have "is_ascii (map unat bs)" by (auto simp: is_ascii_def)
    then show "bs = into_bytes (map unat bs)" by (simp add: into_bytes_ascii comp_def)
    show "\<forall>c\<in>set (map unat bs). is_scalar c" using u by auto
  qed
  then show ?thesis by simp
qed

lemma iterator_ascii:
  assumes "until_closed r \<or> within_length r" "\<forall>byte\<in>set (body_avail r). byte < 128"
  shows "\<exists>out. iterator_loop b r [] [] = (Ready (Ok ()), out, body_avail r) \<and> into_bytes out = body_avail r"
proof -
  obtain res out buf where l: "iterator_loop b r [] [] = (res, out, buf)" using prod_cases3 by blast
  have "is_ok (from_utf8 piece)" if "body_avail r = pre @ piece @ rest" for pre piece rest
    using assms(2) that by (intro from_utf8_ascii) auto
  then show ?thesis using iterator_delivers [OF assms(1), of b] l by (auto simp: iterates_def)
qed

end
