(* ===== verification/Response_Spec.thy ===== *)
theory Response_Spec
  imports Body_Spec
begin

text \<open>
  Reading a response as a function of what arrives: all the bytes of the connection and the way it
  ends, with no chunks, no polls and no state in between. The readers of \<open>response.rs\<close> refine it for
  every server, also one that sends nonsense, fails or stalls.
\<close>

section \<open>Lines\<close>

definition line_spec :: "usize option \<Rightarrow> error \<Rightarrow> ending \<Rightarrow> u8 list \<Rightarrow> (rstring \<times> u8 list, error) result poll" where
  "line_spec cap overflow d bs =
     (let most = (case cap of Some m \<Rightarrow> m | None \<Rightarrow> usize_MAX);
          l = takeWhile (\<lambda>b. b \<noteq> 10) bs;
          text_of = (\<lambda>(l, rest). case from_utf8 l of Ok line \<Rightarrow> Ready (Ok (line, rest)) | Err _ \<Rightarrow> Ready (Err InvalidUtf8InResponse))
      in if most < length bs \<and> 10 \<notin> set (take most bs) then Ready (Err overflow)
         else if 10 \<in> set bs then text_of (if suffix [13] l then butlast l else l, drop (Suc (length l)) bs)
         else await (at_end (bs, []) d) text_of)"

text \<open>The outcome of a reader, with the bytes it leaves, in its hands or in the stream, joined.\<close>

definition line_outcome ::
    "(rstring \<times> u8 list, error) result poll \<times> http_stream \<Rightarrow> (rstring \<times> u8 list, error) result poll" where
  "line_outcome r = await (fst r) (\<lambda>(line, tr). Ready (Ok (line, avail tr (snd r))))"

lemma line_outcome_finish:
  "line_outcome (Ready (finish_line acc), s) =
     (case from_utf8 (l_bytes acc) of Ok line \<Rightarrow> Ready (Ok (line, avail (l_trailing acc) s)) | Err _ \<Rightarrow> Ready (Err InvalidUtf8InResponse))"
  by (simp add: line_outcome_def finish_line_def split: result.split)

lemma line_loop_async_at_end:
  assumes "reading acc" "10 \<notin> set (stream_bytes es)" "length (l_bytes acc) + length (stream_bytes es) \<le> m"
  shows "(ending_of es = Closed \<longrightarrow>
      (\<exists>es'. line_loop_async m e acc (Unsecured es t) =
        (Ready (Ok (acc\<lparr>l_bytes := l_bytes acc @ stream_bytes es\<rparr>)), Unsecured (Eof # es') t)))
    \<and> (ending_of es \<noteq> Closed \<longrightarrow> fst (line_loop_async m e acc (Unsecured es t)) = at_end a (ending_of es))"
  using assms
proof (induction es arbitrary: acc)
  case (Cons ev es)
  show ?case
  proof (cases ev)
    case (Chunk b)
    let ?acc = "acc\<lparr>l_bytes := l_bytes acc @ b\<rparr>"
    have "push_bytes_capped m e b acc = Ok ?acc" "reading ?acc"
      using Cons.prems Chunk by (simp_all add: push_bytes_capped_line reading_def)
    moreover have "new_line_flag acc" using Cons.prems(1) by (simp add: reading_def)
    ultimately have "line_loop_async m e acc (Unsecured (ev # es) t) = line_loop_async m e ?acc (Unsecured es t)"
      using Chunk by (subst line_loop_async.simps) simp
    then show ?thesis using Cons.IH [OF \<open>reading ?acc\<close>] Cons.prems(2,3) Chunk by simp
  next
    case NotReady
    then show ?thesis using Cons by (simp add: line_loop_async_NotReady)
  qed (subst line_loop_async.simps, simp)+
qed (simp add: line_loop_async.simps)

lemma read_line_async_spec:
  assumes "is_unsecured s"
  shows "line_outcome (read_line_async cap e pre s) = line_spec cap e (ending_of (events s)) (avail pre s)"
proof -
  obtain es t where s: "s = Unsecured es t" using assms by (cases s) auto
  define m where "m = (case cap of Some m \<Rightarrow> m | None \<Rightarrow> usize_MAX)"
  have m: "read_line_async cap e pre s = read_line_async (Some m) e pre s" by (simp add: read_line_async_def m_def)
  consider (over) "m < length (avail pre s)" "10 \<notin> set (take m (avail pre s))"
    | (lf) "10 \<in> set (take m (avail pre s))"
    | (ends) "length (avail pre s) \<le> m" "10 \<notin> set (avail pre s)"
    by (metis not_le take_all)
  then show ?thesis
  proof cases
    case over
    then show ?thesis using read_line_async_overflow [OF assms, of m pre e]
      by (simp add: line_outcome_def line_spec_def m m_def [symmetric] Let_def)
  next
    case lf
    obtain l r where l: "take m (avail pre s) = l @ 10 # r" "10 \<notin> set l" using lf by (metis split_list_first)
    define rest where "rest = r @ drop m (avail pre s)"
    have a: "avail pre s = l @ 10 # rest" unfolding rest_def by (metis l(1) append_take_drop_id append.assoc append_Cons)
    have f: "length l < m" using arg_cong [OF l(1), of length] by simp
    obtain acc s' where r: "read_line_async cap e pre s = (Ready (finish_line acc), s')" "l_bytes acc = pop_cr l"
      "avail (l_trailing acc) s' = rest"
      using read_line_async_reads [OF assms a l(2), of cap e] f by (auto simp: fits_cap_def m_def)
    have t: "takeWhile (\<lambda>b. b \<noteq> 10) (l @ 10 # rest) = l" using l(2) by (auto intro: takeWhile_append_stop)
    show ?thesis using lf l(2) unfolding r(1) line_outcome_finish r(3) line_spec_def m_def [symmetric] Let_def a
      by (simp add: r(2) t pop_cr_eq butlast_conv_take)
  next
    case ends
    let ?acc = "line_start\<lparr>l_bytes := pre\<rparr>"
    have p: "push_bytes_capped m e pre line_start = Ok ?acc" "reading ?acc"
      using ends by (simp_all add: push_bytes_capped_line reading_def avail_def)
    have l: "(ending_of es = Closed \<longrightarrow> (\<exists>es'. line_loop_async m e ?acc (Unsecured es t) =
          (Ready (Ok (line_start\<lparr>l_bytes := avail pre s\<rparr>)), Unsecured (Eof # es') t)))
        \<and> (ending_of es \<noteq> Closed \<longrightarrow> fst (line_loop_async m e ?acc (Unsecured es t)) = at_end line_start (ending_of es))"
      using line_loop_async_at_end [OF p(2), of es m e t line_start] ends by (simp add: s avail_def)
    obtain y s' where y: "line_loop_async m e ?acc s = (y, s')" by fastforce
    have "\<not> (m < length (avail pre s) \<and> 10 \<notin> set (take m (avail pre s)))" using ends(1) by simp
    then show ?thesis using l p y ends(2) unfolding m line_spec_def m_def [symmetric] Let_def
      by (cases "ending_of es") (auto simp: s read_line_async_def line_outcome_def finish_line_def avail_def split: result.split)
  qed
qed


text \<open>A line that was read leaves a stream that ends the same way.\<close>

lemma next_await_ending:
  assumes "next_await s = (Ready x, s')" "\<forall>e. x \<noteq> Some (Err e)"
  shows "ending_of (events s') = ending_of (events s) \<and> is_unsecured s'"
proof (cases s)
  case (Unsecured es t)
  then show ?thesis using assms
  proof (induction es arbitrary: s)
    case (Cons ev es)
    then show ?case by (cases ev) auto
  qed simp
qed (use assms in simp)

lemma line_loop_async_ending:
  "line_loop_async m e acc s = (Ready (Ok acc'), s') \<Longrightarrow> ending_of (events s') = ending_of (events s) \<and> is_unsecured s'"
proof (induction m e acc s rule: line_loop_async.induct)
  case (1 m e acc s)
  from "1.prems" consider "next_await s = (Ready None, s')"
    | chunk s1 acc1 where "next_await s = (Ready (Some (Ok chunk)), s1)"
        "push_bytes_capped m e chunk acc = Ok acc1"
        "s' = s1 \<or> new_line_flag acc1 \<and> line_loop_async m e acc1 s1 = (Ready (Ok acc'), s')"
    by (subst (asm) line_loop_async.simps)
      (auto split: prod.splits poll.splits option.splits result.splits if_splits)
  then show ?case
  proof cases
    case 1
    then show ?thesis by (simp add: next_await_ending)
  next
    case (2 chunk s1 acc1)
    then show ?thesis using next_await_ending [OF 2(1)] "1.IH" by fastforce
  qed
qed

lemma read_line_async_ending:
  assumes "is_unsecured s" "read_line_async cap e pre s = (Ready (Ok x), s')"
  shows "is_unsecured s'" "ending_of (events s') = ending_of (events s)"
proof -
  have "s' = s \<or> (\<exists>m acc acc'. line_loop_async m e acc s = (Ready (Ok acc'), s'))" using assms(2)
    by (auto simp: read_line_async_def Let_def split: prod.splits poll.splits result.splits if_splits)
  then show "is_unsecured s'" "ending_of (events s') = ending_of (events s)"
    using line_loop_async_ending assms(1) by blast+
qed

lemma read_line_async_refines:
  assumes "is_unsecured s"
  shows "case read_line_async cap e pre s of
      (Ready (Ok (line, tr)), s') \<Rightarrow> line_spec cap e (ending_of (events s)) (avail pre s) = Ready (Ok (line, avail tr s'))
        \<and> is_unsecured s' \<and> ending_of (events s') = ending_of (events s)
    | (p, s') \<Rightarrow> line_spec cap e (ending_of (events s)) (avail pre s) = p"
  using read_line_async_spec [OF assms, of cap e pre] read_line_async_ending [OF assms, of cap e pre]
  by (auto simp: line_outcome_def split: prod.splits poll.splits result.splits)

text \<open>What is left of a line is shorter by the line.\<close>

lemma line_spec_shorter:
  assumes "line_spec cap e d bs = Ready (Ok (line, rest))" "line \<noteq> []"
  shows "length rest < length bs"
proof (cases "10 \<in> set bs")
  case True
  then obtain l r where l: "bs = l @ 10 # r" "10 \<notin> set l" by (metis split_list_first)
  then have "takeWhile (\<lambda>b. b \<noteq> 10) bs = l" by (auto intro: takeWhile_append_stop)
  then have "length (takeWhile (\<lambda>b. b \<noteq> 10) bs) < length bs" using l(1) by simp
  then show ?thesis using assms(1) True by (auto simp: line_spec_def Let_def split: if_splits result.splits)
next
  case False
  have "from_utf8 [] = Ok []" by (simp add: from_utf8_Ok_iff)
  then show ?thesis using assms False
    by (cases d; cases bs) (auto simp: line_spec_def Let_def split: if_splits result.splits)
qed

section \<open>Heads\<close>

function headers_spec ::
    "build \<Rightarrow> usize option \<Rightarrow> ending \<Rightarrow> u8 list \<Rightarrow> hashmap \<Rightarrow> (usize option \<times> u8 list \<times> hashmap, error) result poll" where
  "headers_spec b cap d bs headers =
     (case line_spec cap HeadersOverflow d bs of
        Ready (Ok (line, rest)) \<Rightarrow>
          if line = [] then Ready (Ok (cap, rest, headers))
          else (case lower_cap b cap line of
                  None \<Rightarrow> Panicked
                | Some cap' \<Rightarrow> headers_spec b cap' d rest (insert_header line headers))
      | Ready (Err e) \<Rightarrow> Ready (Err e)
      | Pending \<Rightarrow> Pending
      | Panicked \<Rightarrow> Panicked)"
  by pat_completeness auto
termination
  by (relation "measure (\<lambda>(b, cap, d, bs, h). length bs)") (auto dest: line_spec_shorter)

declare headers_spec.simps [simp del]

lemma header_loop_refines:
  "is_unsecured s \<Longrightarrow>
    (case header_loop b cap tr h s of
       (Ready (Ok (cap', tr', h')), s') \<Rightarrow>
         headers_spec b cap (ending_of (events s)) (avail tr s) h = Ready (Ok (cap', avail tr' s', h'))
         \<and> is_unsecured s' \<and> ending_of (events s') = ending_of (events s)
     | (p, s') \<Rightarrow> headers_spec b cap (ending_of (events s)) (avail tr s) h = p)"
proof (induction b cap tr h s rule: header_loop.induct)
  case (1 b cap tr h s)
  obtain y s1 where y: "read_line_async cap HeadersOverflow tr s = (y, s1)" by fastforce
  note l = read_line_async_refines [OF "1.prems", of cap HeadersOverflow tr, unfolded y]
  show ?case
  proof (cases "\<exists>line tr1 cap1. y = Ready (Ok (line, tr1)) \<and> line \<noteq> [] \<and> lower_cap b cap line = Some cap1")
    case True
    then obtain line tr1 cap1 where a: "y = Ready (Ok (line, tr1))" "line \<noteq> []" "lower_cap b cap line = Some cap1" by blast
    have e: "is_unsecured s1" "ending_of (events s1) = ending_of (events s)" using l a(1) by simp_all
    have "header_loop b cap tr h s = header_loop b cap1 tr1 (insert_header line h) s1"
      using y a by (subst header_loop.simps) simp
    moreover have "headers_spec b cap (ending_of (events s)) (avail tr s) h =
        headers_spec b cap1 (ending_of (events s)) (avail tr1 s1) (insert_header line h)"
      using l a by (subst headers_spec.simps) simp
    ultimately show ?thesis using "1.IH" [OF y [symmetric] a(1) refl refl a(2,3) e(1)] by (simp only: e(2))
  next
    case False
    then show ?thesis using y l
      by (auto simp: header_loop.simps [of b cap tr h s] headers_spec.simps [of b cap "ending_of (events s)" "avail tr s" h]
          split: poll.splits result.splits option.splits)
  qed
qed

definition head_spec ::
    "build \<Rightarrow> (hashmap \<Rightarrow> hashmap) \<Rightarrow> usize option \<Rightarrow> usize option \<Rightarrow> ending \<Rightarrow> u8 list \<Rightarrow> (response_metadata, error) result poll" where
  "head_spec b iter max_headers_size max_status_line_len d bs =
     await (line_spec max_status_line_len StatusLineOverflow d bs) (\<lambda>(line, rest).
     await (headers_spec b max_headers_size d rest []) (\<lambda>(cap, body, headers).
     await (Ready (scan_headers (iter headers) (False, None))) (\<lambda>st.
       Ready (Ok \<lparr>m_status_code = fst (parse_status_line line), m_reason_phrase = snd (parse_status_line line),
         m_headers = headers, m_state = choose_state st, m_max_trailing_headers_size = cap, m_trailing_content = body\<rparr>))))"

lemma read_metadata_refines:
  assumes "is_unsecured s"
  shows "case read_metadata b iter cap scap s of
      (Ready (Ok m), s') \<Rightarrow>
        head_spec b iter cap scap (ending_of (events s)) (avail [] s) = Ready (Ok (m\<lparr>m_trailing_content := avail (m_trailing_content m) s'\<rparr>))
        \<and> is_unsecured s' \<and> ending_of (events s') = ending_of (events s)
    | (p, s') \<Rightarrow> head_spec b iter cap scap (ending_of (events s)) (avail [] s) = p"
proof -
  obtain y s1 where y: "read_line_async scap StatusLineOverflow [] s = (y, s1)" by fastforce
  note l = read_line_async_refines [OF assms, of scap StatusLineOverflow "[]", unfolded y]
  show ?thesis
  proof (cases "\<exists>line tr. y = Ready (Ok (line, tr))")
    case True
    then obtain line tr where t: "y = Ready (Ok (line, tr))" by blast
    then have u: "is_unsecured s1" "ending_of (events s1) = ending_of (events s)" using l by simp_all
    show ?thesis using header_loop_refines [OF u(1), of b cap tr "[]"] l y t u(2)
      by (auto simp: read_metadata_def head_spec_def split: prod.splits poll.splits result.splits)
  next
    case False
    then show ?thesis using y l
      by (auto simp: read_metadata_def head_spec_def split: poll.splits result.splits)
  qed
qed


section \<open>Responses\<close>

text \<open>A lazily loaded response, with the bytes of its body joined.\<close>

definition metadata_of :: "response_lazy \<Rightarrow> response_metadata" where
  "metadata_of r = \<lparr>m_status_code = lz_status_code r, m_reason_phrase = lz_reason_phrase r, m_headers = lz_headers r,
     m_state = lz_state r, m_max_trailing_headers_size = lz_max_trailing_headers_size r, m_trailing_content = body_avail r\<rparr>"

lemma from_stream_refines:
  assumes "is_unsecured s"
  shows "head_spec b iter cap scap (ending_of (events s)) (stream_bytes (events s)) =
      await (from_stream b iter cap scap s) (\<lambda>r. Ready (Ok (metadata_of r)))"
    and "from_stream b iter cap scap s = Ready (Ok r) \<Longrightarrow>
      is_unsecured (lz_stream r) \<and> ending_of (events (lz_stream r)) = ending_of (events s) \<and> lz_url r = []"
  using read_metadata_refines [OF assms, of b iter cap scap]
  by (auto simp: from_stream_def metadata_of_def body_avail_def avail_def Let_def split: prod.splits poll.splits result.splits)

text \<open>
  A body is complete when it has the announced length or the connection is closed; whatever else ends
  the stream ends the reading.
\<close>

definition body_spec :: "stream_state \<Rightarrow> ending \<Rightarrow> u8 list \<Rightarrow> (u8 list, error) result poll" where
  "body_spec st d bs = (if st = ContentLength (length bs) then Ready (Ok bs) else at_end bs d)"

definition response_spec ::
    "build \<Rightarrow> (hashmap \<Rightarrow> hashmap) \<Rightarrow> usize option \<Rightarrow> usize option \<Rightarrow> bool \<Rightarrow> ending \<Rightarrow> u8 list \<Rightarrow> (response, error) result poll" where
  "response_spec b iter max_headers_size max_status_line_len is_head d bs =
     await (head_spec b iter max_headers_size max_status_line_len d bs) (\<lambda>m.
     await (if is_head \<or> m_status_code m \<in> {204, 304} then Ready (Ok []) else body_spec (m_state m) d (m_trailing_content m)) (\<lambda>body.
       Ready (Ok \<lparr>resp_status_code = m_status_code m, resp_reason_phrase = m_reason_phrase m, resp_headers = m_headers m,
         resp_url = [], resp_body = body\<rparr>)))"

lemma create_spec:
  assumes "is_unsecured (lz_stream r)" "has_body h r"
    and "lz_state r = EndOnClose \<or> (\<exists>n\<ge>length (body_avail r). lz_state r = ContentLength n)"
  shows "create b r h =
    await (body_spec (lz_state r) (ending_of (events (lz_stream r))) (body_avail r)) (\<lambda>body. Ready (Ok (response_of r body)))"
proof -
  consider "until_closed r" "lz_state r = EndOnClose" "ending_of (events (lz_stream r)) = Closed"
    | "within_length r" "lz_state r = ContentLength (length (body_avail r)) \<or> ending_of (events (lz_stream r)) = Closed"
    | "starving r" "lz_state r \<noteq> ContentLength (length (body_avail r))" "ending_of (events (lz_stream r)) \<noteq> Closed"
    using assms(1,3) unfolding until_closed_def within_length_def starving_def closes_ending
    by (metis le_neq_implies_less stream_state.distinct(1) stream_state.inject(1))
  then show ?thesis
  proof cases
    case 1
    then show ?thesis using closed_body.create_left assms(2) by (simp add: body_spec_def)
  next
    case 2
    then show ?thesis using sized_body.create_left assms(2) by (auto simp: body_spec_def)
  next
    case 3
    then show ?thesis using create_starving [OF 3(1) assms(2)]
      by (cases "ending_of (events (lz_stream r))") (simp_all add: body_spec_def)
  qed
qed

text \<open>
  C4: Reading a response that is not chunked refines the function of its bytes: from any plain stream,
  with any bytes, cut in any way, and any end, the status, the headers and the body, or the error, or
  no answer at all, depend only on the bytes and on whether the connection is then closed, fails or
  stalls, as long as no more bytes arrive than the content length announces.
\<close>

theorem response_refines:
  assumes "is_unsecured s"
    and "\<forall>m. head_spec b iter cap scap (ending_of (events s)) (stream_bytes (events s)) = Ready (Ok m)
      \<and> \<not> is_head \<and> m_status_code m \<notin> {204, 304} \<longrightarrow>
        m_state m = EndOnClose \<or> (\<exists>n\<ge>length (m_trailing_content m). m_state m = ContentLength n)"
  shows "await (from_stream b iter cap scap s) (\<lambda>r. create b r is_head) =
    response_spec b iter cap scap is_head (ending_of (events s)) (stream_bytes (events s))"
proof (cases "\<exists>r. from_stream b iter cap scap s = Ready (Ok r)")
  case True
  then obtain r where r: "from_stream b iter cap scap s = Ready (Ok r)" by blast
  note k = from_stream_refines(2) [OF assms(1) r]
  have h: "head_spec b iter cap scap (ending_of (events s)) (stream_bytes (events s)) = Ready (Ok (metadata_of r))"
    using from_stream_refines(1) [OF assms(1), of b iter cap scap] r by simp
  show ?thesis
  proof (cases "has_body is_head r")
    case False
    then have "is_head \<or> lz_status_code r \<in> {204, 304}" by (auto simp: has_body_def)
    then show ?thesis using create_no_body [OF False, of b] r k
      by (simp add: response_spec_def h metadata_of_def response_of_def)
  next
    case True
    then have n: "\<not> is_head" "lz_status_code r \<notin> {204, 304}" by (auto simp: has_body_def)
    have "create b r is_head =
        await (body_spec (lz_state r) (ending_of (events s)) (body_avail r)) (\<lambda>body. Ready (Ok (response_of r body)))"
      using create_spec [OF _ True, of b] k assms(2) h n by (simp add: metadata_of_def)
    then show ?thesis using r k n by (simp add: response_spec_def h metadata_of_def response_of_def)
  qed
next
  case False
  then show ?thesis using from_stream_refines(1) [OF assms(1), of b iter cap scap]
    by (cases "(from_stream b iter cap scap s, \<lambda>r. create b r is_head)" rule: await.cases) (auto simp: response_spec_def)
qed

abbreviation reset_err :: io_error where
  "reset_err \<equiv> \<lparr>kind = OsKind 104, message = str ''Connection reset by peer''\<rparr>"

theorem response_refines_witness:
  "await (from_stream Debug (\<lambda>m. m) None (Some 9) (Unsecured [Chunk [72], NotReady, Chunk [13, 10, 10, 104], Fail reset_err] None))
     (\<lambda>r. create Debug r False) = Ready (Err (IoError reset_err))"
proof -
  let ?s = "Unsecured [Chunk [72], NotReady, Chunk [13, 10, 10, 104], Fail reset_err] None"
  have u: "from_utf8 [72] = Ok [72]" "from_utf8 [] = Ok []" by (simp_all add: from_utf8_Ok_iff encode_utf8_def byte_def is_scalar_def)
  have l: "line_spec (Some 9) StatusLineOverflow (Failed reset_err) [72, 13, 10, 10, 104] = Ready (Ok ([72], [10, 104]))"
    "line_spec None HeadersOverflow (Failed reset_err) [10, 104] = Ready (Ok ([], [104]))"
    by (simp_all add: line_spec_def Let_def u usize_MAX_def suffix_def)
  have "head_spec Debug (\<lambda>m. m) None (Some 9) (Failed reset_err) [72, 13, 10, 10, 104] =
      Ready (Ok \<lparr>m_status_code = 503, m_reason_phrase = str ''Server did not provide a status line'', m_headers = [],
        m_state = EndOnClose, m_max_trailing_headers_size = None, m_trailing_content = [104]\<rparr>)"
    by (simp add: head_spec_def l headers_spec.simps choose_state_def parse_status_line_def status_step_def parse_i32_def)
  then show ?thesis using response_refines [of ?s Debug "\<lambda>m. m" None "Some 9" False]
    by (simp add: response_spec_def body_spec_def)
qed

end
