(* ===== verification/Panic_Spec.thy ===== *)
theory Panic_Spec
  imports Progress_Spec
begin

text \<open>
  Where sending over plain HTTP can panic. Reading from an unsecured stream never panics by itself;
  what is left is arithmetic on lengths, which only a build with overflow checks refuses, and the
  addition of the timeout to the clock. The argument follows the layers of \<open>Progress_Spec\<close>.
\<close>

section \<open>Caps and counters\<close>

text \<open>Without overflow checks, or without a cap, lowering the cap on headers cannot panic.\<close>

definition calm_cap :: "build \<Rightarrow> usize option \<Rightarrow> bool" where
  "calm_cap b cap \<longleftrightarrow> b = Release \<or> cap = None"

lemma usize_Release [simp]: "usize_sub Release m n = None \<longleftrightarrow> False" "usize_add Release m n = None \<longleftrightarrow> False"
  by (simp_all add: usize_sub_def usize_add_def)

lemma lower_cap_not_None: "calm_cap b cap \<Longrightarrow> lower_cap b cap line \<noteq> None"
  by (auto simp: calm_cap_def lower_cap_def usize_sub_def split: option.split)

lemma lower_cap_calm:
  assumes "calm_cap b cap"
  obtains cap' where "lower_cap b cap line = Some cap'" "calm_cap b cap'"
proof (cases "lower_cap b cap line")
  case (Some cap')
  then show ?thesis using assms that by (cases cap) (auto simp: calm_cap_def lower_cap_def)
qed (use lower_cap_not_None [OF assms] in simp)

section \<open>Reading the head\<close>

text \<open>A stream that stays in a set of states in which waiting for it never panics.\<close>

locale calm_stream = stream_invariant +
  assumes next_calm: "P s \<Longrightarrow> fst (next_await s) \<noteq> Panicked"
begin

lemma line_loop_async_calm: "P s \<Longrightarrow> fst (line_loop_async m e acc s) \<noteq> Panicked"
proof (induction m e acc s rule: line_loop_async.induct)
  case (1 m e acc s)
  obtain y s1 where y: "next_await s = (y, s1)" by fastforce
  then have "P s1" "y \<noteq> Panicked" using next_keeps [OF y "1.prems"] next_calm [OF "1.prems"] by simp_all
  then show ?case using "1.IH" [OF y [symmetric]] y
    by (subst line_loop_async.simps) (auto split: poll.splits option.splits result.splits)
qed

lemma read_line_async_calm: "P s \<Longrightarrow> fst (read_line_async m e pre s) \<noteq> Panicked"
  using line_loop_async_calm
  by (auto simp: read_line_async_def Let_def split: prod.splits poll.splits result.splits) (metis fst_conv)+

lemma header_loop_calm:
  "P s \<Longrightarrow> calm_cap b m \<Longrightarrow> header_loop b m tr h s = (y, s') \<Longrightarrow>
     y \<noteq> Panicked \<and> (\<forall>cap tr' h'. y = Ready (Ok (cap, tr', h')) \<longrightarrow> calm_cap b cap)"
proof (induction b m tr h s arbitrary: y s' rule: header_loop.induct)
  case (1 b m tr h s)
  obtain z s1 where z: "read_line_async m HeadersOverflow tr s = (z, s1)" by fastforce
  have s1: "P s1" "z \<noteq> Panicked"
    using read_line_async_keeps [OF z "1.prems"(1)] read_line_async_calm [OF "1.prems"(1), of m HeadersOverflow tr] z
    by simp_all
  show ?case
  proof (cases "\<exists>line tr'. z = Ready (Ok (line, tr')) \<and> line \<noteq> []")
    case True
    then obtain line tr' where l: "z = Ready (Ok (line, tr'))" "line \<noteq> []" by blast
    obtain cap where c: "lower_cap b m line = Some cap" "calm_cap b cap"
      using lower_cap_calm [OF "1.prems"(2)] by blast
    then have "header_loop b cap tr' (insert_header line h) s1 = (y, s')"
      using "1.prems"(3) z l by (subst (asm) header_loop.simps) simp
    then show ?thesis using "1.IH" [OF z [symmetric] l(1) refl refl l(2) c(1) s1(1) c(2)] by blast
  next
    case False
    then show ?thesis using "1.prems"(2,3) z s1(2)
      by (subst (asm) header_loop.simps) (auto split: poll.splits result.splits)
  qed
qed

lemma from_stream_calm:
  assumes "P s" "calm_cap b m" "from_stream b iter m n s = y"
  shows "y \<noteq> Panicked \<and> (\<forall>r. y = Ready (Ok r) \<longrightarrow> P (lz_stream r) \<and> calm_cap b (lz_max_trailing_headers_size r))"
proof -
  obtain z s1 where z: "read_line_async n StatusLineOverflow [] s = (z, s1)" by fastforce
  have s1: "P s1" "z \<noteq> Panicked"
    using read_line_async_keeps [OF z assms(1)] read_line_async_calm [OF assms(1), of n StatusLineOverflow "[]"] z by simp_all
  have "u \<noteq> Panicked \<and> (\<forall>cap tr' h'. u = Ready (Ok (cap, tr', h')) \<longrightarrow> calm_cap b cap) \<and> P s2"
    if "header_loop b m tr [] s1 = (u, s2)" for tr u s2
    using header_loop_calm [OF s1(1) assms(2) that] header_loop_keeps [OF that s1(1)] by blast
  then show ?thesis using assms(3) z s1(2)
    by (auto simp: from_stream_def read_metadata_def Let_def split: prod.splits poll.splits result.splits)
qed

end

lemma wait_ready_unsecured [simp]: "is_unsecured (wait_ready s) = is_unsecured s"
  by (cases s) (simp_all add: wait_ready_def)

lemma poll_next_calm: "is_unsecured s \<Longrightarrow> poll_next s = (y, s') \<Longrightarrow> y \<noteq> Panicked \<and> is_unsecured s'"
  by (cases s rule: poll_next.cases) auto

interpretation plain_stream: calm_stream is_unsecured
proof unfold_locales
  fix s s' :: http_stream and y
  show "next_await s = (y, s') \<Longrightarrow> is_unsecured s \<Longrightarrow> is_unsecured s'"
    unfolding next_await_def using poll_next_calm [of "wait_ready s"] by simp
  show "is_unsecured s \<Longrightarrow> fst (next_await s) \<noteq> Panicked"
    unfolding next_await_def using poll_next_calm [of "wait_ready s"] by (cases "poll_next (wait_ready s)") simp
qed

section \<open>Reading the body\<close>

lemma line_loop_calm:
  "is_unsecured s \<Longrightarrow> line_loop m e acc s = (y, s') \<Longrightarrow> y \<noteq> Panicked \<and> is_unsecured s'"
proof (induction m e acc s arbitrary: y s' rule: line_loop.induct)
  case (1 m e acc s)
  obtain z s1 where z: "poll_next s = (z, s1)" by fastforce
  have s1: "z \<noteq> Panicked" "is_unsecured s1" using poll_next_calm [OF "1.prems"(1) z] by simp_all
  show ?case
  proof (cases "\<exists>chunk. z = Ready (Some (Ok chunk)) \<and> \<not> over_cap m acc \<and> new_line_flag (fold push_byte chunk acc)")
    case True
    then obtain chunk where c: "z = Ready (Some (Ok chunk))" "\<not> over_cap m acc"
      "new_line_flag (fold push_byte chunk acc)" by blast
    then have "line_loop m e (fold push_byte chunk acc) s1 = (y, s')"
      using "1.prems"(2) z by (subst (asm) line_loop.simps) simp
    then show ?thesis using "1.IH" [OF z [symmetric] c(1) refl refl c(2) refl] c(3) s1(2) by simp
  next
    case False
    then show ?thesis using "1.prems"(2) z s1
      by (subst (asm) line_loop.simps) (auto simp: Let_def split: poll.splits option.splits result.splits if_splits)
  qed
qed

lemma read_line_calm:
  assumes "is_unsecured s" "read_line m e pre s = (y, s')"
  shows "y \<noteq> Panicked \<and> is_unsecured s'"
proof -
  obtain z s1 where z: "line_loop m e (fold push_byte pre line_start) s = (z, s1)" by fastforce
  then show ?thesis using assms line_loop_calm [OF assms(1) z]
    by (auto simp: read_line_def Let_def split: poll.splits result.splits if_splits)
qed

lemma read_trailers_calm:
  "is_unsecured s \<Longrightarrow> calm_cap b m \<Longrightarrow> read_trailers b s h m tr = (y, s', h') \<Longrightarrow> y \<noteq> Panicked \<and> is_unsecured s'"
proof (induction b s h m tr arbitrary: y s' h' rule: read_trailers.induct)
  case (1 b s h m tr)
  obtain z s1 where z: "read_line m HeadersOverflow tr s = (z, s1)" by fastforce
  have s1: "z \<noteq> Panicked" "is_unsecured s1" using read_line_calm [OF "1.prems"(1) z] by simp_all
  show ?case
  proof (cases "\<exists>l tr'. z = Ready (Ok (l, tr')) \<and> parse_header l \<noteq> None")
    case True
    then obtain l tr' k v where l: "z = Ready (Ok (l, tr'))" "parse_header l = Some (k, v)" by auto
    obtain cap where c: "lower_cap b m l = Some cap" "calm_cap b cap" using lower_cap_calm [OF "1.prems"(2)] by blast
    then have "read_trailers b s1 (hm_insert k v h) cap tr' = (y, s', h')"
      using "1.prems"(3) z l by (subst (asm) read_trailers.simps) simp
    then show ?thesis using "1.IH" [OF z [symmetric] l(1) refl refl c(1) l(2) refl s1(2) c(2)] by blast
  next
    case False
    then show ?thesis using "1.prems"(3) z s1 lower_cap_not_None [OF "1.prems"(2)]
      by (subst (asm) read_trailers.simps) (auto split: poll.splits result.splits option.splits simp del: not_None_eq)
  qed
qed

text \<open>One poll of a body in a build without overflow checks.\<close>

lemma read_chunked_calm:
  assumes "is_unsecured (ck_stream c)" "read_chunked Release pre m c = (y, c')"
  shows "y \<noteq> Panicked \<and> is_unsecured (ck_stream c')"
proof -
  obtain z s1 where z: "read_line (Some 1024) MalformedChunkLength pre (ck_stream c) = (z, s1)" by fastforce
  note s1 = read_line_calm [OF assms(1) z]
  have t: "u \<noteq> Panicked \<and> is_unsecured s2" if "read_trailers Release s1 h m tr = (u, s2, h2)" for h tr u s2 h2
    using read_trailers_calm [of s1 Release m h tr u s2 h2] s1 that by (simp add: calm_cap_def)
  have b: "case begin_chunk Release pre m c of Inl (u, c1) \<Rightarrow> u \<noteq> Panicked \<and> is_unsecured (ck_stream c1)
      | Inr c1 \<Rightarrow> is_unsecured (ck_stream c1)"
    using z s1
    by (auto simp: begin_chunk_def end_of_chunks_def Let_def split: poll.splits result.splits option.splits prod.splits dest!: t)
  have d: "u \<noteq> Panicked \<and> is_unsecured (ck_stream c2)"
    if "is_unsecured (ck_stream c1)" "poll_chunk_data c1 = (u, c2)" for c1 u c2
    using that poll_next_calm [of "ck_stream c1"]
    by (auto simp: poll_chunk_data_def Let_def split: if_splits poll.splits option.splits result.splits prod.splits)
  show ?thesis using assms b d
    by (auto simp: read_chunked_def split: if_splits sum.splits)
qed

lemma lazy_poll_next_calm:
  assumes "is_unsecured (lz_stream r)" "lazy_poll_next Release r = (y, r')"
  shows "y \<noteq> Panicked \<and> is_unsecured (lz_stream r')"
proof (cases "lz_state r")
  case (Chunked u v k)
  then show ?thesis using assms
    by (auto simp: lazy_poll_next_def Let_def split: prod.splits dest!: read_chunked_calm [rotated])
next
  case EndOnClose
  then show ?thesis using assms poll_next_calm [OF assms(1)]
    by (auto simp: lazy_poll_next_def read_until_closed_def process_prefix_def Let_def
        split: prod.splits if_splits poll.splits option.splits result.splits)
next
  case (ContentLength n)
  then show ?thesis using assms poll_next_calm [OF assms(1)]
    by (auto simp: lazy_poll_next_def read_with_content_length_def process_prefix_def Let_def
        split: prod.splits if_splits poll.splits option.splits result.splits)
qed

lemma lazy_next_calm:
  "is_unsecured (lz_stream r) \<Longrightarrow> lazy_next Release r = (y, r') \<Longrightarrow> y \<noteq> Panicked \<and> is_unsecured (lz_stream r')"
proof (induction "Release" r arbitrary: y r' rule: lazy_next.induct)
  case (1 r)
  obtain z r1 where z: "lazy_poll_next Release r = (z, r1)" by fastforce
  note p = lazy_poll_next_calm [OF "1.prems"(1) z]
  show ?case using "1.hyps" [OF z [symmetric]] "1.prems"(2) z p
    by (auto simp: lazy_next.simps [of Release r] split: poll.splits if_splits)
qed

lemma drain_calm: "is_unsecured (lz_stream r) \<Longrightarrow> drain Release r body \<noteq> Panicked"
proof (induction "Release" r body rule: drain.induct)
  case (1 r body)
  obtain y r1 where y: "lazy_next Release r = (y, r1)" by fastforce
  note p = lazy_next_calm [OF "1.prems" y]
  show ?case using "1.hyps" [OF y [symmetric]] y p
    by (subst drain.simps) (auto split: poll.splits option.splits result.splits)
qed

lemma create_calm: "is_unsecured (lz_stream r) \<Longrightarrow> create Release r h \<noteq> Panicked"
  using drain_calm [of r "[]"] by (auto simp: create_def split: poll.splits result.splits)

section \<open>Sending\<close>

lemma write_all_calm: "fst (write_all ws bs) \<noteq> Panicked"
  by (induction ws bs rule: write_all.induct) (auto split: prod.splits)

lemma read_some_calm: "fst (read_some n es) \<noteq> Panicked"
  by (induction n es rule: read_some.induct) auto

lemma proxy_read_calm: "fst (proxy_read es acc) \<noteq> Panicked"
proof (induction es acc rule: proxy_read.induct)
  case (1 es acc)
  obtain y es1 where y: "read_some 256 es = (y, es1)" by fastforce
  then have "y \<noteq> Panicked" using read_some_calm [of 256 es] by simp
  then show ?case using "1.IH" [OF y [symmetric]] y
    by (subst proxy_read.simps) (auto simp: Let_def split: poll.splits result.splits)
qed

lemma proxy_exchange_calm: "fst (proxy_exchange x c p tcp w) \<noteq> Panicked"
proof -
  obtain r out ws where w: "write_all (tcp_writes tcp) (into_bytes (proxy_connect (x_b64 x) p (c_request c))) = (r, out, ws)"
    using prod_cases3 by blast
  obtain q es where q: "proxy_read (tcp_incoming tcp) [] = (q, es)" by fastforce
  have "r \<noteq> Panicked" "q \<noteq> Panicked"
    using write_all_calm [of "tcp_writes tcp"] w proxy_read_calm [of "tcp_incoming tcp" "[]"] q by (metis fst_conv)+
  then show ?thesis using w q
    by (auto simp: proxy_exchange_def Let_def split: poll.splits result.splits)
qed

lemma try_addrs_calm: "fst (try_addrs x c addrs w) \<noteq> Panicked"
proof (induction addrs arbitrary: w)
  case (Cons a addrs)
  have "fst (dial x w limit a) \<noteq> Panicked" for limit by (auto simp: dial_def Let_def split: option.splits)
  then show ?case using Cons by (auto split: result.splits prod.splits poll.splits) (metis fst_conv)+
qed simp

lemma connection_connect_calm: "fst (connection_connect x c w) \<noteq> Panicked"
proof -
  have t: "fst (tcp_connect x c h p w) \<noteq> Panicked" for h p w
    using try_addrs_calm by (auto simp: tcp_connect_def Let_def split: result.split)
  have "fst (suspend c n (proxy_exchange x c p tcp w)) \<noteq> Panicked" for n p tcp w
    using proxy_exchange_calm [of x c p tcp w] by (cases "proxy_exchange x c p tcp w") (auto simp: suspend_def)
  then show ?thesis using t
    by (auto simp: connection_connect_def Let_def split: option.splits prod.splits poll.splits result.splits) (metis fst_conv)+
qed

lemma try_write_loop_calm: "try_write_loop ws bs \<noteq> Panicked"
  by (induction ws bs rule: try_write_loop.induct) auto

text \<open>An outcome without a panic, whose response can be read on.\<close>

definition calm_outcome :: "(response_lazy, error) result poll \<Rightarrow> bool" where
  "calm_outcome r \<longleftrightarrow> r \<noteq> Panicked \<and> (\<forall>resp. r = Ready (Ok resp) \<longrightarrow> is_unsecured (lz_stream resp))"

definition calm_config :: "externals \<Rightarrow> connection \<Rightarrow> bool" where
  "calm_config x c \<longleftrightarrow> calm_cap (profile (x_cfg x)) (req_max_headers_size (conn_config c))"

lemma same_config_calm: "same_config c c' \<Longrightarrow> calm_config x c' = calm_config x c"
  by (auto simp: same_config_def calm_config_def)

lemma exchange_http_calm:
  assumes "calm_config x c"
  shows "calm_outcome (fst (exchange_http x c w))"
proof -
  obtain r w1 where r: "connection_connect x c w = (r, w1)" by fastforce
  have "r \<noteq> Panicked" using connection_connect_calm [of x c w] r by simp
  moreover have "calm_outcome (read_head x c (create_unsecured es t))" for es t
    using plain_stream.from_stream_calm [OF _ assms [unfolded calm_config_def], of "Unsecured es t"]
    by (auto simp: calm_outcome_def read_head_def create_unsecured_def)
  ultimately show ?thesis using r try_write_loop_calm
    by (auto simp: exchange_http_def calm_outcome_def suspend_def Let_def split: poll.splits result.splits)
qed

interpretation calm_send: sending x "calm_config x" "calm_config x"
  "\<lambda>r. feat_tls (x_cfg x) = None \<longrightarrow> calm_outcome r" "\<lambda>_. True" for x
proof unfold_locales
  show "calm_config x ca" if "calm_config x c" "with_ascii_host x c = Ok ca" for c ca
    using that with_ascii_host_frame(1) same_config_calm by blast
  show "((feat_tls (x_cfg x) = None \<longrightarrow> calm_outcome r) \<or> r = Pending \<and> c_timeout_at c \<noteq> None) \<and> True"
    if "calm_config x c" "exchange_http x c w = (r, w')" for c w r w'
    using exchange_http_calm [OF that(1), of w] that(2) by simp
  show "calm_config x c'" if "calm_config x c"
    "get_redirect (x_cfg x) c (lz_status_code resp) (hm_get (lz_headers resp) (str ''location'')) = Redirect (Ok c')" for c resp c'
    using get_redirect_Redirect(5) [OF that(2)] that(1) same_config_calm by blast
qed (auto simp: calm_outcome_def)

text \<open>The timeout of a request cannot be added to the clock.\<close>

definition deadline_overflow :: "externals \<Rightarrow> request \<Rightarrow> world \<Rightarrow> bool" where
  "deadline_overflow x req w \<longleftrightarrow>
     (\<exists>pr t. parsed_request_new (x_cfg x) (x_env x) req = Ok pr \<and> \<not> https (pr_url pr)
        \<and> (case req_timeout req of Some t \<Rightarrow> Some t | None \<Rightarrow> env_timeout (x_env x)) = Some t
        \<and> 2 ^ 63 \<le> now w div 10 ^ 9 + t)"

lemma connection_new_Panicked:
  "connection_new x w pr = Panicked \<longleftrightarrow>
     (\<exists>t. (case req_timeout (pr_config pr) of Some t \<Rightarrow> Some t | None \<Rightarrow> env_timeout (x_env x)) = Some t
        \<and> 2 ^ 63 \<le> now w div 10 ^ 9 + t)"
  by (auto simp: connection_new_def instant_add_def Let_def split: option.splits if_splits)

lemma request_send_lazy_calm:
  assumes "feat_tls (x_cfg x) = None" "calm_cap (profile (x_cfg x)) (req_max_headers_size req)"
  shows "fst (request_send_lazy x req w) = Panicked \<longleftrightarrow> deadline_overflow x req w"
    and "request_send_lazy x req w = (Ready (Ok r), w') \<Longrightarrow> is_unsecured (lz_stream r)"
proof -
  have I: "calm_config x c" if "parsed_request_new (x_cfg x) (x_env x) req = Ok pr" "connection_new x w pr = Ready c" for pr c
  proof -
    have "c_request c = pr" using that(2)
      by (auto simp: connection_new_def instant_add_def Let_def split: option.splits if_splits)
    then show ?thesis using assms(2) parsed_request_config(2) [OF that(1)] by (simp add: calm_config_def)
  qed
  have k: "calm_outcome r \<or> r = Panicked \<and> (\<exists>pr. parsed_request_new (x_cfg x) (x_env x) req = Ok pr \<and> connection_new x w pr = Panicked)"
    if "request_send_lazy x req w = (r, w')" for r w'
    using calm_send.request_send_lazy_keeps [of x req w r w'] I that assms(1) by auto
  show "fst (request_send_lazy x req w) = Panicked \<longleftrightarrow> deadline_overflow x req w"
  proof
    assume "fst (request_send_lazy x req w) = Panicked"
    then obtain w' where p: "request_send_lazy x req w = (Panicked, w')" by (cases "request_send_lazy x req w") simp
    then obtain pr where pr: "parsed_request_new (x_cfg x) (x_env x) req = Ok pr" "connection_new x w pr = Panicked"
      using k [OF p] by (auto simp: calm_outcome_def)
    then have "\<not> https (pr_url pr)" using assms(1) p by (auto simp: request_send_lazy_def)
    then show "deadline_overflow x req w"
      using pr parsed_request_config(1) [OF pr(1)] unfolding deadline_overflow_def connection_new_Panicked by auto
  next
    assume "deadline_overflow x req w"
    then obtain pr where pr: "parsed_request_new (x_cfg x) (x_env x) req = Ok pr" "\<not> https (pr_url pr)" "connection_new x w pr = Panicked"
      using parsed_request_config(1) unfolding deadline_overflow_def connection_new_Panicked by metis
    then show "fst (request_send_lazy x req w) = Panicked" by (simp add: request_send_lazy_def)
  qed
  show "is_unsecured (lz_stream r)" if "request_send_lazy x req w = (Ready (Ok r), w')"
    using k [OF that] by (simp add: calm_outcome_def)
qed

lemma request_send_calm:
  assumes "feat_tls (x_cfg x) = None" "profile (x_cfg x) = Release"
  shows "fst (request_send x req w) = Panicked \<longleftrightarrow> deadline_overflow x req w"
proof -
  obtain r w' where r: "request_send_lazy x req w = (r, w')" by fastforce
  have c: "calm_cap (profile (x_cfg x)) (req_max_headers_size req)" using assms(2) by (simp add: calm_cap_def)
  note l = request_send_lazy_calm [OF assms(1) c, of w]
  show ?thesis unfolding request_send_lazy_create r prod.case fst_conv l(1) [symmetric] assms(2)
    using l(2) r create_calm
    by (cases "(r, \<lambda>response. create Release response (req_method req = Head))" rule: await.cases) auto
qed

end
