(* ===== verification/Type_Spec.thy ===== *)
theory Type_Spec
  imports Send_Rule
begin

text \<open>
  What the types of the source promise of every response, whatever bytes the server sends: strings
  are sequences of Unicode scalar values, none of them a line feed, the status fits an \<open>i32\<close>, and
  header names are in lower case and occur once. Rust's type system guarantees that strings are
  sequences of scalar values and a status an \<open>i32\<close>; in the model, whose strings are lists of
  numbers, this is proved. The invariant is followed from the line readers to
  \<open>Request::send\<close>.
\<close>

section \<open>Headers\<close>

text \<open>Text that was read from one line: Unicode scalar values, none of them a line feed.\<close>

definition line_text :: "rstring \<Rightarrow> bool" where
  "line_text s \<longleftrightarrow> (\<forall>c\<in>set s. is_scalar c \<and> c \<noteq> LF)"

lemma line_text_simps [simp]:
  "line_text []" "line_text (c # s) \<longleftrightarrow> is_scalar c \<and> c \<noteq> LF \<and> line_text s"
  "line_text (s @ t) \<longleftrightarrow> line_text s \<and> line_text t"
  by (auto simp: line_text_def)

definition wf_headers :: "hashmap \<Rightarrow> bool" where
  "wf_headers h \<longleftrightarrow> wf_hm h \<and> (\<forall>(k, v)\<in>set h. make_ascii_lowercase k = k \<and> line_text k \<and> line_text v)"

lemma wf_headers_empty [simp]: "wf_headers []"
  by (simp add: wf_headers_def)

lemma wf_headers_insert:
  "wf_headers h \<Longrightarrow> make_ascii_lowercase k = k \<Longrightarrow> line_text k \<Longrightarrow> line_text v \<Longrightarrow> wf_headers (hm_insert k v h)"
  using hm_insert_set [of k v h] by (auto simp: wf_headers_def hm.inv_ins)

lemma wf_headers_remove: "wf_headers h \<Longrightarrow> wf_headers (hm_remove k h)"
  using hm_remove_set [of k h] by (auto simp: wf_headers_def hm.inv_rem)

lemma make_ascii_lowercase_idem: "make_ascii_lowercase (make_ascii_lowercase s) = make_ascii_lowercase s"
  by (simp add: make_ascii_lowercase_def ascii_lower_def)

lemma line_text_show_nat: "line_text (show_nat n)"
proof -
  have "is_ascii (show_nat n)" by simp
  moreover have "10 \<notin> set (show_nat n)" using show_nat_digits [of 10 n] by auto
  ultimately show ?thesis by (auto simp: is_ascii_def line_text_def)
qed

lemma line_text_lowercase: "line_text s \<Longrightarrow> line_text (make_ascii_lowercase s)"
  by (auto simp: line_text_def make_ascii_lowercase_def ascii_lower_def)

lemma parse_header_wf:
  assumes "parse_header line = Some (k, v)" "line_text line"
  shows "make_ascii_lowercase k = k \<and> line_text k \<and> line_text v"
proof -
  obtain name rest where r: "split_first [ch CHR '':''] line = Some (name, rest)" "k = make_ascii_lowercase name"
    "v = rest \<or> v = tl rest"
    using assms(1) by (auto simp: parse_header_def Let_def split: option.splits prod.splits list.splits if_splits)
  have "line = name @ [58] @ rest" using split_first_Some [OF r(1)] by simp
  then have "line_text name" "line_text rest" "line_text (tl rest)"
    using assms(2) by (cases rest; simp)+
  with r(2,3) show ?thesis by (auto simp: make_ascii_lowercase_idem line_text_lowercase)
qed

lemma insert_header_wf: "wf_headers h \<Longrightarrow> line_text line \<Longrightarrow> wf_headers (insert_header line h)"
  using parse_header_wf by (auto simp: insert_header_def intro: wf_headers_insert split: option.split)

text \<open>No reader puts a line feed into the line it accumulates.\<close>

definition one_line :: "line_acc \<Rightarrow> bool" where
  "one_line acc \<longleftrightarrow> 10 \<notin> set (l_bytes acc)"

lemma one_line_start [simp]: "one_line line_start"
  by (simp add: one_line_def line_start_def)

lemma push_byte_one_line: "one_line acc \<Longrightarrow> one_line (push_byte b acc)"
  by (auto simp: one_line_def push_byte_def pop_cr_def dest: in_set_butlastD)

lemma fold_push_byte_one_line: "one_line acc \<Longrightarrow> one_line (fold push_byte bs acc)"
  by (induction bs arbitrary: acc) (simp_all add: push_byte_one_line)

lemma push_bytes_capped_one_line: "push_bytes_capped m e bs acc = Ok acc' \<Longrightarrow> one_line acc \<Longrightarrow> one_line acc'"
  by (induction bs arbitrary: acc) (auto simp: push_byte_one_line split: if_splits)

lemma line_loop_async_one_line:
  "line_loop_async m e acc s = (Ready (Ok acc'), s') \<Longrightarrow> one_line acc \<Longrightarrow> one_line acc'"
proof (induction m e acc s rule: line_loop_async.induct)
  case (1 m e acc s)
  obtain y s1 where y: "next_await s = (y, s1)" by fastforce
  then show ?case
    using "1.IH" [OF y [symmetric]] "1.prems" push_bytes_capped_one_line [of m e _ acc, OF _ "1.prems"(2)]
    by (subst (asm) (2) line_loop_async.simps) (auto split: poll.splits option.splits result.splits if_splits)
qed

lemma line_loop_one_line: "line_loop m e acc s = (Ready (Ok acc'), s') \<Longrightarrow> one_line acc \<Longrightarrow> one_line acc'"
proof (induction m e acc s rule: line_loop.induct)
  case (1 m e acc s)
  obtain y s1 where y: "poll_next s = (y, s1)" by fastforce
  then show ?case using "1.IH" [OF y [symmetric]] "1.prems" fold_push_byte_one_line [OF "1.prems"(2)]
    by (subst (asm) (2) line_loop.simps)
      (auto simp: Let_def split: poll.splits option.splits result.splits if_splits)
qed

lemma finish_line_text:
  assumes "finish_line acc = Ok (line, tr)" "one_line acc"
  shows "line_text line"
proof -
  have "\<forall>c\<in>set line. is_scalar c" "into_bytes line = l_bytes acc"
    using assms(1) by (auto simp: finish_line_Ok from_utf8_Ok_iff)
  then show ?thesis using assms(2) into_bytes_LF [of line] by (auto simp: one_line_def line_text_def)
qed

lemma read_line_async_text: "read_line_async m e pre s = (Ready (Ok (line, tr)), s') \<Longrightarrow> line_text line"
  by (auto simp: read_line_async_def Let_def split: result.splits prod.splits poll.splits if_splits
      intro!: finish_line_text dest: line_loop_async_one_line push_bytes_capped_one_line)

lemma read_line_text: "read_line m e pre s = (Ready (Ok (line, tr)), s') \<Longrightarrow> line_text line"
  by (auto simp: read_line_def Let_def split: result.splits prod.splits poll.splits if_splits
      intro!: finish_line_text fold_push_byte_one_line dest!: line_loop_one_line)

lemma header_loop_wf:
  "header_loop b m tr h s = (Ready (Ok (cap, tr', h')), s') \<Longrightarrow> wf_headers h \<Longrightarrow> wf_headers h'"
proof (induction b m tr h s rule: header_loop.induct)
  case (1 b m tr h s)
  obtain y s1 where y: "read_line_async m HeadersOverflow tr s = (y, s1)" by fastforce
  then obtain line tr1 where l: "y = Ready (Ok (line, tr1))"
    using "1.prems"(1) by (subst (asm) header_loop.simps) (auto split: poll.splits result.splits)
  show ?case
  proof (cases "line = []")
    case True
    then show ?thesis using "1.prems" y l by (subst (asm) header_loop.simps) simp
  next
    case False
    then obtain cap1 where c: "lower_cap b m line = Some cap1"
      "header_loop b cap1 tr1 (insert_header line h) s1 = (Ready (Ok (cap, tr', h')), s')"
      using "1.prems"(1) y l by (subst (asm) header_loop.simps) (auto split: option.splits)
    have "line_text line" using y l read_line_async_text by simp
    then show ?thesis using "1.IH" [OF y [symmetric] l refl refl False c(1,2)] "1.prems"(2) insert_header_wf by blast
  qed
qed

lemma read_trailers_wf:
  "read_trailers b s h m tr = (y, s', h') \<Longrightarrow> wf_headers h \<Longrightarrow> wf_headers h'"
proof (induction b s h m tr arbitrary: y s' h' rule: read_trailers.induct)
  case (1 b s h m tr)
  obtain z s1 where z: "read_line m HeadersOverflow tr s = (z, s1)" by fastforce
  show ?case
  proof (cases "h' = h")
    case False
    then obtain l tr' cap k v where a: "z = Ready (Ok (l, tr'))" "lower_cap b m l = Some cap" "parse_header l = Some (k, v)"
      "read_trailers b s1 (hm_insert k v h) cap tr' = (y, s', h')"
      using "1.prems"(1) z
      by (subst (asm) read_trailers.simps) (auto split: poll.splits option.splits result.splits)
    have "line_text l" using z a(1) read_line_text by simp
    then have "wf_headers (hm_insert k v h)"
      using parse_header_wf [OF a(3)] "1.prems"(2) by (auto intro: wf_headers_insert)
    then show ?thesis using "1.IH" [OF z [symmetric] a(1) refl refl a(2,3) refl a(4)] by blast
  qed (use "1.prems"(2) in simp)
qed

lemma wf_headers_length: "wf_headers h \<Longrightarrow> wf_headers (hm_insert (str ''content-length'') (show_nat n) h)"
  by (rule wf_headers_insert) (simp_all add: line_text_show_nat, simp_all add: rust_defs line_text_def)

section \<open>Responses\<close>

definition is_i32 :: "int \<Rightarrow> bool" where
  "is_i32 i \<longleftrightarrow> - (2 ^ 31) \<le> i \<and> i < 2 ^ 31"

definition wf_lazy :: "response_lazy \<Rightarrow> bool" where
  "wf_lazy r \<longleftrightarrow> is_i32 (lz_status_code r) \<and> line_text (lz_reason_phrase r) \<and> wf_headers (lz_headers r)"

definition wf_response :: "response \<Rightarrow> bool" where
  "wf_response r \<longleftrightarrow> is_i32 (resp_status_code r) \<and> line_text (resp_reason_phrase r) \<and> wf_headers (resp_headers r)"

lemma parse_i32_range: "parse_i32 s = Some i \<Longrightarrow> is_i32 i"
  using parse_uint_bound [of 10 "2 ^ 31 - 1" s]
  by (fastforce simp: parse_i32_def is_i32_def split: list.splits if_splits option.splits)

lemma status_step_text:
  "line_text s \<Longrightarrow> line_text reason \<Longrightarrow> line_text (snd (snd (fold status_step s (n, code, reason))))"
  by (induction s arbitrary: n code reason) (auto simp: status_step_def Let_def)

lemma parse_status_line_wf:
  assumes "line_text line"
  shows "is_i32 (fst (parse_status_line line)) \<and> line_text (snd (parse_status_line line))"
proof -
  obtain n code reason where f: "fold status_step line (0, [], []) = (n, code, reason)" using prod_cases3 by blast
  have "line_text reason" using status_step_text [OF assms, of "[]" 0 "[]"] f by (simp add: line_text_def)
  moreover have "line_text (str ''Server did not provide a status line'')" by (simp add: line_text_def str_def)
  ultimately show ?thesis using f parse_i32_range [of code]
    by (auto simp: parse_status_line_def is_i32_def split: option.split)
qed

lemma from_stream_wf:
  assumes "from_stream b iter m n s = Ready (Ok r)"
  shows "wf_lazy r"
proof -
  obtain line tr s1 cap tr' h s2 where
    l: "read_line_async n StatusLineOverflow [] s = (Ready (Ok (line, tr)), s1)"
    and h: "header_loop b m tr [] s1 = (Ready (Ok (cap, tr', h)), s2)"
    and r: "lz_status_code r = fst (parse_status_line line)" "lz_reason_phrase r = snd (parse_status_line line)" "lz_headers r = h"
    using assms
    by (auto simp: from_stream_def read_metadata_def Let_def split: prod.splits poll.splits result.splits)
  show ?thesis
    using parse_status_line_wf [OF read_line_async_text [OF l]] header_loop_wf [OF h] r by (simp add: wf_lazy_def)
qed

lemma begin_chunk_wf:
  assumes "wf_headers (ck_headers c)"
  shows "begin_chunk b pre m c = Inl (y, c') \<Longrightarrow> wf_headers (ck_headers c')"
    and "begin_chunk b pre m c = Inr c' \<Longrightarrow> ck_headers c' = ck_headers c"
  using assms
  by (auto simp: begin_chunk_def end_of_chunks_def Let_def wf_headers_remove wf_headers_length
      split: if_splits poll.splits result.splits option.splits prod.splits dest: read_trailers_wf)

lemma poll_chunk_data_headers: "poll_chunk_data c = (y, c') \<Longrightarrow> ck_headers c' = ck_headers c"
  by (auto simp: poll_chunk_data_def Let_def split: if_splits poll.splits option.splits result.splits prod.splits)

lemma read_chunked_wf:
  assumes "read_chunked b pre m c = (y, c')" "wf_headers (ck_headers c)"
  shows "wf_headers (ck_headers c')"
proof -
  from assms(1) consider "c' = c" | "begin_chunk b pre m c = Inl (y, c')"
    | c1 where "begin_chunk b pre m c = Inr c1" "poll_chunk_data c1 = (y, c')" | "poll_chunk_data c = (y, c')"
    by (auto simp: read_chunked_def split: if_splits sum.splits)
  then show ?thesis
  proof cases
    case 2
    then show ?thesis using begin_chunk_wf(1) [OF assms(2)] by blast
  next
    case (3 c1)
    then show ?thesis using begin_chunk_wf(2) [OF assms(2)] poll_chunk_data_headers assms(2) by metis
  qed (use assms(2) poll_chunk_data_headers in auto)
qed

lemma lazy_poll_next_wf:
  assumes "lazy_poll_next b r = (y, r')" "wf_lazy r"
  shows "wf_lazy r'"
  using assms read_chunked_wf
  by (fastforce simp: lazy_poll_next_def wf_lazy_def Let_def split: stream_state.splits prod.splits)

lemma lazy_next_wf: "lazy_next b r = (y, r') \<Longrightarrow> wf_lazy r \<Longrightarrow> wf_lazy r'"
proof (induction b r arbitrary: y r' rule: lazy_next.induct)
  case (1 b r)
  obtain z r1 where z: "lazy_poll_next b r = (z, r1)" by fastforce
  then have "wf_lazy r1" using "1.prems"(2) by (rule lazy_poll_next_wf)
  then show ?case using "1.IH" [OF z [symmetric]] "1.prems"(1) z
    by (auto simp: lazy_next.simps [of b r] split: poll.splits if_splits)
qed

lemma drain_wf: "drain b r body = Ready (Ok (body', r')) \<Longrightarrow> wf_lazy r \<Longrightarrow> wf_lazy r'"
proof (induction b r body rule: drain.induct)
  case (1 b r body)
  obtain y r1 where y: "lazy_next b r = (y, r1)" by fastforce
  then have "wf_lazy r1" using "1.prems"(2) by (rule lazy_next_wf)
  then show ?case using "1.IH" [OF y [symmetric]] "1.prems"(1) y
    by (auto simp: drain.simps [of b r] split: poll.splits option.splits result.splits)
qed

lemma create_wf: "create b r h = Ready (Ok resp) \<Longrightarrow> wf_lazy r \<Longrightarrow> wf_response resp"
  by (auto simp: create_def wf_response_def wf_lazy_def [symmetric] dest!: drain_wf
      split: if_splits poll.splits result.splits prod.splits) (auto simp: wf_lazy_def)

section \<open>Sending\<close>

lemma exchange_http_wf: "exchange_http x c w = (Ready (Ok r), w') \<Longrightarrow> wf_lazy r"
  by (auto simp: exchange_http_def read_head_def suspend_Ready Let_def split: prod.splits poll.splits result.splits
      dest: from_stream_wf)

interpretation wf_send: sending x "\<lambda>_. True" "\<lambda>_. True" "\<lambda>r. \<forall>resp. r = Ready (Ok resp) \<longrightarrow> wf_lazy resp" "\<lambda>_. True" for x
proof unfold_locales
  show "((\<forall>resp. r = Ready (Ok resp) \<longrightarrow> wf_lazy resp) \<or> r = Pending \<and> c_timeout_at c \<noteq> None) \<and> True"
    if "exchange_http x c w = (r, w')" for c w r w'
    using exchange_http_wf that by blast
  show "((\<forall>resp. r = Ready (Ok resp) \<longrightarrow> wf_lazy resp) \<or> r = Pending \<and> c_timeout_at c \<noteq> None) \<and> True"
    if "exchange_https x be c w = (r, w')" for be c w r w'
    using exchange_https_no_response [of x be c w] that by simp
qed (auto simp: wf_lazy_def)

lemma request_send_lazy_wf: "request_send_lazy x req w = (Ready (Ok r), w') \<Longrightarrow> wf_lazy r"
  using wf_send.request_send_lazy_keeps [of x req w "Ready (Ok r)" w'] by simp

end
