(* ===== verification/Injection_Spec.thy ===== *)
theory Injection_Spec
  imports Type_Spec Request_Properties
begin

text \<open>
  No server can add a line to a later request. A redirect takes its target from a header line, so the
  target has no line feed; parsing, host conversion and the base of a relative target add none; and of
  the rest of a request only the method changes, to GET. Every request that is written is therefore a prefix
  of a printed request whose head is cut at its line feeds into the lines it is meant to have.
\<close>

section \<open>URLs\<close>

definition lf_free_url :: "http_url \<Rightarrow> bool" where
  "lf_free_url u \<longleftrightarrow> LF \<notin> set (host u) \<and> LF \<notin> set (path_and_query u)"

lemma strip_scheme_set: "strip_scheme url = Some (rest, sec) \<Longrightarrow> set rest \<subseteq> set url"
  by (auto simp: strip_scheme_def strip_prefix_Some split: option.splits)

lemma split_port_set: "set (snd (split_port s)) \<subseteq> set s"
  by (auto simp: split_port_def split: list.splits dest: set_dropWhileD)

lemma url_split_set:
  assumes "url_split r = (h, p, path, frag)"
  shows "set h \<subseteq> set r" "set path \<subseteq> set r"
proof -
  obtain q res where sp: "split_port (dropWhile host_char r) = (q, res)" by fastforce
  then have "set res \<subseteq> set r" using split_port_set [of "dropWhile host_char r"] by (auto dest: set_dropWhileD)
  moreover have "h = takeWhile host_char r" "path = takeWhile (\<lambda>c. c \<noteq> 35) res" using assms sp by (auto simp: url_split_def)
  ultimately show "set h \<subseteq> set r" "set path \<subseteq> set r" by (auto dest: set_takeWhileD)
qed

lemma encode_resource_LF: "LF \<notin> set s \<Longrightarrow> LF \<notin> set (encode_resource cf s)"
proof (cases "feat_urlencoding cf")
  case True
  have "\<not> url_safe 10" by (simp add: url_safe_def rust_defs)
  then show ?thesis using encode_resource_set [OF True, of 10 s] by auto
qed simp

lemma parse_lf_free:
  assumes "parse cf url from = Ok u" "LF \<notin> set url"
  shows "lf_free_url u"
proof -
  obtain rest sec where s: "strip_scheme url = Some (rest, sec)"
    using assms(1) by (auto simp: parse_eq_split split: option.splits)
  obtain h p path frag where sp: "url_split rest = (h, p, path, frag)" by (cases "url_split rest") auto
  have "LF \<notin> set h" "LF \<notin> set path" using strip_scheme_set [OF s] url_split_set [OF sp] assms(2) by blast+
  then show ?thesis using assms(1) s sp
    by (cases "path = []") (auto simp: parse_eq_split lf_free_url_def encode_resource_LF)
qed

lemma write_base_url_to_LF: "lf_free_url u \<Longrightarrow> LF \<notin> set (write_base_url_to u [])"
proof -
  have "10 \<notin> set (show_nat k)" for k using show_nat_digits [of 10 k] by auto
  then show "lf_free_url u \<Longrightarrow> LF \<notin> set (write_base_url_to u [])"
    by (auto simp: write_base_url_to_def lf_free_url_def str_def split: port.splits)
qed

lemma redirect_to_lf_free:
  assumes "redirect_to cf url r = (r', Ok v)" "LF \<notin> set url" "lf_free_url (pr_url r)"
  shows "lf_free_url (pr_url r')"
proof -
  obtain u where u: "r' = push_redirect u r"
    "parse cf (if contains url (str ''://'') then url else write_base_url_to (pr_url r) [] @ url) (Some (pr_url r)) = Ok u"
    using assms(1) by (elim redirect_to_Ok) blast
  have "lf_free_url u" by (rule parse_lf_free [OF u(2)]) (use assms(2,3) write_base_url_to_LF in auto)
  then show ?thesis using u(1) by (simp add: push_redirect_def)
qed

section \<open>Connections\<close>

text \<open>What a redirect keeps of a request, whichever host it leads to.\<close>

definition same_payload :: "request \<Rightarrow> request \<Rightarrow> bool" where
  "same_payload q q' \<longleftrightarrow> req_headers q' = req_headers q \<and> req_body q' = req_body q
     \<and> (req_method q' = req_method q \<or> req_method q' = Get)"

text \<open>What is relied on: the \<open>punycode\<close> crate yields letters, digits and hyphens, and hash maps are iterated completely.\<close>

definition plain_crates :: "externals \<Rightarrow> bool" where
  "plain_crates x \<longleftrightarrow> hash_order (x_iter x) \<and> (\<forall>s p. x_punycode x s = Ok p \<longrightarrow> LF \<notin> set p)"

lemma punycode_labels_LF:
  "punycode_labels enc ss acc = Ok h \<Longrightarrow> \<forall>s p. enc s = Ok p \<longrightarrow> LF \<notin> set p \<Longrightarrow> LF \<notin> set acc
     \<Longrightarrow> \<forall>s\<in>set ss. LF \<notin> set s \<Longrightarrow> LF \<notin> set h"
proof (induction ss arbitrary: acc)
  case (Cons s ss)
  have "LF \<notin> set (str ''xn--'')" "LF \<notin> set (str ''.'')" by (simp_all add: str_def)
  then show ?case using Cons.IH [of "acc @ s @ str ''.''"] Cons.IH [of "acc @ str ''xn--'' @ _ @ str ''.''"] Cons.prems
    by (auto split: if_splits result.splits)
qed simp

lemma ensure_ascii_host_LF:
  assumes "ensure_ascii_host cf enc h = Ok h'" "\<forall>s p. enc s = Ok p \<longrightarrow> LF \<notin> set p" "LF \<notin> set h"
  shows "LF \<notin> set h'"
proof (cases "is_ascii h")
  case True
  then show ?thesis using assms(1,3) by (simp add: ensure_ascii_host_def)
next
  case False
  then obtain r where r: "punycode_labels enc (split_char 46 h) [] = Ok r" "h' = butlast r"
    using assms(1) by (cases "punycode_labels enc (split_char 46 h) []") (auto simp: ensure_ascii_host_def split: if_splits)
  have "\<forall>s\<in>set (split_char 46 h). LF \<notin> set s" using split_char_parts assms(3) by blast
  then show ?thesis using punycode_labels_LF [OF r(1) assms(2)] r(2) by (auto dest: in_set_butlastD)
qed

lemma lf_free_iff:
  "lf_free r \<longleftrightarrow> lf_free_url (pr_url r) \<and> LF \<notin> set (method_fmt (req_method (pr_config r)))
     \<and> (\<forall>(k, v)\<in>set (req_headers (pr_config r)). LF \<notin> set k \<and> LF \<notin> set v)"
  by (auto simp: lf_free_def lf_free_url_def)

lemma with_ascii_host_lf_free:
  assumes "with_ascii_host x c = Ok ca" "plain_crates x" "lf_free (c_request c)"
  shows "lf_free (c_request ca) \<and> conn_config ca = conn_config c"
  using assms ensure_ascii_host_LF
  by (elim with_ascii_host_Ok) (auto simp: lf_free_def plain_crates_def)

lemma get_redirect_lf_free:
  assumes "get_redirect cf c code loc = Redirect (Ok c')" "\<forall>u. loc = Some u \<longrightarrow> LF \<notin> set u" "lf_free (c_request c)"
  shows "lf_free (c_request c') \<and> same_payload (conn_config c) (conn_config c')"
proof -
  obtain u r where u: "loc = Some u" "redirect_to cf u (c_request c) = (r, Ok ())" "conn_url c' = pr_url r"
    using assms(1)
    by (auto simp: get_redirect_def Let_def split: if_splits option.splits prod.splits result.splits)
  have "lf_free_url (pr_url r)"
    using redirect_to_lf_free [OF u(2)] assms(2,3) u(1) by (simp add: lf_free_iff)
  moreover have "LF \<notin> set (method_fmt Get)" by (simp add: str_def)
  ultimately show ?thesis using get_redirect_Redirect(5) [OF assms(1)] assms(3) u(3)
    by (auto simp: same_config_def same_payload_def lf_free_iff)
qed

section \<open>What is written\<close>

lemma write_all_prefix: "write_all ws bs = (r, out, ws') \<Longrightarrow> prefix out bs"
proof (induction ws bs arbitrary: r out ws' rule: write_all.induct)
  case (5 n es b bs)
  show ?case
  proof (cases "n = 0")
    case False
    then obtain out' where o: "out = take n (b # bs) @ out'" "prefix out' (drop n (b # bs))"
      using 5 by (auto split: prod.splits)
    then show ?thesis by (metis append_take_drop_id same_prefix_prefix)
  qed (use 5 in auto)
qed auto

lemma try_write_loop_prefix: "try_write_loop ws bs = Ready (Ok out) \<Longrightarrow> prefix out bs"
  by (induction ws bs rule: try_write_loop.induct) (auto simp: take_is_prefix split: if_splits)

text \<open>Bytes that are written for a request: a prefix of its printed form, whose head has its lines.\<close>

definition written :: "externals \<Rightarrow> request \<Rightarrow> u8 list \<Rightarrow> bool" where
  "written x q out \<longleftrightarrow> (\<exists>r. prefix out (as_bytes (x_iter x) r) \<and> lf_free r \<and> same_payload q (pr_config r))"

definition wrote_only :: "externals \<Rightarrow> request \<Rightarrow> u8 list list \<Rightarrow> world \<Rightarrow> bool" where
  "wrote_only x q base w \<longleftrightarrow> (\<exists>outs. requests w = base @ outs \<and> (\<forall>out\<in>set outs. written x q out))"

lemma wrote_only_cong: "requests w' = requests w \<Longrightarrow> wrote_only x q base w' = wrote_only x q base w"
  by (simp add: wrote_only_def)

lemma wrote_only_snoc:
  assumes "wrote_only x q base w" "requests w' = requests w @ [out]" "written x q out"
  shows "wrote_only x q base w'"
proof -
  obtain outs where "requests w = base @ outs" "\<forall>out\<in>set outs. written x q out" using assms(1) by (auto simp: wrote_only_def)
  then have "requests w' = base @ (outs @ [out])" "\<forall>o'\<in>set (outs @ [out]). written x q o'" using assms(2,3) by auto
  then show ?thesis unfolding wrote_only_def by blast
qed

definition sends_lines :: "externals \<Rightarrow> request \<Rightarrow> connection \<Rightarrow> bool" where
  "sends_lines x q c \<longleftrightarrow> lf_free (c_request c) \<and> same_payload q (conn_config c)"

lemma exchange_http_written:
  assumes "sends_lines x q c" "wrote_only x q base w" "exchange_http x c w = (r, w')"
  shows "wrote_only x q base w'"
proof -
  obtain t w1 where t: "connection_connect x c w = (t, w1)" by fastforce
  then have w1: "requests w1 = requests w" using connection_connect_requests [of x c w] by simp
  then have k: "wrote_only x q base w1" using assms(2) wrote_only_cong by blast
  have "written x q out" if "try_write_loop ws (as_bytes (x_iter x) (c_request c)) = Ready (Ok out)" for ws out
    using try_write_loop_prefix [OF that] assms(1) by (auto simp: written_def sends_lines_def)
  then show ?thesis using assms(3) t k
    by (auto simp: exchange_http_def Let_def suspend_def wrote_only_snoc split: poll.splits result.splits if_splits)
qed

lemma exchange_https_written:
  assumes "sends_lines x q c" "wrote_only x q base w" "exchange_https x be c w = (r, w')"
  shows "wrote_only x q base w'"
proof -
  let ?bs = "as_bytes (x_iter x) (c_request c)"
  have written: "written x q out" if "write_all ws ?bs = (res, out, ws')" for ws res out ws'
    using write_all_prefix [OF that] assms(1) by (auto simp: written_def sends_lines_def)
  have tls: "wrote_only x q base (snd (exchange_tls x client c ?bs tcp v))" if "wrote_only x q base v" for client tcp v
  proof -
    have "requests (snd (exchange_tls x client c ?bs tcp v)) = requests v
      \<or> (\<exists>ws res out ws'. write_all ws ?bs = (res, out, ws') \<and> requests (snd (exchange_tls x client c ?bs tcp v)) = requests v @ [out])"
      by (auto simp: exchange_tls_def suspend_def Let_def split: option.splits prod.splits poll.splits result.splits if_splits)
    then show ?thesis using that written wrote_only_snoc wrote_only_cong by blast
  qed
  obtain s w0 where s: "tls_setup x be c w = (s, w0)" by fastforce
  obtain t w1 where t: "connection_connect x c w0 = (t, w1)" by fastforce
  have "requests w0 = requests w" "requests w1 = requests w0"
    using s t tls_setup_requests [of x be c w] connection_connect_requests [of x c w0] by simp_all
  then have "wrote_only x q base w0" "wrote_only x q base w1" using assms(2) wrote_only_cong by metis+
  then show ?thesis using assms(3) s t tls
    by (auto simp: exchange_https_def Let_def split: poll.splits result.splits) (metis snd_conv)+
qed

lemma location_LF: "wf_lazy r \<Longrightarrow> hm_get (lz_headers r) k = Some v \<Longrightarrow> LF \<notin> set v"
  by (auto simp: wf_lazy_def wf_headers_def line_text_def hm_get_eq dest!: map_of_SomeD)

interpretation line_send: sending x "\<lambda>c. plain_crates x \<longrightarrow> sends_lines x q c" "\<lambda>c. plain_crates x \<longrightarrow> sends_lines x q c"
  "\<lambda>r. \<forall>resp. r = Ready (Ok resp) \<longrightarrow> wf_lazy resp" "\<lambda>w. plain_crates x \<longrightarrow> wrote_only x q base w" for x q base
proof unfold_locales
  show "plain_crates x \<longrightarrow> sends_lines x q ca" if "plain_crates x \<longrightarrow> sends_lines x q c" "with_ascii_host x c = Ok ca" for c ca
    using that with_ascii_host_lf_free by (fastforce simp: sends_lines_def)
  show "((\<forall>resp. r = Ready (Ok resp) \<longrightarrow> wf_lazy resp) \<or> r = Pending \<and> c_timeout_at c \<noteq> None)
      \<and> (plain_crates x \<longrightarrow> wrote_only x q base w')"
    if "plain_crates x \<longrightarrow> sends_lines x q c" "plain_crates x \<longrightarrow> wrote_only x q base w" "exchange_http x c w = (r, w')"
    for c w r w'
    using that exchange_http_written exchange_http_wf by blast
  show "((\<forall>resp. r = Ready (Ok resp) \<longrightarrow> wf_lazy resp) \<or> r = Pending \<and> c_timeout_at c \<noteq> None)
      \<and> (plain_crates x \<longrightarrow> wrote_only x q base w')"
    if "plain_crates x \<longrightarrow> sends_lines x q c" "plain_crates x \<longrightarrow> wrote_only x q base w" "exchange_https x be c w = (r, w')"
    for c w be r w'
    using that exchange_https_written exchange_https_no_response [of x be c w] by (metis fst_conv)
  show "plain_crates x \<longrightarrow> sends_lines x q c'"
    if "plain_crates x \<longrightarrow> sends_lines x q c" "\<forall>r. Ready (Ok resp) = Ready (Ok r) \<longrightarrow> wf_lazy r"
      "get_redirect (x_cfg x) c (lz_status_code resp) (hm_get (lz_headers resp) (str ''location'')) = Redirect (Ok c')"
    for c resp c'
    using that(1) get_redirect_lf_free [OF that(3)] location_LF that(2) by (auto simp: sends_lines_def same_payload_def)
qed (auto simp: wf_lazy_def wrote_only_def)

text \<open>A request whose parts have no line feed.\<close>

definition lf_free_request :: "request \<Rightarrow> bool" where
  "lf_free_request req \<longleftrightarrow> LF \<notin> set (method_fmt (req_method req)) \<and> LF \<notin> set (req_url req) \<and> LF \<notin> set (req_params req)
     \<and> (\<forall>(k, v)\<in>set (req_headers req). LF \<notin> set k \<and> LF \<notin> set v)"

lemma parsed_request_lf_free:
  assumes "parsed_request_new cf env req = Ok pr" "lf_free_request req"
  shows "lf_free pr" "same_payload req (pr_config pr)"
proof -
  obtain u where u: "parse cf (req_url req) None = Ok u" "pr_url pr = append_params (req_params req) u"
    using assms(1) by (cases "parse cf (req_url req) None") (auto simp: parsed_request_new_def Let_def)
  have "lf_free_url u" using parse_lf_free [OF u(1)] assms(2) by (simp add: lf_free_request_def)
  then have "lf_free_url (pr_url pr)" using assms(2) u(2)
    by (auto simp: append_params_def lf_free_url_def lf_free_request_def str_def)
  moreover show "same_payload req (pr_config pr)" using assms(1)
    by (cases "parse cf (req_url req) None")
      (auto simp: same_payload_def parsed_request_new_def default_proxy_def set_env_proxy_def Let_def split: option.splits result.splits)
  ultimately show "lf_free pr"
    using assms(2) parsed_request_config(3) [OF assms(1)] by (auto simp: lf_free_iff lf_free_request_def same_payload_def)
qed

lemma request_send_lazy_written:
  assumes "plain_crates x" "lf_free_request req"
  shows "wrote_only x req (requests w) (snd (request_send_lazy x req w))"
proof -
  obtain r w' where r: "request_send_lazy x req w = (r, w')" by fastforce
  have start: "wrote_only x req (requests w) w" by (simp add: wrote_only_def)
  have "sends_lines x req c"
    if "parsed_request_new (x_cfg x) (x_env x) req = Ok pr" "connection_new x w pr = Ready c" for pr c
  proof -
    have "c_request c = pr" using that(2)
      by (auto simp: connection_new_def instant_add_def Let_def split: option.splits if_splits)
    then show ?thesis using parsed_request_lf_free [OF that(1) assms(2)] by (simp add: sends_lines_def)
  qed
  then show ?thesis
    using line_send.request_send_lazy_keeps [of x req w req "requests w" r w'] start assms(1) r by auto
qed

end
