(* ===== verification/Error_Spec.thy ===== *)
theory Error_Spec
  imports Progress_Spec
begin

text \<open>
  The errors that sending a request can return, function by function from the line readers up, and
  by the rule for sending for the whole: which variants of \<open>Error\<close> a caller has to expect, by the
  features of the build, and which never occur.
\<close>

section \<open>Reading\<close>

text \<open>Errors of the line readers, with the one their caller gives for a line that is too long.\<close>

definition line_error :: "error \<Rightarrow> error \<Rightarrow> bool" where
  "line_error overflow e \<longleftrightarrow> e = overflow \<or> e = InvalidUtf8InResponse \<or> (\<exists>io. e = IoError io)"

lemma finish_line_Err: "finish_line acc = Err e \<Longrightarrow> e = InvalidUtf8InResponse"
  by (auto simp: finish_line_def split: result.splits)

lemma push_bytes_capped_Err: "push_bytes_capped m overflow bs acc = Err e \<Longrightarrow> e = overflow"
  by (induction bs arbitrary: acc) (auto split: if_splits)

lemma line_loop_async_Err: "line_loop_async m overflow acc s = (Ready (Err e), s') \<Longrightarrow> line_error overflow e"
proof (induction m overflow acc s rule: line_loop_async.induct)
  case (1 m overflow acc s)
  obtain y s1 where y: "next_await s = (y, s1)" by fastforce
  show ?case
  proof (cases "\<exists>chunk acc1. y = Ready (Some (Ok chunk)) \<and> push_bytes_capped m overflow chunk acc = Ok acc1 \<and> new_line_flag acc1")
    case True
    then show ?thesis using "1.IH" "1.prems" y by (subst (asm) (2) line_loop_async.simps) auto
  next
    case False
    then show ?thesis using "1.prems" y
      by (subst (asm) line_loop_async.simps)
        (auto simp: line_error_def dest: push_bytes_capped_Err split: poll.splits option.splits result.splits if_splits)
  qed
qed

lemma read_line_async_Err: "read_line_async m overflow pre s = (Ready (Err e), s') \<Longrightarrow> line_error overflow e"
  by (auto simp: read_line_async_def Let_def line_error_def dest!: push_bytes_capped_Err finish_line_Err
      dest: line_loop_async_Err [unfolded line_error_def]
      split: result.splits prod.splits poll.splits if_splits)

lemma line_loop_Err: "line_loop m overflow acc s = (Ready (Err e), s') \<Longrightarrow> line_error overflow e"
proof (induction m overflow acc s rule: line_loop.induct)
  case (1 m overflow acc s)
  obtain y s1 where y: "poll_next s = (y, s1)" by fastforce
  show ?case
  proof (cases "\<exists>chunk. y = Ready (Some (Ok chunk)) \<and> \<not> over_cap m acc \<and> new_line_flag (fold push_byte chunk acc)")
    case True
    then show ?thesis using "1.IH" "1.prems" y by (subst (asm) (2) line_loop.simps) auto
  next
    case False
    then show ?thesis using "1.prems" y
      by (subst (asm) line_loop.simps)
        (auto simp: line_error_def Let_def split: poll.splits option.splits result.splits if_splits)
  qed
qed

lemma read_line_Err: "read_line m overflow pre s = (Ready (Err e), s') \<Longrightarrow> line_error overflow e"
  by (auto simp: read_line_def Let_def line_error_def dest!: finish_line_Err dest: line_loop_Err [unfolded line_error_def]
      split: result.splits prod.splits poll.splits if_splits)

text \<open>Errors of a head, and of a body.\<close>

definition head_error :: "error \<Rightarrow> bool" where
  "head_error e \<longleftrightarrow> line_error HeadersOverflow e \<or> e = StatusLineOverflow \<or> e = MalformedContentLength"

definition body_error :: "error \<Rightarrow> bool" where
  "body_error e \<longleftrightarrow> line_error HeadersOverflow e \<or> e = MalformedChunkLength"

lemma header_loop_Err: "header_loop b cap tr h s = (Ready (Err e), s') \<Longrightarrow> line_error HeadersOverflow e"
proof (induction b cap tr h s rule: header_loop.induct)
  case (1 b cap tr h s)
  obtain y s1 where y: "read_line_async cap HeadersOverflow tr s = (y, s1)" by fastforce
  show ?case using "1.prems"
    by (subst (asm) header_loop.simps) (use y "1.IH" in \<open>auto dest: read_line_async_Err split: poll.splits result.splits prod.splits if_splits option.splits\<close>)
qed

lemma from_stream_Err: "from_stream b iter cap scap s = Ready (Err e) \<Longrightarrow> head_error e"
  by (auto simp: from_stream_def read_metadata_def head_error_def Let_def
      dest!: read_line_async_Err header_loop_Err scan_headers_Err simp: line_error_def
      split: poll.splits result.splits prod.splits)

lemma read_trailers_Err: "read_trailers b s h cap tr = (Ready (Err e), s', h') \<Longrightarrow> line_error HeadersOverflow e"
proof (induction b s h cap tr rule: read_trailers.induct)
  case (1 b s h cap tr)
  obtain y s1 where y: "read_line cap HeadersOverflow tr s = (y, s1)" by fastforce
  show ?case using "1.prems"
    by (subst (asm) read_trailers.simps) (use y "1.IH" in \<open>auto dest: read_line_Err split: poll.splits result.splits prod.splits option.splits\<close>)
qed

lemma read_chunked_Err:
  assumes "read_chunked b pre cap c = (Ready (Some (Err e)), c')"
  shows "body_error e"
proof -
  have "body_error e" if "poll_chunk_data c1 = (Ready (Some (Err e)), c2)" for c1 c2
    using that by (auto simp: poll_chunk_data_def Let_def body_error_def line_error_def
        split: prod.splits poll.splits option.splits result.splits if_splits)
  moreover have "body_error e" if "begin_chunk b pre cap c = Inl (Ready (Some (Err e)), c1)" for c1
    using that by (auto simp: begin_chunk_def Let_def body_error_def dest!: read_line_Err read_trailers_Err simp: line_error_def
        split: prod.splits poll.splits option.splits result.splits if_splits)
  ultimately show ?thesis using assms by (auto simp: read_chunked_def split: if_splits sum.splits)
qed

lemma lazy_poll_next_Err:
  assumes "lazy_poll_next b r = (Ready (Some (Err e)), r')"
  shows "body_error e"
  using assms
  by (auto simp: lazy_poll_next_def read_until_closed_def read_with_content_length_def process_prefix_def Let_def
      body_error_def line_error_def dest!: read_chunked_Err [unfolded body_error_def line_error_def]
      split: stream_state.splits prod.splits poll.splits option.splits result.splits if_splits)

lemma lazy_next_Err: "lazy_next b r = (Ready (Some (Err e)), r') \<Longrightarrow> body_error e"
proof (induction b r rule: lazy_next.induct)
  case (1 b r)
  obtain y r1 where y: "lazy_poll_next b r = (y, r1)" by fastforce
  show ?case using "1.prems"
    by (subst (asm) lazy_next.simps) (use y "1.IH" in \<open>auto dest: lazy_poll_next_Err split: poll.splits if_splits\<close>)
qed

lemma drain_Err: "drain b r body = Ready (Err e) \<Longrightarrow> body_error e"
proof (induction b r body rule: drain.induct)
  case (1 b r body)
  obtain y r1 where y: "lazy_next b r = (y, r1)" by fastforce
  show ?case using "1.prems"
    by (subst (asm) drain.simps) (use y "1.IH" in \<open>auto dest: lazy_next_Err split: poll.splits option.splits result.splits\<close>)
qed

lemma create_Err: "create b r h = Ready (Err e) \<Longrightarrow> body_error e"
  by (auto simp: create_def dest: drain_Err split: poll.splits result.splits if_splits)

section \<open>Connecting\<close>

lemma try_addrs_Err:
  "try_addrs x c addrs w = (Ready (Err e), w') \<Longrightarrow> e = AddressNotFound \<or> (\<exists>io. e = IoError io)"
  by (induction addrs arbitrary: w)
    (auto simp: map_err_Err_iff split: result.splits prod.splits poll.splits if_splits)

lemma tcp_connect_Err:
  "tcp_connect x c h p w = (Ready (Err e), w') \<Longrightarrow> e = AddressNotFound \<or> (\<exists>io. e = IoError io)"
  by (auto simp: tcp_connect_def Let_def dest: try_addrs_Err split: result.splits)

text \<open>The answer of a proxy fills at least one buffer, so it has a first line.\<close>

lemma proxy_read_nonempty: "proxy_read es acc = (Ready (Ok bs), es') \<Longrightarrow> bs \<noteq> []"
proof (induction es acc rule: proxy_read.induct)
  case (1 es acc)
  obtain y es1 where y: "read_some 256 es = (y, es1)" by fastforce
  show ?case using "1.prems"
    by (subst (asm) proxy_read.simps) (use y "1.IH" in \<open>auto simp: Let_def split: poll.splits result.splits if_splits\<close>)
qed

lemma from_utf8_lossy_nonempty: "bs \<noteq> [] \<Longrightarrow> from_utf8_lossy bs \<noteq> []"
  by (subst from_utf8_lossy.simps) (auto split: utf8_step.splits)

lemma verify_response_Err: "verify_response bs = Err e \<Longrightarrow> bs \<noteq> [] \<Longrightarrow> e = BadProxy \<or> e = InvalidProxyCreds"
  using from_utf8_lossy_nonempty [of bs]
  by (cases "first_line (from_utf8_lossy bs)")
    (auto simp: verify_response_def first_line_def Let_def split: list.splits if_splits)

definition connect_error :: "externals \<Rightarrow> request \<Rightarrow> error \<Rightarrow> bool" where
  "connect_error x config e \<longleftrightarrow> e = AddressNotFound \<or> (\<exists>io. e = IoError io)
     \<or> (e = BadProxy \<or> e = InvalidProxyCreds) \<and> feat_proxy (x_cfg x) \<and> req_proxy config \<noteq> None"

lemma proxy_exchange_Err:
  "proxy_exchange x c p tcp w = (Ready (Err e), w') \<Longrightarrow> (\<exists>io. e = IoError io) \<or> e = BadProxy \<or> e = InvalidProxyCreds"
  by (auto simp: proxy_exchange_def Let_def dest!: verify_response_Err proxy_read_nonempty
      split: prod.splits poll.splits result.splits)

lemma suspend_Err: "suspend c t o1 = (Ready (Err e), w') \<Longrightarrow> o1 = (Ready (Err e), snd o1)"
  by (cases o1) (simp add: suspend_Ready)

lemma connection_connect_Err:
  "connection_connect x c w = (Ready (Err e), w') \<Longrightarrow> connect_error x (conn_config c) e"
  by (auto simp: connection_connect_def connect_error_def Let_def dest!: tcp_connect_Err suspend_Err proxy_exchange_Err
      split: if_splits option.splits prod.splits poll.splits result.splits)

section \<open>Sending\<close>

text \<open>
  What a caller has to expect of a request, in a build: an I/O error, a malformed or oversized
  response, redirects that do not end, a host or a scheme the build cannot handle, a proxy that refuses.
\<close>

definition send_error :: "externals \<Rightarrow> request \<Rightarrow> error \<Rightarrow> bool" where
  "send_error x config e \<longleftrightarrow> head_error e \<or> body_error e \<or> connect_error x config e
     \<or> e \<in> {RedirectLocationMissing, TooManyRedirections, InfiniteRedirectionLoop}
     \<or> e = HttpsFeatureNotEnabled \<and> feat_tls (x_cfg x) = None
     \<or> e = PunycodeFeatureNotEnabled \<and> \<not> feat_punycode (x_cfg x)
     \<or> e = PunycodeConversionFailed \<and> feat_punycode (x_cfg x)"

lemma send_error_io [simp]: "send_error x config (IoError io)"
  by (simp add: send_error_def connect_error_def)

lemma exchange_http_Err:
  "exchange_http x c w = (Ready (Err e), w') \<Longrightarrow> head_error e \<or> connect_error x (conn_config c) e"
  by (auto simp: exchange_http_def read_head_def suspend_Ready Let_def head_error_def line_error_def
      dest!: connection_connect_Err from_stream_Err [unfolded head_error_def line_error_def]
      split: prod.splits poll.splits result.splits)

lemma exchange_https_Err:
  assumes "exchange_https x be c w = (Ready (Err e), w')"
  shows "head_error e \<or> connect_error x (conn_config c) e"
proof -
  have t: "\<exists>io. e = IoError io" if "tls_setup x be c w = (Ready (Err e), w1)" for w1
    using that by (auto simp: tls_setup_def other_io_error_def split: tls_backend.splits result.splits poll.splits)
  have "head_error e" if "exchange_tls x client c bytes tcp v = (Ready (Err e), v')" for client bytes tcp v v'
    using that by (auto simp: exchange_tls_def suspend_Ready read_head_def handshake_error_to_def other_io_error_def Let_def head_error_def
        line_error_def dest!: from_stream_Err [unfolded head_error_def line_error_def]
        split: option.splits prod.splits poll.splits result.splits tls_client.splits)
  then show ?thesis using assms t
    by (auto simp: exchange_https_def Let_def connect_error_def dest!: connection_connect_Err [unfolded connect_error_def]
        split: prod.splits poll.splits result.splits)
qed

lemma with_ascii_host_Err:
  "with_ascii_host x c = Err e \<Longrightarrow> e = (if feat_punycode (x_cfg x) then PunycodeConversionFailed else PunycodeFeatureNotEnabled)"
  by (cases "ensure_ascii_host (x_cfg x) (x_punycode x) (host (conn_url c))")
    (auto simp: with_ascii_host_def ensure_ascii_host_Err Let_def split: if_splits)

lemma get_redirect_Err:
  assumes "get_redirect cf c code loc = Redirect (Err e)"
  shows "(\<exists>io. e = IoError io) \<or> e \<in> {RedirectLocationMissing, TooManyRedirections, InfiniteRedirectionLoop}"
proof -
  have "(\<exists>io. e = IoError io) \<or> e \<in> {TooManyRedirections, InfiniteRedirectionLoop}"
    if "redirect_to cf url r = (r', Err e)" for url r r'
    using that by (auto simp: redirect_to_def check_redirects_def invalid_protocol_error_def Let_def map_err_Err_iff
        dest: parse_Err split: result.splits if_splits)
  then show ?thesis using assms
    by (auto simp: get_redirect_def Let_def split: if_splits option.splits prod.splits result.splits)
qed

text \<open>Of a connection, only the proxy bears on the errors, and redirects keep it.\<close>

interpretation error_send: sending x "\<lambda>c. req_proxy (conn_config c) = p" "\<lambda>c. req_proxy (conn_config c) = p"
  "\<lambda>r. \<forall>e. r = Ready (Err e) \<longrightarrow> send_error x (config\<lparr>req_proxy := p\<rparr>) e" "\<lambda>_. True" for x p config
proof unfold_locales
  have c: "send_error x (config\<lparr>req_proxy := p\<rparr>) e"
    if "head_error e \<or> connect_error x (conn_config c) e" "req_proxy (conn_config c) = p" for c e
    using that by (auto simp: send_error_def connect_error_def)
  show "req_proxy (conn_config ca) = p" if "req_proxy (conn_config c) = p" "with_ascii_host x c = Ok ca" for c ca
    using that by (auto elim: with_ascii_host_Ok)
  show "((\<forall>e. r = Ready (Err e) \<longrightarrow> send_error x (config\<lparr>req_proxy := p\<rparr>) e) \<or> r = Pending \<and> c_timeout_at c \<noteq> None) \<and> True"
    if "req_proxy (conn_config c) = p" "exchange_http x c w = (r, w')" for c w r w'
    using that c exchange_http_Err by blast
  show "((\<forall>e. r = Ready (Err e) \<longrightarrow> send_error x (config\<lparr>req_proxy := p\<rparr>) e) \<or> r = Pending \<and> c_timeout_at c \<noteq> None) \<and> True"
    if "req_proxy (conn_config c) = p" "exchange_https x be c w = (r, w')" for c w be r w'
    using that c exchange_https_Err by blast
  show "req_proxy (conn_config c') = p" if "req_proxy (conn_config c) = p"
    "get_redirect (x_cfg x) c (lz_status_code resp) (hm_get (lz_headers resp) (str ''location'')) = Redirect (Ok c')" for c resp c'
    using get_redirect_Redirect(5) [OF that(2)] that(1) by (auto simp: same_config_def)
  show "\<forall>e'. Ready (Err e) = Ready (Err e') \<longrightarrow> send_error x (config\<lparr>req_proxy := p\<rparr>) e'"
    if "get_redirect (x_cfg x) c code loc = Redirect (Err e)" for c code loc e
    using get_redirect_Err [OF that] by (auto simp: send_error_def connect_error_def)
qed (auto dest!: with_ascii_host_Err simp: send_error_def connect_error_def split: if_splits)

lemma request_send_lazy_Err:
  assumes "request_send_lazy x req w = (Ready (Err e), w')"
  shows "(\<exists>io. e = IoError io) \<or> (\<exists>pr. parsed_request_new (x_cfg x) (x_env x) req = Ok pr \<and> send_error x (pr_config pr) e)"
proof (cases "parsed_request_new (x_cfg x) (x_env x) req")
  case (Ok pr)
  have "c_request c = pr" if "connection_new x w pr = Ready c" for c
    using that by (auto simp: connection_new_def instant_add_def Let_def split: option.splits if_splits)
  then show ?thesis
    using error_send.request_send_lazy_keeps [of x req w "req_proxy (pr_config pr)" "Ready (Err e)" w' "pr_config pr"] assms Ok
    by auto
next
  case (Err e')
  then show ?thesis using assms parsed_request_new_Err [OF Err] by (simp add: request_send_lazy_def)
qed

lemma request_send_Err:
  assumes "request_send x req w = (Ready (Err e), w')"
  shows "(\<exists>io. e = IoError io) \<or> (\<exists>pr. parsed_request_new (x_cfg x) (x_env x) req = Ok pr \<and> send_error x (pr_config pr) e)"
proof -
  obtain r v where r: "request_send_lazy x req w = (r, v)" by fastforce
  show ?thesis
  proof (cases "r = Ready (Err e)")
    case True
    then show ?thesis using request_send_lazy_Err r by blast
  next
    case False
    then obtain resp where resp: "r = Ready (Ok resp)" "create (profile (x_cfg x)) resp (req_method req = Head) = Ready (Err e)"
      using assms r unfolding request_send_lazy_create
      by (cases "(r, \<lambda>response. create (profile (x_cfg x)) response (req_method req = Head))" rule: await.cases) auto
    then have "send_error x config e" for config using create_Err by (auto simp: send_error_def)
    moreover have "\<exists>pr. parsed_request_new (x_cfg x) (x_env x) req = Ok pr"
      using r resp(1) by (auto simp: request_send_lazy_def split: result.splits)
    ultimately show ?thesis by blast
  qed
qed

end
