(* ===== verification/Deadline_Spec.thy ===== *)
theory Deadline_Spec
  imports Connection_Spec
begin

text \<open>
  What the timeout of a request guarantees. A future that is awaited is given up at the deadline, so
  nothing is returned after it except what follows from a name resolution that took too long: that
  blocks, and when it is over the request fails at once. The clock is followed through dialling, the
  exchange with a proxy, the exchange with the server and redirects.
\<close>

section \<open>Timely outcomes\<close>

text \<open>The errors with which a request fails right after a name resolution.\<close>

definition late_error :: "externals \<Rightarrow> error \<Rightarrow> bool" where
  "late_error x e \<longleftrightarrow> e \<in> {IoError timeout_err, AddressNotFound} \<or> (\<exists>h p io. x_resolve x h p = Err io \<and> e = IoError io)"

definition timely :: "externals \<Rightarrow> instant \<Rightarrow> duration \<Rightarrow> ('a, error) result poll \<times> world \<Rightarrow> bool" where
  "timely x d m o1 \<longleftrightarrow> now (snd o1) \<le> d + m \<and> (now (snd o1) \<le> d \<or> (\<exists>e. fst o1 = Ready (Err e) \<and> late_error x e))"

lemma timelyI [intro]: "now w \<le> d \<Longrightarrow> timely x d m (r, w)"
  by (simp add: timely_def)

lemma timelyD: "timely x d m (r, w) \<Longrightarrow> (\<And>e. r \<noteq> Ready (Err e)) \<Longrightarrow> now w \<le> d"
  by (auto simp: timely_def)

text \<open>The name resolutions of a world take at most \<open>m\<close>.\<close>

definition resolves_within :: "externals \<Rightarrow> duration \<Rightarrow> bool" where
  "resolves_within x m \<longleftrightarrow> (\<forall>h p t. x_resolve_time x h p t \<le> m)"

section \<open>One exchange\<close>

lemma suspend_now: "c_timeout_at c = Some d \<Longrightarrow> now (snd o1) \<le> d \<Longrightarrow> now (snd (suspend c t o1)) \<le> d"
  by (cases o1) (auto simp: suspend_def)

lemma dial_now: "now w \<le> d \<Longrightarrow> now (snd (dial x w (Some (d - now w)) a)) \<le> d"
  by (auto simp: dial_def Let_def split: option.splits)

lemma try_addrs_timely:
  assumes "c_timeout_at c = Some d"
  shows "now w \<le> d + m \<Longrightarrow> timely x d m (try_addrs x c addrs w)"
proof (induction addrs arbitrary: w)
  case (Cons a addrs)
  show ?case
  proof (cases "now w \<le> d")
    case True
    obtain r w1 where r: "dial x w (Some (d - now w)) a = (r, w1)" by fastforce
    then have "now w1 \<le> d" using dial_now [OF True, of x a] by simp
    moreover have "timeout w c = Ok (Some (d - now w))" using assms True by (simp add: timeout_Ok)
    ultimately show ?thesis using r Cons.IH [of w1] by (auto split: poll.splits)
  next
    case False
    then have "timeout w c = Err timeout_err" using assms by (auto simp: timeout_Err)
    then show ?thesis using Cons.prems by (simp add: timely_def late_error_def)
  qed
qed (simp add: timely_def late_error_def)

lemma tcp_connect_timely:
  assumes "c_timeout_at c = Some d" "now w \<le> d" "resolves_within x m"
  shows "timely x d m (tcp_connect x c h p w)"
proof -
  have "now w + x_resolve_time x h p (now w) \<le> d + m" using assms(2,3) by (simp add: resolves_within_def add_mono)
  then show ?thesis using try_addrs_timely [OF assms(1)]
    by (auto simp: tcp_connect_def timely_def late_error_def Let_def split: result.splits)
qed

lemma proxy_exchange_now: "now (snd (proxy_exchange x c p tcp w)) = now w"
  by (auto simp: proxy_exchange_def Let_def split: prod.splits poll.splits result.splits)

lemma timely_now: "now (snd o1) \<le> d \<Longrightarrow> timely x d m o1"
  by (simp add: timely_def)

lemma connection_connect_timely:
  assumes "c_timeout_at c = Some d" "now w \<le> d" "resolves_within x m"
  shows "timely x d m (connection_connect x c w)"
proof (cases "if feat_proxy (x_cfg x) then req_proxy (conn_config c) else None")
  case (Some p)
  then have f: "feat_proxy (x_cfg x)" "req_proxy (conn_config c) = Some p" by (simp_all split: if_splits)
  obtain r w1 where r: "tcp_connect x c (proxy_server p) (ucast (proxy_port p)) w = (r, w1)" by fastforce
  then have t: "timely x d m (r, w1)" using tcp_connect_timely [OF assms, of "proxy_server p" "ucast (proxy_port p)"] by simp
  have "timely x d m (suspend c (tcp_latency tcp) (proxy_exchange x c p tcp w1))" if "r = Ready (Ok tcp)" for tcp
    using suspend_now [OF assms(1), of "proxy_exchange x c p tcp w1" "tcp_latency tcp"] timelyD [OF t] that
    by (intro timely_now) (simp add: proxy_exchange_now)
  then show ?thesis using f r t
    by (auto simp: connection_connect_def Let_def timely_def split: poll.splits result.splits)
qed (use tcp_connect_timely [OF assms] in \<open>auto simp: connection_connect_def Let_def split: if_splits option.splits\<close>)

lemma exchange_http_timely:
  assumes "c_timeout_at c = Some d" "now w \<le> d" "resolves_within x m"
  shows "timely x d m (exchange_http x c w)"
proof -
  obtain r w1 where r: "connection_connect x c w = (r, w1)" by fastforce
  then have t: "timely x d m (r, w1)" using connection_connect_timely [OF assms] by simp
  show ?thesis
  proof (cases "\<exists>tcp. r = Ready (Ok tcp)")
    case True
    then have "now w1 \<le> d" using timelyD [OF t] by auto
    then show ?thesis using True r
      by (auto simp: exchange_http_def Let_def intro!: timely_now suspend_now [OF assms(1)] split: poll.splits result.splits)
  next
    case False
    then show ?thesis using r t by (auto simp: exchange_http_def Let_def timely_def split: poll.splits result.splits)
  qed
qed

lemma exchange_tls_now:
  assumes "c_timeout_at c = Some d" "now w \<le> d"
  shows "now (snd (exchange_tls x client c bs tcp w)) \<le> d"
  using assms by (auto simp: exchange_tls_def suspend_def Let_def split: option.splits prod.splits poll.splits result.splits if_splits)

lemma tls_setup_now: "now (snd (tls_setup x be c w)) = now w"
  by (auto simp: tls_setup_def split: tls_backend.splits result.splits poll.splits)

lemma exchange_https_timely:
  assumes "c_timeout_at c = Some d" "now w \<le> d" "resolves_within x m"
  shows "timely x d m (exchange_https x be c w)"
proof -
  obtain s w0 where s: "tls_setup x be c w = (s, w0)" by fastforce
  then have w0: "now w0 \<le> d" using tls_setup_now [of x be c w] assms(2) by simp
  obtain r w1 where r: "connection_connect x c w0 = (r, w1)" by fastforce
  then have t: "timely x d m (r, w1)" using connection_connect_timely [OF assms(1) w0 assms(3)] by simp
  have "timely x d m (exchange_tls x client c bs tcp w1)" if "r = Ready (Ok tcp)" for client bs tcp
    using timelyD [OF t] that by (intro timely_now exchange_tls_now [OF assms(1)]) simp
  then show ?thesis using s r t w0
    by (auto simp: exchange_https_def Let_def timely_def split: poll.splits result.splits)
qed

section \<open>Sending\<close>

text \<open>A request that is sent before its deadline.\<close>

definition on_time :: "externals \<Rightarrow> instant \<Rightarrow> duration \<Rightarrow> connection \<Rightarrow> bool" where
  "on_time x d m c \<longleftrightarrow> (\<forall>w. now w \<le> d \<longrightarrow> timely x d m (send x c w) \<and> (\<forall>be. timely x d m (send_https x be c w)))"

lemma deadline_timely:
  assumes "timely x d m o1" "t \<le> d"
  shows "timely x d m (deadline t (Some (d - t)) o1)"
proof (cases o1)
  case (Pair r w)
  show ?thesis
  proof (cases r)
    case Pending
    then have "now w \<le> d" using assms(1) unfolding Pair by (simp add: timely_def)
    then show ?thesis using Pair Pending assms(2) by (simp add: deadline_def timely_def)
  qed (use Pair assms(1) in \<open>simp_all add: deadline_def\<close>)
qed

lemma handle_redirects_timely:
  assumes "now w \<le> d" "\<And>c' code loc. get_redirect (x_cfg x) c code loc = Redirect (Ok c') \<Longrightarrow> on_time x d m c'"
  shows "timely x d m (handle_redirects x c r w)"
proof (cases "\<exists>c'. get_redirect (x_cfg x) c (lz_status_code r) (hm_get (lz_headers r) (str ''location'')) = Redirect (Ok c')")
  case True
  then obtain c' where c': "get_redirect (x_cfg x) c (lz_status_code r) (hm_get (lz_headers r) (str ''location''))
      = Redirect (Ok c')" by blast
  then show ?thesis using assms(2) [OF c'] assms(1)
    by (subst handle_redirects.simps) (auto simp: on_time_def split: option.splits)
next
  case False
  then show ?thesis using assms(1)
    by (subst handle_redirects.simps) (auto simp: Let_def split: next_hop.splits result.splits)
qed

lemma sends_on_time:
  assumes "resolves_within x m"
  shows "c_timeout_at c = Some d \<Longrightarrow> on_time x d m c"
proof (induction "hops_left c" arbitrary: c rule: less_induct)
  case less
  have h: "timely x d m (handle_redirects x ca r w)" if ca: "with_ascii_host x c = Ok ca" "now w \<le> d" for ca r w
  proof (rule handle_redirects_timely [OF that(2)])
    show "on_time x d m c'" if "get_redirect (x_cfg x) ca code loc = Redirect (Ok c')" for c' code loc
      using less.hyps [of c'] get_redirect_hops [OF that] with_ascii_host_hops [OF ca(1)] get_redirect_Redirect(5) [OF that]
        with_ascii_host_frame(1) [OF ca(1)] less.prems by (simp add: same_config_def)
  qed
  have t: "c_timeout_at ca = Some d" if "with_ascii_host x c = Ok ca" for ca
    using with_ascii_host_frame(1) [OF that] less.prems by (simp add: same_config_def)
  have "timely x d m (send_without_timeout x c w)" if "now w \<le> d" for w
  proof (cases "with_ascii_host x c")
    case (Ok ca)
    obtain r w1 where e: "exchange_http x ca w = (r, w1)" by fastforce
    then have "timely x d m (r, w1)" using exchange_http_timely [OF t [OF Ok] that assms] by simp
    then show ?thesis using e Ok h [OF Ok, of w1] timelyD [of x d m r w1]
      by (subst send_without_timeout.simps) (auto simp: timely_def split: poll.splits result.splits)
  qed (subst send_without_timeout.simps, auto simp: that)
  moreover have "timely x d m (send_https_without_timeout x be c w)" if "now w \<le> d" for be w
  proof (cases "with_ascii_host x c")
    case (Ok ca)
    obtain r w1 where e: "exchange_https x be ca w = (r, w1)" by fastforce
    then have "timely x d m (r, w1)" using exchange_https_timely [OF t [OF Ok] that assms, of be] by simp
    then show ?thesis using e Ok h [OF Ok, of w1] timelyD [of x d m r w1]
      by (subst send_https_without_timeout.simps) (auto simp: timely_def split: poll.splits result.splits)
  qed (subst send_https_without_timeout.simps, auto simp: that)
  moreover have "timeout w c = Ok (Some (d - now w))" if "now w \<le> d" for w
    using less.prems that by (simp add: timeout_Ok)
  ultimately show ?case
    by (auto simp: on_time_def send.simps send_https.simps deadline_timely split: result.split)
qed

lemma deadline_not_Pending: "fst (deadline t (Some l) o1) \<noteq> Pending"
  by (auto simp: deadline_def split: prod.split poll.split)

lemma send_not_Pending:
  assumes "c_timeout_at c = Some d"
  shows "fst (send x c w) \<noteq> Pending" "fst (send_https x be c w) \<noteq> Pending"
  using assms by (auto simp: send.simps send_https.simps timeout_Ok deadline_not_Pending split: result.split)

text \<open>
  The deadline can be missed by as long as a name resolution takes: it is not interrupted, and the
  error comes when it is over.
\<close>

lemma late_resolution:
  assumes "c_timeout_at c = Some d" "now w \<le> d" "d < resolved_at x c w" "is_ascii (host (conn_url c))"
    and "feat_proxy (x_cfg x) \<longrightarrow> req_proxy (conn_config c) = None"
    and "x_resolve x (host (conn_url c)) (port_number (url_port (conn_url c))) = Ok (a # as)"
  shows "send x c w = (Ready (Err (IoError timeout_err)), w\<lparr>now := resolved_at x c w\<rparr>)"
proof -
  have "with_ascii_host x c = Ok c" using assms(4) by (simp add: with_ascii_host_def ensure_ascii_host_def)
  moreover have "timeout w c = Ok (Some (d - now w))" using assms(1,2) by (simp add: timeout_Ok)
  moreover have "timeout (w\<lparr>now := resolved_at x c w\<rparr>) c = Err timeout_err" using assms(1,3) by (simp add: timeout_Err)
  moreover from this have "connection_connect x c w = (Ready (Err (IoError timeout_err)), w\<lparr>now := resolved_at x c w\<rparr>)"
    using assms(5,6) by (auto simp: connection_connect_def tcp_connect_def resolved_at_def Let_def split: option.split)
  ultimately show ?thesis
    by (simp add: send.simps send_without_timeout.simps exchange_http_def deadline_def)
qed

end
