(* ===== verification/Server_Spec.thy ===== *)
theory Server_Spec
  imports Metadata_Spec Request_Properties
begin

text \<open>
  A request as its recipient reads it: a reader of HTTP/1.1 requests, written from the format and
  not from the source, which cuts the head into lines up to the empty one, splits the request line at
  its spaces and each header at its colon, and takes as many bytes of body as the content length
  announces. What \<open>ParsedRequest::as_bytes\<close> prints is read back by it, also with further bytes behind.
\<close>

section \<open>The reader\<close>

function head_of :: "u8 list \<Rightarrow> (u8 list list \<times> u8 list) option" where
  "head_of bs =
     (case dropWhile (\<lambda>b. b \<noteq> 10) bs of
        [] \<Rightarrow> None
      | lf # rest \<Rightarrow>
          let l = takeWhile (\<lambda>b. b \<noteq> 10) bs;
              line = (if suffix [13] l then butlast l else l)
          in if line = [] then Some ([], rest)
             else (case head_of rest of Some (ls, r) \<Rightarrow> Some (line # ls, r) | None \<Rightarrow> None))"
  by pat_completeness auto
termination
proof (relation "measure length", goal_cases)
  case (2 bs lf rest)
  then have "length (dropWhile (\<lambda>b. b \<noteq> 10) bs) = Suc (length rest)" by simp
  then show ?case using length_dropWhile_le [of "\<lambda>b. b \<noteq> 10" bs] by simp
qed simp

declare head_of.simps [simp del]

definition header_of :: "rstring \<Rightarrow> (rstring \<times> rstring) option" where
  "header_of l =
     (let rest = dropWhile (\<lambda>c. c \<noteq> ch CHR '':'') l
      in if take 2 rest = str '': '' then Some (takeWhile (\<lambda>c. c \<noteq> ch CHR '':'') l, drop 2 rest) else None)"

definition request_line_of :: "rstring \<Rightarrow> (rstring \<times> rstring) option" where
  "request_line_of l =
     (case split_char (ch CHR '' '') l of
        [m, target, version] \<Rightarrow> if version = str ''HTTP/1.1'' then Some (m, target) else None
      | _ \<Rightarrow> None)"

definition is_length_key :: "rstring \<Rightarrow> bool" where
  "is_length_key k \<longleftrightarrow> to_lowercase k = str ''content-length''"

definition body_length :: "(rstring \<times> rstring) list \<Rightarrow> usize option" where
  "body_length hs =
     (case find (\<lambda>(k, v). is_length_key k) hs of
        None \<Rightarrow> Some 0
      | Some (k, v) \<Rightarrow> parse_uint 10 usize_MAX v)"

record read_request =
  rr_method :: rstring
  rr_target :: rstring
  rr_headers :: "(rstring \<times> rstring) list"
  rr_body :: "u8 list"
  rr_rest :: "u8 list"

definition request_of :: "u8 list \<Rightarrow> read_request option" where
  "request_of bs =
     (case head_of bs of
        Some (l # ls, rest) \<Rightarrow>
          (case (Option.bind (ok (from_utf8 l)) request_line_of,
                 those (map (\<lambda>l. Option.bind (ok (from_utf8 l)) header_of) ls)) of
             (Some (m, target), Some hs) \<Rightarrow>
               (case body_length hs of
                  Some n \<Rightarrow>
                    if n \<le> length rest then
                      Some \<lparr>rr_method = m, rr_target = target, rr_headers = hs, rr_body = take n rest, rr_rest = drop n rest\<rparr>
                    else None
                | None \<Rightarrow> None)
           | _ \<Rightarrow> None)
      | _ \<Rightarrow> None)"

section \<open>Reading a printed head\<close>

lemma while_neq:
  assumes "d \<notin> set xs"
  shows "takeWhile (\<lambda>c. c \<noteq> d) (xs @ d # ys) = xs" "dropWhile (\<lambda>c. c \<noteq> d) (xs @ d # ys) = d # ys"
  using assms by (auto intro: takeWhile_append_stop dropWhile_append_stop)

lemma find_Some_set: "find P xs = Some x \<Longrightarrow> x \<in> set xs \<and> P x"
  by (induction xs) (auto split: if_splits)

lemma find_append: "find P (xs @ ys) = (case find P xs of None \<Rightarrow> find P ys | Some x \<Rightarrow> Some x)"
  by (induction xs) auto

lemma head_of_end: "head_of ([13, 10] @ rest) = Some ([], rest)"
  by (simp add: head_of.simps)

lemma head_of_line:
  assumes "plain_line l" "l \<noteq> []"
  shows "head_of (line_bytes l @ bs) = (case head_of bs of Some (ls, r) \<Rightarrow> Some (into_bytes l # ls, r) | None \<Rightarrow> None)"
proof -
  have n: "10 \<notin> set (into_bytes l)" using assms(1) by (simp add: plain_line_def into_bytes_LF)
  have t: "takeWhile (\<lambda>b. b \<noteq> 10) (line_bytes l @ bs) = into_bytes l @ [13]"
    "dropWhile (\<lambda>b. b \<noteq> 10) (line_bytes l @ bs) = 10 # bs"
    using n while_neq [of 10 "into_bytes l @ [13]" bs] by (simp_all add: line_bytes_def)
  have "into_bytes l \<noteq> []" using len_bytes_pos [OF assms(2)] by (auto simp: len_bytes_def)
  then show ?thesis by (subst head_of.simps) (simp add: t)
qed

lemma head_of_block:
  assumes "\<forall>l\<in>set ls. plain_line l \<and> l \<noteq> []"
  shows "head_of (block_bytes ls @ [13, 10] @ rest) = Some (map into_bytes ls, rest)"
  using assms
proof (induction ls)
  case Nil
  show ?case using head_of_end [of rest] by simp
next
  case (Cons l ls)
  then show ?case using head_of_line [of l "block_bytes ls @ [13, 10] @ rest"] by simp
qed

lemma header_of_print: "ch CHR '':'' \<notin> set k \<Longrightarrow> header_of (k @ str '': '' @ v) = Some (k, v)"
  using while_neq [of 58 k "32 # v"] by (simp add: header_of_def str_def)

lemma request_line_of_print:
  assumes "ch CHR '' '' \<notin> set m" "ch CHR '' '' \<notin> set t"
  shows "request_line_of (m @ str '' '' @ t @ str '' HTTP/1.1'') = Some (m, t)"
proof -
  have "m @ str '' '' @ t @ str '' HTTP/1.1'' = m @ 32 # t @ 32 # str ''HTTP/1.1''" by (simp add: str_def)
  moreover have "32 \<notin> set (str ''HTTP/1.1'')" by (simp add: str_def)
  ultimately show ?thesis
    using assms by (simp add: request_line_of_def split_char_append_delim split_char_no_delim)
qed

lemma those_map_Some: "\<forall>a\<in>set xs. f a = Some (g a) \<Longrightarrow> those (map f xs) = Some (map g xs)"
  by (induction xs) auto

section \<open>Requests\<close>

text \<open>
  A request that can be told apart when it is printed: its parts are text without line feeds, the
  method and the path have no space, and the names of headers no colon. The length it announces, in
  any spelling, is that of its body, and no transfer encoding is given.
\<close>

definition distinct_parts :: "parsed_request \<Rightarrow> bool" where
  "distinct_parts r \<longleftrightarrow> lf_free r
     \<and> ch CHR '' '' \<notin> set (method_fmt (req_method (pr_config r))) \<and> ch CHR '' '' \<notin> set (path_and_query (pr_url r))
     \<and> (\<forall>(k, v)\<in>set (req_headers (pr_config r)). ch CHR '':'' \<notin> set k)
     \<and> (\<forall>c\<in>set (method_fmt (req_method (pr_config r)) @ path_and_query (pr_url r) @ host (pr_url r)). is_scalar c)
     \<and> (\<forall>(k, v)\<in>set (req_headers (pr_config r)). \<forall>c\<in>set (k @ v). is_scalar c)"

definition announces :: "parsed_request \<Rightarrow> u8 list \<Rightarrow> bool" where
  "announces r body \<longleftrightarrow> (req_body (pr_config r) = Some body \<or> req_body (pr_config r) = None \<and> body = [])
     \<and> length body \<le> usize_MAX
     \<and> (\<forall>(k, v)\<in>set (req_headers (pr_config r)). is_length_key k \<longrightarrow> v = show_nat (length body))
     \<and> (body \<noteq> [] \<longrightarrow> (\<exists>(k, v)\<in>set (req_headers (pr_config r)). is_length_key k))"

definition header_fields :: "(hashmap \<Rightarrow> hashmap) \<Rightarrow> parsed_request \<Rightarrow> (rstring \<times> rstring) list" where
  "header_fields iter r =
     (str ''Host'', host (pr_url r) @ (case url_port (pr_url r) of Explicit port \<Rightarrow> str '':'' @ show_nat (unat port) | _ \<Rightarrow> []))
     # iter (req_headers (pr_config r))
     @ (if needs_length (pr_config r) then [(str ''Content-Length'', str ''0'')] else [])"

lemma head_lines_fields:
  "head_lines iter r = request_line r # map (\<lambda>(k, v). k @ str '': '' @ v) (header_fields iter r) @ [[]]"
  by (auto simp: head_lines_def header_fields_def host_line_def str_def split: port.split)

lemma distinct_parts_lines:
  assumes "distinct_parts r" "hash_order iter"
  shows "\<forall>l\<in>set (request_line r # map (\<lambda>(k, v). k @ str '': '' @ v) (header_fields iter r)). plain_line l \<and> l \<noteq> []"
    and "\<forall>(k, v)\<in>set (header_fields iter r). 58 \<notin> set k"
proof -
  have lf: "\<forall>l\<in>set (head_lines iter r). 10 \<notin> set l"
    using head_lines_lf_free [OF _ assms(2), of r] assms(1) by (simp add: distinct_parts_def)
  have sc: "is_scalar c" if "c \<in> set (show_nat n)" for c n
    using that show_nat_ascii [of n] by (auto simp: is_ascii_def)
  have str: "is_scalar c" if "c \<in> set (str s)" for c s using that by (auto simp: str_def is_scalar_def intro: less_trans [OF nat_of_char_less_256])
  have p: "\<forall>c\<in>set (method_fmt (req_method (pr_config r)) @ path_and_query (pr_url r) @ host (pr_url r)). is_scalar c"
    "\<forall>(k, v)\<in>set (iter (req_headers (pr_config r))). \<forall>c\<in>set (k @ v). is_scalar c"
    using assms by (simp_all add: distinct_parts_def hash_order_set)
  have "\<forall>c\<in>set (request_line r). is_scalar c" using p(1) str by (auto simp: request_line_def)
  moreover have "\<forall>(k, v)\<in>set (header_fields iter r). \<forall>c\<in>set (k @ v). is_scalar c"
    using p sc str by (auto simp: header_fields_def split: port.splits)
  ultimately have "\<forall>l\<in>set (request_line r # map (\<lambda>(k, v). k @ str '': '' @ v) (header_fields iter r)). \<forall>c\<in>set l. is_scalar c"
    using str by auto
  moreover have "l \<noteq> []" if "l \<in> set (request_line r # map (\<lambda>(k, v). k @ str '': '' @ v) (header_fields iter r))" for l
    using that by (auto simp: request_line_def str_def)
  ultimately show "\<forall>l\<in>set (request_line r # map (\<lambda>(k, v). k @ str '': '' @ v) (header_fields iter r)). plain_line l \<and> l \<noteq> []"
    using lf unfolding head_lines_fields plain_line_def by auto
  show "\<forall>(k, v)\<in>set (header_fields iter r). 58 \<notin> set k"
    using assms(1) by (auto simp: distinct_parts_def header_fields_def hash_order_set [OF assms(2)] str_def)
qed

lemma body_length_announced:
  assumes "announces r body" "hash_order iter"
  shows "body_length (header_fields iter r) = Some (length body)"
proof -
  let ?h = "req_headers (pr_config r)"
  have host: "\<not> is_length_key (str ''Host'')" by (simp add: is_length_key_def rust_defs)
  show ?thesis
  proof (cases "find (\<lambda>(k, v). is_length_key k) (iter ?h)")
    case (Some kv)
    then have "kv \<in> set ?h" "is_length_key (fst kv)"
      using find_Some_set [OF Some] hash_order_set [OF assms(2), of ?h] by (cases kv, simp)+
    then have "snd kv = show_nat (length body)" using assms(1) by (cases kv) (auto simp: announces_def)
    then show ?thesis using Some host assms(1)
      by (cases kv) (auto simp: body_length_def header_fields_def find_append parse_uint_show_nat announces_def split: option.splits)
  next
    case None
    then have none: "\<forall>(k, v)\<in>set ?h. \<not> is_length_key k" using hash_order_set [OF assms(2)] by (auto simp: find_None_iff)
    then have "body = []" using assms(1) by (auto simp: announces_def)
    moreover have "parse_uint 10 usize_MAX (str ''0'') = Some 0" by (simp add: rust_defs usize_MAX_def)
    ultimately show ?thesis using None host
      by (auto simp: body_length_def header_fields_def find_append split: option.splits)
  qed
qed

lemma request_of_as_bytes:
  assumes "distinct_parts r" "announces r body" "hash_order iter"
  shows "request_of (as_bytes iter r @ next_bytes) =
    Some \<lparr>rr_method = method_fmt (req_method (pr_config r)), rr_target = path_and_query (pr_url r),
          rr_headers = header_fields iter r, rr_body = body, rr_rest = next_bytes\<rparr>"
proof -
  let ?ls = "request_line r # map (\<lambda>(k, v). k @ str '': '' @ v) (header_fields iter r)"
  have b: "into_bytes (crlf_lines ls) = block_bytes ls" for ls
    by (induction ls) (simp_all add: line_bytes_def encode_utf8_def byte_def)
  have "as_bytes iter r @ next_bytes = block_bytes ?ls @ [13, 10] @ body @ next_bytes"
    using assms(2) unfolding as_bytes_def get_http_head_lines b head_lines_fields
    by (auto simp: announces_def Let_def block_bytes_def line_bytes_def)
  then have h: "head_of (as_bytes iter r @ next_bytes) = Some (map into_bytes ?ls, body @ next_bytes)"
    using head_of_block [OF distinct_parts_lines(1) [OF assms(1,3)]] by simp
  have u: "from_utf8 (into_bytes l) = Ok l" if "l \<in> set ?ls" for l
    using distinct_parts_lines(1) [OF assms(1,3)] that by (auto simp: from_utf8_Ok_iff plain_line_def)
  have "those (map ((\<lambda>l. Option.bind (ok (from_utf8 l)) header_of) \<circ> (into_bytes \<circ> (\<lambda>(k, v). k @ str '': '' @ v))) (header_fields iter r))
      = Some (map (\<lambda>kv. kv) (header_fields iter r))"
  proof (intro those_map_Some ballI)
    fix kv assume kv: "kv \<in> set (header_fields iter r)"
    obtain k v where k: "kv = (k, v)" by fastforce
    then have "k @ str '': '' @ v \<in> set ?ls" "58 \<notin> set k" using kv distinct_parts_lines(2) [OF assms(1,3)] by force+
    then show "((\<lambda>l. Option.bind (ok (from_utf8 l)) header_of) \<circ> (into_bytes \<circ> (\<lambda>(k, v). k @ str '': '' @ v))) kv = Some kv"
      using u [of "k @ str '': '' @ v"] header_of_print [of k v] k by (simp add: comp_def)
  qed
  moreover have "request_line_of (request_line r) = Some (method_fmt (req_method (pr_config r)), path_and_query (pr_url r))"
    unfolding request_line_def by (rule request_line_of_print) (use assms(1) in \<open>simp_all add: distinct_parts_def\<close>)
  ultimately show ?thesis
    using h u [of "request_line r"] body_length_announced [OF assms(2,3)]
    by (simp add: request_of_def comp_assoc)
qed

text \<open>The builder announces the length of the body it is given.\<close>

lemma with_body_announces:
  assumes "pr_config r = with_body body q" "wf_hm (req_headers q)" "length body \<le> usize_MAX"
    and "\<forall>(k, v)\<in>set (req_headers q). is_length_key k \<longrightarrow> k = str ''Content-Length''"
  shows "announces r body"
proof -
  let ?h = "req_headers (pr_config r)"
  have h: "?h = hm_insert (str ''Content-Length'') (show_nat (length body)) (req_headers q)" "req_body (pr_config r) = Some body"
    using assms(1) by (simp_all add: with_body_def with_header_def)
  have key: "is_length_key (str ''Content-Length'')" by (simp add: is_length_key_def rust_defs)
  have look: "hm_get ?h (str ''Content-Length'') = Some (show_nat (length body))"
    unfolding h(1) using assms(2) by (simp add: hm.look_ins_same)
  have "v = show_nat (length body)" if "(k, v) \<in> set ?h" "is_length_key k" for k v
  proof -
    have "k = str ''Content-Length''"
      using that assms(4) hm_insert_set [of "str ''Content-Length''" "show_nat (length body)" "req_headers q"] h(1) by auto
    moreover have "wf_hm ?h" unfolding h(1) using assms(2) by (rule hm.inv_ins)
    ultimately show ?thesis using that(1) look by (simp add: hm_get_eq wf_hm_def)
  qed
  moreover have "(str ''Content-Length'', show_nat (length body)) \<in> set ?h" using look by (simp add: hm_get_eq map_of_SomeD)
  ultimately show ?thesis using h(2) key assms(3) unfolding announces_def by fast
qed

text \<open>
  C20: A printed request is read back by its recipient: the method, the path, every header in the order
  of iteration with the host first, and as many bytes of body as were given, nothing of what follows
  on the connection, when its parts can be told apart and the length it announces is that of its body.
\<close>

theorem request_read_back:
  assumes "distinct_parts r" "announces r body" "hash_order iter"
  shows "request_of (as_bytes iter r @ next_bytes) =
    Some \<lparr>rr_method = method_fmt (req_method (pr_config r)), rr_target = path_and_query (pr_url r),
          rr_headers = header_fields iter r, rr_body = body, rr_rest = next_bytes\<rparr>"
  by (rule request_of_as_bytes [OF assms])

theorem request_read_back_witness:
  "request_of (as_bytes rev example_request @ [71, 69]) =
    Some \<lparr>rr_method = str ''POST'', rr_target = str ''/x?y'',
          rr_headers = [(str ''Host'', str ''a.b:81''), (str ''Content-Length'', str ''2'')], rr_body = [104, 105], rr_rest = [71, 69]\<rparr>"
proof -
  have "distinct_parts example_request" using lf_free_example
    by (simp add: distinct_parts_def example_request_simps) (simp add: str_def show_nat.simps is_scalar_def)
  moreover have "announces example_request [104, 105]"
    by (rule with_body_announces [where q = "post (str ''http://a.b:81/x?y#f'')"])
      (simp_all add: post_def request_new_def wf_hm_def usize_MAX_def)
  moreover have "header_fields rev example_request = [(str ''Host'', str ''a.b:81''), (str ''Content-Length'', str ''2'')]"
    by (simp add: header_fields_def needs_length_def example_request_simps not_length_content_length)
      (simp add: str_def show_nat.simps)
  ultimately show ?thesis using request_read_back [of example_request "[104, 105]" rev "[71, 69]"]
    by (simp add: example_request_simps)
qed

end
