(* ===== verification/Crate_Root.thy ===== *)
theory Crate_Root
  imports Rustls_Config
begin

text \<open>
  \<open>lib.rs\<close>: which modules the crate has in a build, and which of them it re-exports. The other
  modules are private, so a program that uses the crate can only call what is re-exported.
\<close>

datatype crate_module =
  M_native_tls | M_connection | M_error | M_http_url | M_proxy | M_request | M_response

definition modules :: "bool \<Rightarrow> cfg \<Rightarrow> crate_module list" where
  "modules feat_openssl cf =
     (if feat_openssl then [M_native_tls] else []) @ [M_connection, M_error, M_http_url]
     @ (if feat_proxy cf then [M_proxy] else []) @ [M_request, M_response]"

definition reexports :: "cfg \<Rightarrow> crate_module list" where
  "reexports cf = [M_error] @ (if feat_proxy cf then [M_proxy] else []) @ [M_request, M_response]"

lemma reexports_declared: "set (reexports cf) \<subseteq> set (modules feat_openssl cf)"
  by (auto simp: reexports_def modules_def)

text \<open>
  What a program that uses the crate can make of the TLS statics: requests use the configuration,
  while \<open>set_manual_roots\<close> is an item of the module \<open>connection\<close>.
\<close>

definition public_event :: "cfg \<Rightarrow> tls_event \<Rightarrow> bool" where
  "public_event cf e = (case e of SetRoots _ \<Rightarrow> M_connection \<in> set (reexports cf) | UseConfig _ \<Rightarrow> True)"

lemma public_no_roots: "list_all (public_event cf) es \<Longrightarrow> first_roots es = None"
  by (induction es rule: first_roots.induct) (auto simp: public_event_def reexports_def)

lemma public_manual_roots_panic:
  assumes "feat_manual_roots cf" "tls_run cf rs statics_start es st" "list_all (public_event cf) es"
  shows "use_config cf rs st = Panicked"
proof -
  have inv: "tls_inv cf rs es st" using assms(2) by (rule tls_run_inv)
  have "list_all (public_event cf) (before_use es)"
    using assms(3) by (auto simp: before_use_def list_all_iff dest: set_takeWhileD)
  then have "config_init cf rs (first_roots (before_use es)) = Panicked"
    using assms(1) by (simp add: public_no_roots config_init_eq)
  then have "CONFIG st = None" using inv by (auto simp: tls_inv_def split: option.splits)
  moreover have "MANUAL_ROOTS st = None" using inv public_no_roots [OF assms(3)] by (simp add: tls_inv_def)
  ultimately show ?thesis using assms(1) by (simp add: use_config_Panicked config_init_eq)
qed

end
