(* ===== verification/Native_Tls.thy ===== *)
theory Native_Tls
  imports Errors
begin

text \<open>
  \<open>native_tls/mod.rs\<close> and \<open>native_tls/openssl.rs\<close>: the TLS connector over the \<open>openssl\<close>
  crate. That crate is not part of the sources: which of its calls fail is the argument
  \<open>fails\<close>, the handshake is the argument \<open>ssl_connect\<close>, and a context is the record of what the
  sources set in it, starting from whatever \<open>SslConnector::builder\<close> has put there. Which versions a
  handshake then settles on, and what the files of a location hold, is left to OpenSSL: nothing here
  says more than which settings a context ends up with. Error stacks and SSL errors are represented by
  their displayed text.
\<close>

section \<open>Protocol versions\<close>

datatype protocol = Sslv3 | Tlsv10 | Tlsv11 | Tlsv12 | NonExhaustive

datatype ssl_version = SSL3 | TLS1 | TLS1_1 | TLS1_2

datatype ssl_option = NO_SSLV2 | NO_SSLV3 | NO_TLSV1 | NO_TLSV1_1 | NO_TLSV1_2 | OtherOption nat

type_synonym x509 = nat
type_synonym pkey = nat
type_synonym error_stack = rstring

record identity =
  id_pkey :: pkey
  id_cert :: x509
  id_chain :: "x509 list"

text \<open>
  A store of trusted certificates: the locations it is told to load from, each a file and a directory
  that may be missing, and the certificates that were added one by one.
\<close>

type_synonym location = "rstring option \<times> rstring option"

record cert_store =
  st_locations :: "location list"
  st_certs :: "x509 list"

record ssl_context =
  ctx_min :: "ssl_version option"
  ctx_max :: "ssl_version option"
  ctx_options :: "ssl_option set"
  ctx_certificate :: "x509 option"
  ctx_private_key :: "pkey option"
  ctx_extra_chain :: "x509 list"
  ctx_store :: cert_store

datatype ossl_call =
    Builder
  | LoadVerifyLocations location
  | SetCertificate x509
  | SetPrivateKey pkey
  | AddExtraChainCert x509
  | SetMinProto "ssl_version option"
  | SetMaxProto "ssl_version option"
  | NewStore
  | AddCert x509
  | Configure

type_synonym ossl_fails = "ossl_call \<Rightarrow> error_stack option"

definition call :: "ossl_fails \<Rightarrow> ossl_call \<Rightarrow> 'a \<Rightarrow> ('a, error_stack) result" where
  "call fails c x = (case fails c of None \<Rightarrow> Ok x | Some e \<Rightarrow> Err e)"

fun cvt :: "protocol \<Rightarrow> ssl_version poll" where
  "cvt Sslv3 = Ready SSL3"
| "cvt Tlsv10 = Ready TLS1"
| "cvt Tlsv11 = Ready TLS1_1"
| "cvt Tlsv12 = Ready TLS1_2"
| "cvt NonExhaustive = Panicked"

definition map_cvt :: "protocol option \<Rightarrow> ssl_version option poll" where
  "map_cvt p =
     (case p of None \<Rightarrow> Ready None
      | Some q \<Rightarrow> (case cvt q of Ready v \<Rightarrow> Ready (Some v) | Pending \<Rightarrow> Pending | Panicked \<Rightarrow> Panicked))"

definition supported_protocols_min_max ::
    "ossl_fails \<Rightarrow> protocol option \<Rightarrow> protocol option \<Rightarrow> ssl_context
      \<Rightarrow> (ssl_context, error_stack) result poll" where
  "supported_protocols_min_max fails min_p max_p ctx =
     (case map_cvt min_p of
        Ready mn \<Rightarrow>
          (case call fails (SetMinProto mn) (ctx\<lparr>ctx_min := mn\<rparr>) of
             Err e \<Rightarrow> Ready (Err e)
           | Ok ctx \<Rightarrow>
               (case map_cvt max_p of
                  Ready mx \<Rightarrow> Ready (call fails (SetMaxProto mx) (ctx\<lparr>ctx_max := mx\<rparr>))
                | Pending \<Rightarrow> Pending
                | Panicked \<Rightarrow> Panicked))
      | Pending \<Rightarrow> Pending
      | Panicked \<Rightarrow> Panicked)"

definition no_ssl_mask :: "ssl_option set" where
  "no_ssl_mask = {NO_SSLV2, NO_SSLV3, NO_TLSV1, NO_TLSV1_1, NO_TLSV1_2}"

definition min_options :: "protocol option \<Rightarrow> ssl_option set poll" where
  "min_options min_p =
     (case min_p of
        None \<Rightarrow> Ready {}
      | Some Sslv3 \<Rightarrow> Ready {NO_SSLV2}
      | Some Tlsv10 \<Rightarrow> Ready {NO_SSLV2, NO_SSLV3}
      | Some Tlsv11 \<Rightarrow> Ready {NO_SSLV2, NO_SSLV3, NO_TLSV1}
      | Some Tlsv12 \<Rightarrow> Ready {NO_SSLV2, NO_SSLV3, NO_TLSV1, NO_TLSV1_1}
      | Some NonExhaustive \<Rightarrow> Panicked)"

definition max_options :: "protocol option \<Rightarrow> ssl_option set poll" where
  "max_options max_p =
     (case max_p of
        None \<Rightarrow> Ready {}
      | Some Tlsv12 \<Rightarrow> Ready {}
      | Some Tlsv11 \<Rightarrow> Ready {NO_TLSV1_2}
      | Some Tlsv10 \<Rightarrow> Ready {NO_TLSV1_1, NO_TLSV1_2}
      | Some Sslv3 \<Rightarrow> Ready {NO_TLSV1, NO_TLSV1_1, NO_TLSV1_2}
      | Some NonExhaustive \<Rightarrow> Panicked)"

definition supported_protocols_options ::
    "protocol option \<Rightarrow> protocol option \<Rightarrow> ssl_context \<Rightarrow> (ssl_context, error_stack) result poll" where
  "supported_protocols_options min_p max_p ctx =
     (let ctx = ctx\<lparr>ctx_options := ctx_options ctx - no_ssl_mask\<rparr> in
      case min_options min_p of
        Ready lo \<Rightarrow>
          (case max_options max_p of
             Ready hi \<Rightarrow> Ready (Ok (ctx\<lparr>ctx_options := ctx_options ctx \<union> (lo \<union> hi)\<rparr>))
           | Pending \<Rightarrow> Pending
           | Panicked \<Rightarrow> Panicked)
      | Pending \<Rightarrow> Pending
      | Panicked \<Rightarrow> Panicked)"

definition supported_protocols ::
    "cfg \<Rightarrow> ossl_fails \<Rightarrow> protocol option \<Rightarrow> protocol option \<Rightarrow> ssl_context
      \<Rightarrow> (ssl_context, error_stack) result poll" where
  "supported_protocols cf fails min_p max_p ctx =
     (if have_min_max_version cf then supported_protocols_min_max fails min_p max_p ctx
      else supported_protocols_options min_p max_p ctx)"

section \<open>Errors\<close>

record verify_result =
  vr_code :: int
  vr_text :: rstring

datatype imp_error = Normal error_stack | Ssl rstring verify_result

fun imp_error_fmt :: "imp_error \<Rightarrow> rstring" where
  "imp_error_fmt (Normal e) = e"
| "imp_error_fmt (Ssl e v) = (if vr_code v = 0 then e else e @ str '' ('' @ vr_text v @ str '')'')"

text \<open>The sources of the two kinds of error are those of the \<open>openssl\<close> crate.\<close>

fun imp_error_source ::
    "(error_stack \<Rightarrow> rstring option) \<Rightarrow> (rstring \<Rightarrow> rstring option) \<Rightarrow> imp_error \<Rightarrow> rstring option" where
  "imp_error_source stack_source ssl_source (Normal e) = stack_source e"
| "imp_error_source stack_source ssl_source (Ssl e v) = ssl_source e"

datatype 's ssl_handshake_error =
    SslSetupFailure error_stack
  | SslFailure rstring verify_result
  | SslWouldBlock 's

datatype 's imp_mid_handshake = ImpMidHandshake 's

datatype 's handshake_error = HandshakeFailure imp_error | HandshakeWouldBlock "'s imp_mid_handshake"

definition imp_error_from :: "error_stack \<Rightarrow> imp_error" where
  [simp]: "imp_error_from err = Normal err"

definition handshake_error_from_stack :: "error_stack \<Rightarrow> 's handshake_error" where
  [simp]: "handshake_error_from_stack e = HandshakeFailure (imp_error_from e)"

fun handshake_error_from :: "'s ssl_handshake_error \<Rightarrow> 's handshake_error" where
  "handshake_error_from (SslSetupFailure e) = HandshakeFailure (imp_error_from e)"
| "handshake_error_from (SslFailure e v) = HandshakeFailure (Ssl e v)"
| "handshake_error_from (SslWouldBlock s) = HandshakeWouldBlock (ImpMidHandshake s)"

section \<open>The connector\<close>

record tls_connector_builder =
  tb_identity :: "identity option"
  tb_min_protocol :: "protocol option"
  tb_max_protocol :: "protocol option"
  tb_root_certificates :: "x509 list"
  tb_accept_invalid_certs :: bool
  tb_accept_invalid_hostnames :: bool
  tb_use_sni :: bool
  tb_disable_built_in_roots :: bool

record tls_connector =
  tc_context :: ssl_context
  tc_use_sni :: bool
  tc_accept_invalid_hostnames :: bool
  tc_accept_invalid_certs :: bool

definition debug_bool :: "bool \<Rightarrow> rstring" where
  "debug_bool b = (if b then str ''true'' else str ''false'')"

definition connector_debug :: "tls_connector \<Rightarrow> rstring" where
  "connector_debug c =
     str ''TlsConnector { use_sni: '' @ debug_bool (tc_use_sni c)
     @ str '', accept_invalid_hostnames: '' @ debug_bool (tc_accept_invalid_hostnames c)
     @ str '', accept_invalid_certs: '' @ debug_bool (tc_accept_invalid_certs c) @ str '' }''"

text \<open>The output tells every combination of the three settings apart, and says nothing of the context.\<close>

lemma connector_debug_eq_iff:
  "connector_debug c = connector_debug d \<longleftrightarrow> tc_use_sni c = tc_use_sni d
     \<and> tc_accept_invalid_hostnames c = tc_accept_invalid_hostnames d \<and> tc_accept_invalid_certs c = tc_accept_invalid_certs d"
  by (cases "tc_use_sni c"; cases "tc_use_sni d"; cases "tc_accept_invalid_hostnames c"; cases "tc_accept_invalid_hostnames d")
    (auto simp: connector_debug_def debug_bool_def str_def)

definition builder :: tls_connector_builder where
  "builder =
     \<lparr>tb_identity = None, tb_min_protocol = Some Tlsv10, tb_max_protocol = None,
      tb_root_certificates = [], tb_accept_invalid_certs = False,
      tb_accept_invalid_hostnames = False, tb_use_sni = True, tb_disable_built_in_roots = False\<rparr>"

fun add_chain :: "ossl_fails \<Rightarrow> x509 list \<Rightarrow> ssl_context \<Rightarrow> (ssl_context, error_stack) result" where
  "add_chain fails [] ctx = Ok ctx"
| "add_chain fails (c # cs) ctx =
     and_then (call fails (AddExtraChainCert c) (ctx\<lparr>ctx_extra_chain := ctx_extra_chain ctx @ [c]\<rparr>))
       (add_chain fails cs)"

definition set_identity ::
    "ossl_fails \<Rightarrow> identity option \<Rightarrow> ssl_context \<Rightarrow> (ssl_context, error_stack) result" where
  "set_identity fails ident ctx =
     (case ident of
        None \<Rightarrow> Ok ctx
      | Some i \<Rightarrow>
          and_then (call fails (SetCertificate (id_cert i)) (ctx\<lparr>ctx_certificate := Some (id_cert i)\<rparr>))
            (\<lambda>ctx. and_then (call fails (SetPrivateKey (id_pkey i)) (ctx\<lparr>ctx_private_key := Some (id_pkey i)\<rparr>))
               (add_chain fails (rev (id_chain i)))))"

definition add_root :: "ossl_fails \<Rightarrow> x509 \<Rightarrow> ssl_context \<Rightarrow> ssl_context" where
  "add_root fails c ctx =
     (case call fails (AddCert c) (ctx\<lparr>ctx_store := (ctx_store ctx)\<lparr>st_certs := st_certs (ctx_store ctx) @ [c]\<rparr>\<rparr>) of Ok ctx' \<Rightarrow> ctx' | Err _ \<Rightarrow> ctx)"

definition set_roots ::
    "ossl_fails \<Rightarrow> tls_connector_builder \<Rightarrow> ssl_context \<Rightarrow> (ssl_context, error_stack) result" where
  "set_roots fails b ctx =
     and_then
       (if tb_disable_built_in_roots b
        then call fails NewStore (ctx\<lparr>ctx_store := \<lparr>st_locations = [], st_certs = []\<rparr>\<rparr>) else Ok ctx)
       (\<lambda>ctx. Ok (fold (add_root fails) (tb_root_certificates b) ctx))"

text \<open>
  The certificate directory of an Android system: its entries, when it can be listed, with
  \<open>None\<close> for an entry that cannot be read; the contents of its files; and what the \<open>openssl\<close> crate
  makes of a file.
\<close>

record android_store =
  as_entries :: "rstring option list option"
  as_file :: "rstring \<Rightarrow> u8 list option"
  as_pem :: "u8 list \<Rightarrow> x509 option"

definition android_certs :: "android_store \<Rightarrow> x509 list" where
  "android_certs s =
     (case as_entries s of
        None \<Rightarrow> []
      | Some dir \<Rightarrow> List.map_filter (as_pem s) (List.map_filter (as_file s) (List.map_filter id dir)))"

definition load_android_root_certs ::
    "ossl_fails \<Rightarrow> android_store \<Rightarrow> ssl_context \<Rightarrow> (ssl_context, imp_error) result" where
  "load_android_root_certs fails s ctx = Ok (fold (add_root fails) (android_certs s) ctx)"

text \<open>
  The argument \<open>probe\<close> is the location that \<open>openssl_probe::probe\<close> finds, in a build with that crate,
  and \<open>android\<close> the store of certificates on a build for Android; each is \<open>None\<close> in every other build.
\<close>

definition load_verify_locations :: "ossl_fails \<Rightarrow> location \<Rightarrow> ssl_context \<Rightarrow> (ssl_context, error_stack) result" where
  "load_verify_locations fails l ctx =
     call fails (LoadVerifyLocations l)
       (ctx\<lparr>ctx_store := (ctx_store ctx)\<lparr>st_locations := st_locations (ctx_store ctx) @ [l]\<rparr>\<rparr>)"

definition connector_new ::
    "cfg \<Rightarrow> location option \<Rightarrow> android_store option \<Rightarrow> ossl_fails \<Rightarrow> ssl_context \<Rightarrow> tls_connector_builder
      \<Rightarrow> (tls_connector, imp_error) result poll" where
  "connector_new cf probe android fails ctx0 b =
     (case and_then (call fails Builder ctx0)
             (\<lambda>ctx. and_then
                (case probe of Some l \<Rightarrow> load_verify_locations fails l ctx | None \<Rightarrow> Ok ctx)
                (set_identity fails (tb_identity b))) of
        Err e \<Rightarrow> Ready (Err (imp_error_from e))
      | Ok ctx \<Rightarrow>
          (case supported_protocols cf fails (tb_min_protocol b) (tb_max_protocol b) ctx of
             Ready (Ok ctx) \<Rightarrow>
               (case set_roots fails b ctx of
                  Err e \<Rightarrow> Ready (Err (imp_error_from e))
                | Ok ctx \<Rightarrow>
                    (case (case android of Some s \<Rightarrow> load_android_root_certs fails s ctx | None \<Rightarrow> Ok ctx) of
                       Err e \<Rightarrow> Ready (Err e)
                     | Ok ctx \<Rightarrow>
                         Ready (Ok \<lparr>tc_context = ctx, tc_use_sni = tb_use_sni b,
                           tc_accept_invalid_hostnames = tb_accept_invalid_hostnames b,
                           tc_accept_invalid_certs = tb_accept_invalid_certs b\<rparr>)))
           | Ready (Err e) \<Rightarrow> Ready (Err (imp_error_from e))
           | Pending \<Rightarrow> Pending
           | Panicked \<Rightarrow> Panicked))"

record ssl_config =
  sc_context :: ssl_context
  sc_sni :: bool
  sc_verify_hostname :: bool
  sc_verify_none :: bool

definition tls_connect ::
    "ossl_fails \<Rightarrow> (ssl_config \<Rightarrow> rstring \<Rightarrow> 's \<Rightarrow> ('t, 's ssl_handshake_error) result)
      \<Rightarrow> tls_connector \<Rightarrow> rstring \<Rightarrow> 's \<Rightarrow> ('t, 's handshake_error) result" where
  "tls_connect fails ssl_connect c domain stream =
     (case fails Configure of
        Some e \<Rightarrow> Err (handshake_error_from_stack e)
      | None \<Rightarrow>
          let ssl = \<lparr>sc_context = tc_context c, sc_sni = tc_use_sni c,
                     sc_verify_hostname = \<not> tc_accept_invalid_hostnames c, sc_verify_none = False\<rparr>;
              ssl = (if tc_accept_invalid_certs c then ssl\<lparr>sc_verify_none := True\<rparr> else ssl)
          in map_err handshake_error_from (ssl_connect ssl domain stream))"

datatype tls_error = TlsError imp_error

definition tls_error_from :: "imp_error \<Rightarrow> tls_error" where
  "tls_error_from err = TlsError err"

definition connector_build :: "cfg \<Rightarrow> location option \<Rightarrow> android_store option \<Rightarrow> ossl_fails \<Rightarrow> ssl_context \<Rightarrow> tls_connector_builder
      \<Rightarrow> (tls_connector, tls_error) result poll" where
  "connector_build cf probe android fails ctx0 b =
     (case connector_new cf probe android fails ctx0 b of
        Ready r \<Rightarrow> Ready (map_err tls_error_from r)
      | Pending \<Rightarrow> Pending
      | Panicked \<Rightarrow> Panicked)"

lemma connector_build_Ok:
  "connector_build cf probe android fails ctx0 b = Ready (Ok tc) \<longleftrightarrow> connector_new cf probe android fails ctx0 b = Ready (Ok tc)"
  by (auto simp: connector_build_def map_err_Ok_iff split: poll.splits)

definition connector_default ::
    "cfg \<Rightarrow> location option \<Rightarrow> android_store option \<Rightarrow> ossl_fails \<Rightarrow> ssl_context \<Rightarrow> (tls_connector, tls_error) result poll" where
  "connector_default cf probe android fails ctx0 = connector_build cf probe android fails ctx0 builder"

section \<open>The versions a context leaves open\<close>

text \<open>Versions are ordered by age.\<close>

instantiation protocol :: linorder
begin

definition protocol_rank :: "protocol \<Rightarrow> nat" where
  "protocol_rank p = (case p of Sslv3 \<Rightarrow> 0 | Tlsv10 \<Rightarrow> 1 | Tlsv11 \<Rightarrow> 2 | Tlsv12 \<Rightarrow> 3 | NonExhaustive \<Rightarrow> 4)"

definition less_eq_protocol :: "protocol \<Rightarrow> protocol \<Rightarrow> bool" where
  "less_eq_protocol p q \<longleftrightarrow> protocol_rank p \<le> protocol_rank q"

definition less_protocol :: "protocol \<Rightarrow> protocol \<Rightarrow> bool" where
  "less_protocol p q \<longleftrightarrow> protocol_rank p < protocol_rank q"

instance
proof
  fix p q :: protocol
  show "p = q" if "p \<le> q" "q \<le> p"
    using that by (cases p; cases q) (auto simp: less_eq_protocol_def protocol_rank_def)
qed (auto simp: less_eq_protocol_def less_protocol_def)

end

fun version_protocol :: "ssl_version \<Rightarrow> protocol" where
  "version_protocol SSL3 = Sslv3"
| "version_protocol TLS1 = Tlsv10"
| "version_protocol TLS1_1 = Tlsv11"
| "version_protocol TLS1_2 = Tlsv12"

fun off_option :: "ssl_version \<Rightarrow> ssl_option" where
  "off_option SSL3 = NO_SSLV3"
| "off_option TLS1 = NO_TLSV1"
| "off_option TLS1_1 = NO_TLSV1_1"
| "off_option TLS1_2 = NO_TLSV1_2"

definition within :: "protocol option \<Rightarrow> protocol option \<Rightarrow> ssl_version \<Rightarrow> bool" where
  "within lo hi v \<longleftrightarrow> (case lo of None \<Rightarrow> True | Some p \<Rightarrow> p \<le> version_protocol v)
     \<and> (case hi of None \<Rightarrow> True | Some p \<Rightarrow> version_protocol v \<le> p)"

text \<open>The two settings against a version: bounds that leave it out, and the option that switches it off.\<close>

definition out_of_bounds :: "ssl_context \<Rightarrow> ssl_version \<Rightarrow> bool" where
  "out_of_bounds ctx v \<longleftrightarrow>
     (\<exists>m. ctx_min ctx = Some m \<and> version_protocol v < version_protocol m)
     \<or> (\<exists>m. ctx_max ctx = Some m \<and> version_protocol m < version_protocol v)"

definition switched_off :: "ssl_context \<Rightarrow> ssl_version \<Rightarrow> bool" where
  "switched_off ctx v \<longleftrightarrow> off_option v \<in> ctx_options ctx"

text \<open>
  Both variants of \<open>supported_protocols\<close> promise the same, each of the setting it makes: whatever
  the context had of it before, it is then against exactly the versions outside the requested range.
\<close>

locale version_limits =
  fixes limit :: "protocol option \<Rightarrow> protocol option \<Rightarrow> ssl_context \<Rightarrow> (ssl_context, error_stack) result poll"
    and against :: "ssl_context \<Rightarrow> ssl_version \<Rightarrow> bool"
  assumes limits: "limit lo hi ctx = Ready (Ok ctx') \<Longrightarrow> against ctx' v \<longleftrightarrow> \<not> within lo hi v"
begin

lemma default_range:
  assumes "limit (Some Tlsv10) None ctx = Ready (Ok ctx')"
  shows "against ctx' v \<longleftrightarrow> v = SSL3"
  using limits [OF assms] by (cases v) (auto simp: within_def less_eq_protocol_def protocol_rank_def)

lemma empty_range:
  assumes "limit (Some lo) (Some hi) ctx = Ready (Ok ctx')" "hi < lo"
  shows "against ctx' v"
proof -
  have "\<not> (lo \<le> version_protocol v \<and> version_protocol v \<le> hi)" using assms(2) by auto
  then show ?thesis using limits [OF assms(1)] by (auto simp: within_def)
qed

end

lemma map_cvt_Ready: "map_cvt p = Ready v \<Longrightarrow> map_option version_protocol v = p"
  by (cases p; auto simp: map_cvt_def split: poll.splits elim!: cvt.elims)

lemma call_Ok: "call fails c x = Ok y \<longleftrightarrow> fails c = None \<and> y = x"
  by (auto simp: call_def split: option.splits)

lemma supported_protocols_min_max_Ok:
  assumes "supported_protocols_min_max fails lo hi ctx = Ready (Ok ctx')"
  obtains mn mx where "map_cvt lo = Ready mn" "map_cvt hi = Ready mx" "ctx' = ctx\<lparr>ctx_min := mn, ctx_max := mx\<rparr>"
  using assms by (auto simp: supported_protocols_min_max_def call_Ok split: poll.splits result.splits)

lemma supported_protocols_options_Ok:
  assumes "supported_protocols_options lo hi ctx = Ready (Ok ctx')"
  obtains a b where "min_options lo = Ready a" "max_options hi = Ready b"
    "ctx' = ctx\<lparr>ctx_options := (ctx_options ctx - no_ssl_mask) \<union> (a \<union> b)\<rparr>"
  using assms by (auto simp: supported_protocols_options_def Let_def split: poll.splits)

lemma min_options_range:
  assumes "min_options lo = Ready os"
  shows "off_option v \<in> os \<longleftrightarrow> \<not> within lo None v" "NO_SSLV2 \<in> os \<longleftrightarrow> lo \<noteq> None" "os \<subseteq> no_ssl_mask"
  using assms by (cases lo; cases v; auto simp: min_options_def within_def less_eq_protocol_def no_ssl_mask_def
      protocol_rank_def split: protocol.splits)+

lemma max_options_range:
  assumes "max_options hi = Ready os"
  shows "off_option v \<in> os \<longleftrightarrow> \<not> within None hi v" "NO_SSLV2 \<notin> os" "os \<subseteq> no_ssl_mask"
  using assms by (cases hi; cases v; auto simp: max_options_def within_def less_eq_protocol_def no_ssl_mask_def
      protocol_rank_def split: protocol.splits)+

lemma off_option_mask: "off_option v \<in> no_ssl_mask"
  by (cases v) (simp_all add: no_ssl_mask_def)

interpretation min_max: version_limits "supported_protocols_min_max fails" out_of_bounds
proof
  fix ctx ctx' :: ssl_context and lo hi v
  assume "supported_protocols_min_max fails lo hi ctx = Ready (Ok ctx')"
  then obtain mn mx where "map_option version_protocol mn = lo" "map_option version_protocol mx = hi"
    "ctx_min ctx' = mn" "ctx_max ctx' = mx"
    by (elim supported_protocols_min_max_Ok) (simp add: map_cvt_Ready)
  then show "out_of_bounds ctx' v \<longleftrightarrow> \<not> within lo hi v"
    by (auto simp: out_of_bounds_def within_def not_le split: option.splits)
qed

interpretation ssl_opts: version_limits supported_protocols_options switched_off
proof
  fix ctx ctx' :: ssl_context and lo hi v
  assume "supported_protocols_options lo hi ctx = Ready (Ok ctx')"
  then obtain a b where ab: "min_options lo = Ready a" "max_options hi = Ready b"
    "ctx_options ctx' = (ctx_options ctx - no_ssl_mask) \<union> (a \<union> b)"
    by (elim supported_protocols_options_Ok) simp
  then show "switched_off ctx' v \<longleftrightarrow> \<not> within lo hi v"
    using off_option_mask [of v] min_options_range(1) [OF ab(1), of v] max_options_range(1) [OF ab(2), of v]
    by (auto simp: switched_off_def within_def)
qed

text \<open>What each variant leaves alone.\<close>

lemma supported_protocols_min_max_frame:
  "supported_protocols_min_max fails lo hi ctx = Ready (Ok ctx') \<Longrightarrow> ctx_options ctx' = ctx_options ctx"
  by (auto elim!: supported_protocols_min_max_Ok)

lemma supported_protocols_options_frame:
  assumes "supported_protocols_options lo hi ctx = Ready (Ok ctx')"
  shows "ctx_min ctx' = ctx_min ctx" "ctx_max ctx' = ctx_max ctx"
    "ctx_options ctx' - no_ssl_mask = ctx_options ctx - no_ssl_mask" "NO_SSLV2 \<in> ctx_options ctx' \<longleftrightarrow> lo \<noteq> None"
proof -
  obtain a b where ab: "min_options lo = Ready a" "max_options hi = Ready b"
    "ctx' = ctx\<lparr>ctx_options := (ctx_options ctx - no_ssl_mask) \<union> (a \<union> b)\<rparr>"
    using assms by (rule supported_protocols_options_Ok)
  then show "ctx_min ctx' = ctx_min ctx" "ctx_max ctx' = ctx_max ctx" by simp_all
  show "ctx_options ctx' - no_ssl_mask = ctx_options ctx - no_ssl_mask" "NO_SSLV2 \<in> ctx_options ctx' \<longleftrightarrow> lo \<noteq> None"
    unfolding ab(3) using min_options_range(2,3) [OF ab(1)] max_options_range(2,3) [OF ab(2)]
    by (auto simp: no_ssl_mask_def)
qed

section \<open>The roots a connector trusts\<close>

lemma add_roots_eq:
  "fold (add_root fails) cs ctx =
     ctx\<lparr>ctx_store := (ctx_store ctx)\<lparr>st_certs := st_certs (ctx_store ctx) @ filter (\<lambda>c. fails (AddCert c) = None) cs\<rparr>\<rparr>"
  by (induction cs arbitrary: ctx) (auto simp: add_root_def call_def split: option.split)

lemma add_chain_frame:
  "add_chain fails cs ctx = Ok ctx' \<Longrightarrow> ctx' = ctx\<lparr>ctx_extra_chain := ctx_extra_chain ctx @ cs\<rparr>"
  by (induction cs arbitrary: ctx) (fastforce simp: call_def split: option.splits)+

lemma set_identity_frame:
  assumes "set_identity fails ident ctx = Ok ctx'"
  shows "ctx_store ctx' = ctx_store ctx" "ctx_min ctx' = ctx_min ctx" "ctx_max ctx' = ctx_max ctx"
    "ctx_options ctx' = ctx_options ctx"
  using assms by (auto simp: set_identity_def call_def split: option.splits dest!: add_chain_frame)

lemma supported_protocols_frame:
  assumes "supported_protocols cf fails lo hi ctx = Ready (Ok ctx')"
  shows "ctx_store ctx' = ctx_store ctx"
  using assms by (auto simp: supported_protocols_def split: if_splits
      elim!: supported_protocols_min_max_Ok supported_protocols_options_Ok)

text \<open>A build goes through these contexts.\<close>

definition with_location :: "location option \<Rightarrow> ssl_context \<Rightarrow> ssl_context" where
  "with_location probe ctx =
     ctx\<lparr>ctx_store := (ctx_store ctx)\<lparr>st_locations := st_locations (ctx_store ctx) @ (case probe of None \<Rightarrow> [] | Some l \<Rightarrow> [l])\<rparr>\<rparr>"

lemma connector_new_Ok:
  assumes "connector_new cf probe android fails ctx0 b = Ready (Ok tc)"
  obtains ctx1 ctx2 ctx3 where
    "set_identity fails (tb_identity b) (with_location probe ctx0) = Ok ctx1"
    and "supported_protocols cf fails (tb_min_protocol b) (tb_max_protocol b) ctx1 = Ready (Ok ctx2)"
    and "set_roots fails b ctx2 = Ok ctx3"
    and "tc_context tc = fold (add_root fails) (case android of None \<Rightarrow> [] | Some s \<Rightarrow> android_certs s) ctx3"
    and "tc_use_sni tc = tb_use_sni b" "tc_accept_invalid_hostnames tc = tb_accept_invalid_hostnames b"
    and "tc_accept_invalid_certs tc = tb_accept_invalid_certs b"
proof -
  obtain ctx1 where 1: "set_identity fails (tb_identity b) (with_location probe ctx0) = Ok ctx1"
    and "and_then (call fails Builder ctx0)
             (\<lambda>ctx. and_then
                (case probe of Some l \<Rightarrow> load_verify_locations fails l ctx | None \<Rightarrow> Ok ctx)
                (set_identity fails (tb_identity b))) = Ok ctx1"
    using assms
    by (auto simp: connector_new_def load_verify_locations_def with_location_def call_def
        split: result.splits if_splits option.splits)
  then show ?thesis using that assms
    by (auto simp: connector_new_def load_android_root_certs_def split: poll.splits result.splits option.splits)
qed

lemma set_roots_Ok:
  assumes "set_roots fails b ctx = Ok ctx'"
  shows "ctx_store ctx' =
      (let st = if tb_disable_built_in_roots b then \<lparr>st_locations = [], st_certs = []\<rparr> else ctx_store ctx
       in st\<lparr>st_certs := st_certs st @ filter (\<lambda>c. fails (AddCert c) = None) (tb_root_certificates b)\<rparr>)"
    "ctx_min ctx' = ctx_min ctx" "ctx_max ctx' = ctx_max ctx" "ctx_options ctx' = ctx_options ctx"
  using assms by (auto simp: set_roots_def call_def add_roots_eq Let_def split: if_splits option.splits)

lemma connector_store_eq:
  assumes "connector_new cf probe android fails ctx0 b = Ready (Ok tc)"
  shows "st_locations (ctx_store (tc_context tc)) =
      (if tb_disable_built_in_roots b then []
       else st_locations (ctx_store ctx0) @ (case probe of None \<Rightarrow> [] | Some l \<Rightarrow> [l]))"
    and "st_certs (ctx_store (tc_context tc)) = (if tb_disable_built_in_roots b then [] else st_certs (ctx_store ctx0))
      @ filter (\<lambda>c. fails (AddCert c) = None)
          (tb_root_certificates b @ (case android of None \<Rightarrow> [] | Some s \<Rightarrow> android_certs s))"
proof -
  obtain ctx1 ctx2 ctx3 where c: "set_identity fails (tb_identity b) (with_location probe ctx0) = Ok ctx1"
    "supported_protocols cf fails (tb_min_protocol b) (tb_max_protocol b) ctx1 = Ready (Ok ctx2)"
    "set_roots fails b ctx2 = Ok ctx3"
    "tc_context tc = fold (add_root fails) (case android of None \<Rightarrow> [] | Some s \<Rightarrow> android_certs s) ctx3"
    using assms by (rule connector_new_Ok)
  have "ctx_store ctx2 = ctx_store (with_location probe ctx0)"
    using set_identity_frame(1) [OF c(1)] supported_protocols_frame [OF c(2)] by simp
  then show "st_locations (ctx_store (tc_context tc)) =
      (if tb_disable_built_in_roots b then []
       else st_locations (ctx_store ctx0) @ (case probe of None \<Rightarrow> [] | Some l \<Rightarrow> [l]))"
    "st_certs (ctx_store (tc_context tc)) = (if tb_disable_built_in_roots b then [] else st_certs (ctx_store ctx0))
      @ filter (\<lambda>c. fails (AddCert c) = None)
          (tb_root_certificates b @ (case android of None \<Rightarrow> [] | Some s \<Rightarrow> android_certs s))"
    unfolding c(4) using set_roots_Ok(1) [OF c(3)] by (simp_all add: add_roots_eq with_location_def Let_def)
qed

text \<open>The version settings of a connector are those \<open>supported_protocols\<close> makes in the context it starts from.\<close>

lemma connector_versions:
  assumes "connector_new cf probe android fails ctx0 b = Ready (Ok tc)"
  obtains ctx1 ctx2 where "supported_protocols cf fails (tb_min_protocol b) (tb_max_protocol b) ctx1 = Ready (Ok ctx2)"
    and "ctx_min ctx1 = ctx_min ctx0" "ctx_max ctx1 = ctx_max ctx0" "ctx_options ctx1 = ctx_options ctx0"
    and "ctx_min (tc_context tc) = ctx_min ctx2" "ctx_max (tc_context tc) = ctx_max ctx2"
    and "ctx_options (tc_context tc) = ctx_options ctx2"
proof -
  obtain ctx1 ctx2 ctx3 where c: "set_identity fails (tb_identity b) (with_location probe ctx0) = Ok ctx1"
    "supported_protocols cf fails (tb_min_protocol b) (tb_max_protocol b) ctx1 = Ready (Ok ctx2)"
    "set_roots fails b ctx2 = Ok ctx3"
    "tc_context tc = fold (add_root fails) (case android of None \<Rightarrow> [] | Some s \<Rightarrow> android_certs s) ctx3"
    using assms by (rule connector_new_Ok)
  show ?thesis
    by (rule that [OF c(2)])
      (use set_identity_frame(2-4) [OF c(1)] set_roots_Ok(2-4) [OF c(3)] in \<open>simp_all add: c(4) add_roots_eq with_location_def\<close>)
qed

lemma connector_flags:
  assumes "connector_new cf probe android fails ctx0 b = Ready (Ok tc)"
  shows "tc_use_sni tc = tb_use_sni b" "tc_accept_invalid_hostnames tc = tb_accept_invalid_hostnames b"
    "tc_accept_invalid_certs tc = tb_accept_invalid_certs b"
  using assms by (auto elim: connector_new_Ok)

lemma set_map_filter: "set (List.map_filter f xs) = {y. \<exists>x\<in>set xs. f x = Some y}"
  by (induction xs) (auto simp: map_filter_simps split: option.split)

lemma android_certs_set:
  "c \<in> set (android_certs s) \<longleftrightarrow>
     (\<exists>dir p bs. as_entries s = Some dir \<and> Some p \<in> set dir \<and> as_file s p = Some bs \<and> as_pem s bs = Some c)"
  by (cases "as_entries s") (auto simp: android_certs_def set_map_filter)

end
