(* ===== verification/Tls_Stream.thy ===== *)
theory Tls_Stream
  imports Native_Tls
begin

text \<open>
  The streams of \<open>native_tls/\<close>: \<open>TlsStream\<close> of \<open>mod.rs\<close> around \<open>TlsStream\<close> of \<open>openssl.rs\<close> around
  the \<open>SslStream\<close> of the \<open>openssl\<close> crate, and the errors of \<open>mod.rs\<close> around those of \<open>openssl.rs\<close>.
  What the crate's stream does is the record \<open>ssl_ops\<close>; every operation of the wrappers hands it
  the call and keeps the state it leaves.
\<close>

record ('c, 's) ssl_ops =
  so_get_ref :: "'c \<Rightarrow> 's"
  so_get_mut :: "('s \<Rightarrow> 's) \<Rightarrow> 'c \<Rightarrow> 'c"
  so_read :: "usize \<Rightarrow> 'c \<Rightarrow> (u8 list, io_error) result \<times> 'c"
  so_write :: "u8 list \<Rightarrow> 'c \<Rightarrow> (usize, io_error) result \<times> 'c"
  so_flush :: "'c \<Rightarrow> (unit, io_error) result \<times> 'c"

section \<open>\<open>openssl.rs\<close>\<close>

datatype 'c imp_tls_stream = ImpTlsStream 'c

fun imp_get_ref :: "('c, 's) ssl_ops \<Rightarrow> 'c imp_tls_stream \<Rightarrow> 's" where
  "imp_get_ref ops (ImpTlsStream c) = so_get_ref ops c"

fun imp_get_mut :: "('c, 's) ssl_ops \<Rightarrow> ('s \<Rightarrow> 's) \<Rightarrow> 'c imp_tls_stream \<Rightarrow> 'c imp_tls_stream" where
  "imp_get_mut ops f (ImpTlsStream c) = ImpTlsStream (so_get_mut ops f c)"

fun imp_read :: "('c, 's) ssl_ops \<Rightarrow> usize \<Rightarrow> 'c imp_tls_stream \<Rightarrow> (u8 list, io_error) result \<times> 'c imp_tls_stream" where
  "imp_read ops n (ImpTlsStream c) = (case so_read ops n c of (r, c') \<Rightarrow> (r, ImpTlsStream c'))"

fun imp_write :: "('c, 's) ssl_ops \<Rightarrow> u8 list \<Rightarrow> 'c imp_tls_stream \<Rightarrow> (usize, io_error) result \<times> 'c imp_tls_stream" where
  "imp_write ops buf (ImpTlsStream c) = (case so_write ops buf c of (r, c') \<Rightarrow> (r, ImpTlsStream c'))"

fun imp_flush :: "('c, 's) ssl_ops \<Rightarrow> 'c imp_tls_stream \<Rightarrow> (unit, io_error) result \<times> 'c imp_tls_stream" where
  "imp_flush ops (ImpTlsStream c) = (case so_flush ops c of (r, c') \<Rightarrow> (r, ImpTlsStream c'))"

section \<open>\<open>mod.rs\<close>\<close>

datatype 'c tls_stream = TlsStream "'c imp_tls_stream"

fun tls_get_ref :: "('c, 's) ssl_ops \<Rightarrow> 'c tls_stream \<Rightarrow> 's" where
  "tls_get_ref ops (TlsStream s) = imp_get_ref ops s"

fun tls_get_mut :: "('c, 's) ssl_ops \<Rightarrow> ('s \<Rightarrow> 's) \<Rightarrow> 'c tls_stream \<Rightarrow> 'c tls_stream" where
  "tls_get_mut ops f (TlsStream s) = TlsStream (imp_get_mut ops f s)"

fun tls_read :: "('c, 's) ssl_ops \<Rightarrow> usize \<Rightarrow> 'c tls_stream \<Rightarrow> (u8 list, io_error) result \<times> 'c tls_stream" where
  "tls_read ops n (TlsStream s) = (case imp_read ops n s of (r, s') \<Rightarrow> (r, TlsStream s'))"

fun tls_write :: "('c, 's) ssl_ops \<Rightarrow> u8 list \<Rightarrow> 'c tls_stream \<Rightarrow> (usize, io_error) result \<times> 'c tls_stream" where
  "tls_write ops buf (TlsStream s) = (case imp_write ops buf s of (r, s') \<Rightarrow> (r, TlsStream s'))"

fun tls_flush :: "('c, 's) ssl_ops \<Rightarrow> 'c tls_stream \<Rightarrow> (unit, io_error) result \<times> 'c tls_stream" where
  "tls_flush ops (TlsStream s) = (case imp_flush ops s of (r, s') \<Rightarrow> (r, TlsStream s'))"

section \<open>Errors and \<open>connect\<close> of \<open>mod.rs\<close>\<close>

fun tls_error_source ::
    "(error_stack \<Rightarrow> rstring option) \<Rightarrow> (rstring \<Rightarrow> rstring option) \<Rightarrow> tls_error \<Rightarrow> rstring option" where
  "tls_error_source stack_source ssl_source (TlsError e) = imp_error_source stack_source ssl_source e"

fun tls_error_fmt :: "tls_error \<Rightarrow> rstring" where
  "tls_error_fmt (TlsError e) = imp_error_fmt e"

datatype 's mid_handshake = MidHandshake "'s imp_mid_handshake"

datatype 's tls_handshake_error = TlsFailure tls_error | TlsWouldBlock "'s mid_handshake"

fun handshake_error_source :: "'s tls_handshake_error \<Rightarrow> tls_error option" where
  "handshake_error_source (TlsFailure e) = Some e"
| "handshake_error_source (TlsWouldBlock s) = None"

fun handshake_error_fmt :: "'s tls_handshake_error \<Rightarrow> rstring" where
  "handshake_error_fmt (TlsFailure e) = tls_error_fmt e"
| "handshake_error_fmt (TlsWouldBlock s) = str ''the handshake process was interrupted''"

fun tls_handshake_error_from :: "'s handshake_error \<Rightarrow> 's tls_handshake_error" where
  "tls_handshake_error_from (HandshakeFailure e) = TlsFailure (TlsError e)"
| "tls_handshake_error_from (HandshakeWouldBlock s) = TlsWouldBlock (MidHandshake s)"

definition connector_connect ::
    "ossl_fails \<Rightarrow> (ssl_config \<Rightarrow> rstring \<Rightarrow> 's \<Rightarrow> ('c, 's ssl_handshake_error) result)
      \<Rightarrow> tls_connector \<Rightarrow> rstring \<Rightarrow> 's \<Rightarrow> ('c tls_stream, 's tls_handshake_error) result" where
  "connector_connect fails ssl_connect c domain stream =
     (case tls_connect fails ssl_connect c domain stream of
        Ok s \<Rightarrow> Ok (TlsStream (ImpTlsStream s))
      | Err e \<Rightarrow> Err (tls_handshake_error_from e))"

text \<open>
  A handshake can be resumed exactly when the crate was interrupted: every other failure is an error
  whose text is that of the crate, with the verification result where that is not OK.
\<close>

fun ssl_failure_text :: "'s ssl_handshake_error \<Rightarrow> rstring option" where
  "ssl_failure_text (SslSetupFailure e) = Some e"
| "ssl_failure_text (SslFailure e v) = Some (if vr_code v = 0 then e else e @ str '' ('' @ vr_text v @ str '')'')"
| "ssl_failure_text (SslWouldBlock s) = None"

lemma tls_handshake_error_cases:
  "tls_handshake_error_from (handshake_error_from e) = TlsWouldBlock s \<longleftrightarrow>
     (\<exists>t. e = SslWouldBlock t \<and> s = MidHandshake (ImpMidHandshake t))"
  "map_option tls_error_fmt (handshake_error_source (tls_handshake_error_from (handshake_error_from e))) = ssl_failure_text e"
  by (cases e; auto)+

lemma connector_connect_error:
  assumes "connector_connect fails ssl_connect c domain stream = Err e"
  obtains (configure) stack where "fails Configure = Some stack" "e = TlsFailure (TlsError (Normal stack))"
  | (ssl) cf e' where "fails Configure = None" "ssl_connect cf domain stream = Err e'"
      "e = tls_handshake_error_from (handshake_error_from e')"
  using assms
  by (cases "fails Configure")
    (auto simp: connector_connect_def tls_connect_def Let_def map_err_Err_iff split: result.splits if_splits)

section \<open>Debug output\<close>

text \<open>
  The \<open>Debug\<close> implementations, derived ones for the enums: \<open>debug_tuple\<close> prints a variant with its
  fields. What the crate prints for its own types are the arguments.
\<close>

definition debug_tuple :: "string \<Rightarrow> rstring list \<Rightarrow> rstring" where
  "debug_tuple name parts =
     str name @ str ''('' @ (case parts of [] \<Rightarrow> [] | f # fs \<Rightarrow> f @ concat (map (\<lambda>g. str '', '' @ g) fs)) @ str '')''"

fun imp_error_debug ::
    "(error_stack \<Rightarrow> rstring) \<Rightarrow> (rstring \<Rightarrow> rstring) \<Rightarrow> (verify_result \<Rightarrow> rstring) \<Rightarrow> imp_error \<Rightarrow> rstring" where
  "imp_error_debug stack ssl verify (Normal e) = debug_tuple ''Normal'' [stack e]"
| "imp_error_debug stack ssl verify (Ssl e v) = debug_tuple ''Ssl'' [ssl e, verify v]"

fun tls_error_debug ::
    "(error_stack \<Rightarrow> rstring) \<Rightarrow> (rstring \<Rightarrow> rstring) \<Rightarrow> (verify_result \<Rightarrow> rstring) \<Rightarrow> tls_error \<Rightarrow> rstring" where
  "tls_error_debug stack ssl verify (TlsError e) = imp_error_debug stack ssl verify e"

fun imp_mid_debug :: "('s \<Rightarrow> rstring) \<Rightarrow> 's imp_mid_handshake \<Rightarrow> rstring" where
  "imp_mid_debug inner (ImpMidHandshake s) = inner s"

fun mid_debug :: "('s \<Rightarrow> rstring) \<Rightarrow> 's mid_handshake \<Rightarrow> rstring" where
  "mid_debug inner (MidHandshake s) = imp_mid_debug inner s"

fun imp_stream_debug :: "('c \<Rightarrow> rstring) \<Rightarrow> 'c imp_tls_stream \<Rightarrow> rstring" where
  "imp_stream_debug inner (ImpTlsStream c) = inner c"

fun tls_stream_debug :: "('c \<Rightarrow> rstring) \<Rightarrow> 'c tls_stream \<Rightarrow> rstring" where
  "tls_stream_debug inner (TlsStream s) = imp_stream_debug inner s"

text \<open>The first letter of an error's output tells which kind it is.\<close>

lemma tls_error_debug_variant:
  "hd (tls_error_debug stack ssl verify (TlsError e)) = ch CHR ''N'' \<longleftrightarrow> (\<exists>s. e = Normal s)"
  by (cases e) (simp_all add: debug_tuple_def str_def)

section \<open>The wrappers are transparent\<close>

datatype stream_call = CallRead usize | CallWrite "u8 list" | CallFlush
datatype stream_answer =
    ReadAnswer "(u8 list, io_error) result"
  | WriteAnswer "(usize, io_error) result"
  | FlushAnswer "(unit, io_error) result"

text \<open>A client that reads, writes and flushes a stream, through any three operations.\<close>

fun run_calls ::
    "(usize \<Rightarrow> 'c \<Rightarrow> (u8 list, io_error) result \<times> 'c) \<Rightarrow> (u8 list \<Rightarrow> 'c \<Rightarrow> (usize, io_error) result \<times> 'c)
      \<Rightarrow> ('c \<Rightarrow> (unit, io_error) result \<times> 'c) \<Rightarrow> stream_call list \<Rightarrow> 'c \<Rightarrow> stream_answer list \<times> 'c" where
  "run_calls rd wr fl [] c = ([], c)"
| "run_calls rd wr fl (CallRead n # cs) c =
     (case rd n c of (r, c') \<Rightarrow> (case run_calls rd wr fl cs c' of (as, c'') \<Rightarrow> (ReadAnswer r # as, c'')))"
| "run_calls rd wr fl (CallWrite buf # cs) c =
     (case wr buf c of (r, c') \<Rightarrow> (case run_calls rd wr fl cs c' of (as, c'') \<Rightarrow> (WriteAnswer r # as, c'')))"
| "run_calls rd wr fl (CallFlush # cs) c =
     (case fl c of (r, c') \<Rightarrow> (case run_calls rd wr fl cs c' of (as, c'') \<Rightarrow> (FlushAnswer r # as, c'')))"

lemma run_calls_wrapped:
  "run_calls (tls_read ops) (tls_write ops) (tls_flush ops) cs (TlsStream (ImpTlsStream c)) =
     (case run_calls (so_read ops) (so_write ops) (so_flush ops) cs c of (as, c') \<Rightarrow> (as, TlsStream (ImpTlsStream c')))"
  by (induction "so_read ops" "so_write ops" "so_flush ops" cs c rule: run_calls.induct) (auto split: prod.splits)

end
