(* ===== verification/Unit_Tests.thy ===== *)
theory Unit_Tests
  imports Request
begin

text \<open>
  The unit tests of \<open>request.rs\<close> and \<open>proxy.rs\<close>, each as the value of its assertions in the model, and
  the proof that they hold in every build and environment. They tie the model to the behaviour
  its authors wrote down.
\<close>

section \<open>Tests of \<open>proxy.rs\<close>\<close>

definition parse_proxy :: bool where
  "parse_proxy =
     (case proxy_new (str ''user:p@ssw0rd@localhost:9999'') of
        Ok p \<Rightarrow> proxy_user p = Some (str ''user'') \<and> proxy_password p = Some (str ''p@ssw0rd'')
          \<and> proxy_server p = str ''localhost'' \<and> proxy_port p = 9999
      | Err _ \<Rightarrow> False)"

definition parse_regular_proxy_with_protocol :: bool where
  "parse_regular_proxy_with_protocol =
     (case proxy_new (str ''http://localhost:1080'') of
        Ok p \<Rightarrow> proxy_user p = None \<and> proxy_password p = None \<and> proxy_server p = str ''localhost'' \<and> proxy_port p = 1080
      | Err _ \<Rightarrow> False)"

section \<open>Tests of \<open>request.rs\<close>\<close>

text \<open>Equality of hash maps: as many entries, and each found in the other.\<close>

definition hm_eq :: "hashmap \<Rightarrow> hashmap \<Rightarrow> bool" where
  "hm_eq m n \<longleftrightarrow> length m = length n \<and> list_all (\<lambda>(k, v). hm_get n k = Some v) m"

definition test_headers :: "(hashmap \<Rightarrow> hashmap) \<Rightarrow> bool" where
  "test_headers iter =
     (let headers = [];
          headers = hm_insert (str ''foo'') (str ''bar'') headers;
          headers = hm_insert (str ''foo'') (str ''baz'') headers;
          req = with_headers (iter headers) (get (str ''http://www.example.org/test/res''))
      in hm_eq (req_headers req) headers)"

definition test_multiple_params :: "cfg \<Rightarrow> environment \<Rightarrow> (rstring \<Rightarrow> rstring) \<Rightarrow> bool" where
  "test_multiple_params cf env uenc =
     (let req = get (str ''http://www.example.org/test/res'');
          req = with_param cf uenc (str ''foo'') (str ''bar'') req;
          req = with_param cf uenc (str ''asd'') (str ''qwe'') req
      in case parsed_request_new cf env req of
           Ok req \<Rightarrow> path_and_query (pr_url req) = str ''/test/res?foo=bar&asd=qwe''
         | Err _ \<Rightarrow> False)"

definition test_domain :: "cfg \<Rightarrow> environment \<Rightarrow> (rstring \<Rightarrow> rstring) \<Rightarrow> bool" where
  "test_domain cf env uenc =
     (let req = with_param cf uenc (str ''foo'') (str ''bar'') (get (str ''http://www.example.org/test/res''))
      in case parsed_request_new cf env req of
           Ok req \<Rightarrow> host (pr_url req) = str ''www.example.org''
         | Err _ \<Rightarrow> False)"

definition test_protocol :: "cfg \<Rightarrow> environment \<Rightarrow> (rstring \<Rightarrow> rstring) \<Rightarrow> bool" where
  "test_protocol cf env uenc =
     ((case parsed_request_new cf env
              (with_param cf uenc (str ''foo'') (str ''bar'') (get (str ''http://www.example.org/''))) of
         Ok req \<Rightarrow> \<not> https (pr_url req) | Err _ \<Rightarrow> False)
      \<and> (case parsed_request_new cf env
              (with_param cf uenc (str ''foo'') (str ''bar'') (get (str ''https://www.example.org/''))) of
           Ok req \<Rightarrow> https (pr_url req) | Err _ \<Rightarrow> False))"

text \<open>The string \<open>owo\<close> with an acute and a grave accent, and \<open>what's this?\<close> with a pair of eyes.\<close>

definition owo :: rstring where
  "owo = [0xF3, 119, 0xF2]"

definition whats_this :: rstring where
  "whats_this = str ''what'' @ [39] @ str ''s this? '' @ [0x1F440]"

definition test_with_param :: "cfg \<Rightarrow> environment \<Rightarrow> (rstring \<Rightarrow> rstring) \<Rightarrow> bool" where
  "test_with_param cf env uenc =
     ((case parsed_request_new cf env (with_param cf uenc (str ''foo'') (str ''bar'') (get (str ''http://www.example.org''))) of
         Ok req \<Rightarrow> path_and_query (pr_url req) = str ''/?foo=bar'' | Err _ \<Rightarrow> False)
      \<and> (case parsed_request_new cf env (with_param cf uenc owo whats_this (get (str ''http://www.example.org''))) of
           Ok req \<Rightarrow> path_and_query (pr_url req) = str ''/?%C3%B3w%C3%B2=what%27s%20this%3F%20%F0%9F%91%80''
         | Err _ \<Rightarrow> False))"

definition test_on_creation :: "cfg \<Rightarrow> environment \<Rightarrow> bool" where
  "test_on_creation cf env =
     ((case parsed_request_new cf env (get (str ''http://www.example.org/?foo=bar#baz'')) of
         Ok req \<Rightarrow> path_and_query (pr_url req) = str ''/?foo=bar'' | Err _ \<Rightarrow> False)
      \<and> (case parsed_request_new cf env (get (str ''http://www.example.org/?'' @ owo @ str ''='' @ whats_this)) of
           Ok req \<Rightarrow> path_and_query (pr_url req) = str ''/?%C3%B3w%C3%B2=what%27s%20this?%20%F0%9F%91%80''
         | Err _ \<Rightarrow> False))"

section \<open>The tests pass\<close>

text \<open>
  The documented behaviour of \<open>urlencoding::encode\<close>: every byte of the UTF-8 encoding except
  letters, digits and \<open>-_.~\<close> is percent-encoded.
\<close>

definition unreserved :: "u8 \<Rightarrow> bool" where
  "unreserved b \<longleftrightarrow> (48 \<le> b \<and> b \<le> 57) \<or> (65 \<le> b \<and> b \<le> 90) \<or> (97 \<le> b \<and> b \<le> 122) \<or> b \<in> {45, 95, 46, 126}"

definition url_encode :: "rstring \<Rightarrow> rstring" where
  "url_encode s = concat (map (\<lambda>b. if unreserved b then [unat b] else escape_byte b) (into_bytes s))"

lemmas url_eval = parse_eq_split url_split_def split_port_def host_char_def encode_resource_def push_resource_def url_safe_def
  parse_port_def strip_scheme_def str_def rust_defs

lemmas request_eval = parsed_request_new_def append_params_def with_param_def get_def request_new_def

lemmas proxy_eval = proxy_new_def proxy_authority_def parse_creds_def parse_address_def split_once_def rsplit_once_def
  split_last_def str_def rust_defs

lemma parse_proxy_passes: parse_proxy
  by (simp add: parse_proxy_def proxy_eval)

lemma parse_regular_proxy_passes: parse_regular_proxy_with_protocol
  by (simp add: parse_regular_proxy_with_protocol_def proxy_eval)

lemma test_headers_passes: "hash_order iter \<Longrightarrow> test_headers iter"
proof -
  assume "hash_order iter"
  then have "mset (iter [(str ''foo'', str ''baz'')]) = {#(str ''foo'', str ''baz'')#}" by (simp add: hash_order_def)
  then have "iter [(str ''foo'', str ''baz'')] = [(str ''foo'', str ''baz'')]" by (simp add: mset_single_iff)
  then show ?thesis
    by (simp add: test_headers_def hm_insert_def with_headers_def hm_extend_def get_def request_new_def hm_eq_def hm_get_def)
qed

text \<open>Letters are encoded as themselves.\<close>

lemma url_encode_letters: "url_encode (str ''foo'') = str ''foo''" "url_encode (str ''bar'') = str ''bar''"
  "url_encode (str ''asd'') = str ''asd''" "url_encode (str ''qwe'') = str ''qwe''"
  by (simp_all add: url_encode_def unreserved_def str_def encode_utf8_def byte_def)

lemmas url_encode_codes = url_encode_letters [unfolded str_def, simplified]

lemma url_encode_owo: "url_encode owo = str ''%C3%B3w%C3%B2''" "url_encode whats_this = str ''what%27s%20this%3F%20%F0%9F%91%80''"
  by (simp_all add: url_encode_def unreserved_def owo_def whats_this_def str_def encode_utf8_def byte_def escape_byte_def to_hex_digit_def)

lemma test_multiple_params_passes: "test_multiple_params cf env url_encode"
  by (simp add: test_multiple_params_def request_eval url_encode_codes url_eval)

lemma test_domain_passes: "test_domain cf env uenc"
  by (simp add: test_domain_def request_eval url_eval)

lemma test_protocol_passes: "test_protocol cf env uenc"
  by (simp add: test_protocol_def request_eval url_eval)

lemma test_with_param_passes: "feat_urlencoding cf \<Longrightarrow> test_with_param cf env url_encode"
  by (simp add: test_with_param_def request_eval url_encode_codes url_encode_owo url_eval)

lemma test_on_creation_passes: "feat_urlencoding cf \<Longrightarrow> test_on_creation cf env"
  by (simp add: test_on_creation_def request_eval owo_def whats_this_def encode_utf8_def byte_def escape_byte_def to_hex_digit_def url_eval)

end
