(* ===== verification/Test_Server.thy ===== *)
theory Test_Server
  imports Delivery_Spec Server_Spec Panic_Spec
begin

text \<open>
  The server of the integration tests, \<open>tests/setup.rs\<close>, and what it is for the client to talk to it.
  The handler is a function from the request that was read to an answer. The crate \<open>tiny_http\<close> reads the
  request and prints the answer: that it does both is the predicate \<open>hosted\<close>, which relates the bytes
  the client writes to the bytes it is sent.
\<close>

section \<open>The handler\<close>

text \<open>
  What the handler asks \<open>tiny_http\<close> to send: a status, the headers it adds, a body and its announced
  length, and how long it sleeps before, in nanoseconds. \<open>Response::from_string\<close> and \<open>Response::empty\<close>
  are documented to announce the length of what they send.
\<close>

record answer =
  an_status :: nat
  an_headers :: "(rstring \<times> rstring) list"
  an_body :: "u8 list"
  an_length :: nat
  an_delay :: nat

definition from_string :: "rstring \<Rightarrow> answer" where
  "from_string s =
     \<lparr>an_status = 200, an_headers = [], an_body = into_bytes s, an_length = length (into_bytes s), an_delay = 0\<rparr>"

definition empty_answer :: "nat \<Rightarrow> (rstring \<times> rstring) list \<Rightarrow> answer" where
  "empty_answer code hs = \<lparr>an_status = code, an_headers = hs, an_body = [], an_length = 0, an_delay = 0\<rparr>"

definition long_header :: "rstring \<times> rstring" where
  "long_header = (str ''Very-Long-Header'', replicate (1000 - length (str ''Very-Long-Header: '')) (ch CHR ''.''))"

definition header_pong :: "(rstring \<times> rstring) list \<Rightarrow> answer" where
  "header_pong headers =
     (case find (\<lambda>(field, value). field = str ''Ping'') headers of
        Some (field, value) \<Rightarrow> from_string value
      | None \<Rightarrow> from_string (str ''No header!''))"

definition test_server :: "read_request \<Rightarrow> answer" where
  "test_server q =
     (let content = (case from_utf8 (rr_body q) of Ok s \<Rightarrow> s | Err _ \<Rightarrow> []);
          url = hd (split_char (ch CHR ''#'') (rr_target q));
          on = (\<lambda>m u. rr_method q = str m \<and> url = str u)
      in if on ''GET'' ''/header_pong'' then header_pong (rr_headers q)
         else if on ''GET'' ''/slow_a'' then (from_string (str ''j: '' @ content))\<lparr>an_delay := 2 * 10 ^ 9\<rparr>
         else if on ''GET'' ''/a'' then from_string (str ''j: '' @ content)
         else if on ''POST'' ''/a'' then from_string (str ''POST to /a is not valid.'')
         else if on ''GET'' ''/long_header'' then empty_answer 200 [long_header]
         else if on ''GET'' ''/massive_content_length'' then (empty_answer 200 [])\<lparr>an_length := 10 ^ 15\<rparr>
         else if on ''GET'' ''/long_status_line'' then empty_answer 203 []
         else if on ''GET'' ''/redirect-baz'' then empty_answer 301 [(str ''Location'', str ''http://localhost:35562/a#baz'')]
         else if on ''GET'' ''/redirect'' then empty_answer 301 [(str ''Location'', str ''http://localhost:35562/a'')]
         else if on ''POST'' ''/redirect'' then empty_answer 303 [(str ''Location'', str ''http://localhost:35562/a'')]
         else if on ''GET'' ''/infiniteredirect'' then
           empty_answer 301 [(str ''Location'', str ''http://localhost:35562/redirectpong'')]
         else if on ''GET'' ''/redirectpong'' then
           empty_answer 301 [(str ''Location'', str ''http://localhost:35562/infiniteredirect'')]
         else if on ''GET'' ''/relativeredirect'' then empty_answer 303 [(str ''Location'', str ''/a'')]
         else if on ''POST'' ''/echo'' then from_string content
         else if on ''HEAD'' ''/b'' then empty_answer 418 []
         else if on ''POST'' ''/c'' then from_string (str ''l: '' @ content)
         else if on ''PUT'' ''/d'' then from_string (str ''m: '' @ content)
         else if on ''DELETE'' ''/e'' then from_string (str ''n: '' @ content)
         else if on ''TRACE'' ''/f'' then from_string (str ''o: '' @ content)
         else if on ''OPTIONS'' ''/g'' then from_string (str ''p: '' @ content)
         else if on ''CONNECT'' ''/h'' then from_string (str ''q: '' @ content)
         else if on ''PATCH'' ''/i'' then from_string (str ''r: '' @ content)
         else (from_string (str ''Not Found''))\<lparr>an_status := 404\<rparr>)"

text \<open>
  The four threads of \<open>setup\<close>, each a loop that takes a request and answers it. The \<open>return\<close> of the branch for
  \<open>/header_pong\<close> leaves the loop, and with it the thread. The arguments of \<open>serve\<close> are the threads that
  are left and the requests in the order they are taken; without a thread there is no answer.
\<close>

definition ends_thread :: "read_request \<Rightarrow> bool" where
  "ends_thread q \<longleftrightarrow> rr_method q = str ''GET'' \<and> hd (split_char (ch CHR ''#'') (rr_target q)) = str ''/header_pong''
     \<and> list_ex (\<lambda>(field, value). field = str ''Ping'') (rr_headers q)"

fun serve :: "nat \<Rightarrow> read_request list \<Rightarrow> answer option list" where
  "serve n [] = []"
| "serve 0 (q # qs) = None # serve 0 qs"
| "serve (Suc n) (q # qs) = Some (test_server q) # serve (if ends_thread q then n else Suc n) qs"

definition setup_server :: "read_request list \<Rightarrow> answer option list" where
  "setup_server = serve 4"

definition test_url :: "rstring \<Rightarrow> rstring" where
  "test_url req = str ''http://localhost:35562'' @ req"

definition get_body :: "(response, error) result \<Rightarrow> rstring" where
  "get_body request =
     (case request of
        Ok response \<Rightarrow> (case as_str response of Ok s \<Rightarrow> s | Err err \<Rightarrow> [])
      | Err err \<Rightarrow> [])"

definition get_status_code :: "(response, error) result \<Rightarrow> int" where
  "get_status_code request = (case request of Ok response \<Rightarrow> resp_status_code response | Err err \<Rightarrow> - 1)"

text \<open>
  Every request is answered as long as fewer than four ended a thread, which the tests keep to; after
  four of them, no request is.
\<close>

lemma serve_answers: "length (filter ends_thread qs) < n \<Longrightarrow> serve n qs = map (\<lambda>q. Some (test_server q)) qs"
  by (induction n qs rule: serve.induct) auto

lemma serve_none: "serve 0 qs = replicate (length qs) None"
  by (induction qs) auto

lemma serve_stops:
  "length (filter ends_thread qs) = n \<Longrightarrow> 0 < n \<Longrightarrow> ends_thread (last qs) \<Longrightarrow>
     serve n (qs @ rs) = map (\<lambda>q. Some (test_server q)) qs @ replicate (length rs) None"
proof (induction n qs rule: serve.induct)
  case (3 n q qs)
  show ?case
  proof (cases "qs = []")
    case False
    then have "last qs \<in> set (filter ends_thread qs)" using 3 by simp
    then have "0 < length (filter ends_thread qs)" by (rule length_pos_if_in_set)
    then show ?thesis using 3 False by (auto split: if_splits)
  qed (use 3 in \<open>auto simp: serve_none\<close>)
qed auto

lemma setup_server_answers:
  "length (filter ends_thread qs) < 4 \<Longrightarrow> setup_server qs = map (\<lambda>q. Some (test_server q)) qs"
  "list_all ends_thread qs \<Longrightarrow> length qs = 4 \<Longrightarrow>
     setup_server (qs @ rs) = map (\<lambda>q. Some (test_server q)) qs @ replicate (length rs) None"
proof -
  show "length (filter ends_thread qs) < 4 \<Longrightarrow> setup_server qs = map (\<lambda>q. Some (test_server q)) qs"
    unfolding setup_server_def by (rule serve_answers)
  show "list_all ends_thread qs \<Longrightarrow> length qs = 4 \<Longrightarrow>
     setup_server (qs @ rs) = map (\<lambda>q. Some (test_server q)) qs @ replicate (length rs) None"
    unfolding setup_server_def by (rule serve_stops) (auto simp: list_all_iff dest: bspec [OF _ last_in_set])
qed

section \<open>Talking to it\<close>

text \<open>
  A printed answer: the status with a reason phrase, of which that of 203 is relied on, the given
  headers, a content length and no other framing, and at most 256 bytes of further headers.
\<close>

definition prints :: "answer \<Rightarrow> rstring \<Rightarrow> rstring list \<Rightarrow> bool" where
  "prints a sl hs \<longleftrightarrow>
     (\<exists>reason. sl = print_status (an_status a) reason \<and> len_bytes sl \<le> 256
        \<and> (an_status a = 203 \<longrightarrow> reason = str ''Non-Authoritative Information''))
     \<and> framing (fold insert_header hs []) = Ok (ContentLength (an_length a)) \<and> one_length (fold insert_header hs [])
     \<and> hm_get (fold insert_header hs []) (str ''location'') = map_of (an_headers a) (str ''Location'')
     \<and> (\<forall>kv\<in>set (an_headers a). print_header kv \<in> set hs)
     \<and> block_size hs \<le> block_size (map print_header (an_headers a)) + 256"

text \<open>
  A connection to the server: it is accepted, the request is taken whole and read, and the answer of
  the handler to it is printed after its delay and less than a second of other latency.
\<close>

definition hosted_on :: "externals \<Rightarrow> connection \<Rightarrow> world \<Rightarrow> answer \<Rightarrow> duration \<Rightarrow> tcp_stream \<Rightarrow> rstring \<Rightarrow> rstring list \<Rightarrow> bool" where
  "hosted_on x c w a t tcp sl hs \<longleftrightarrow>
     (\<exists>ad as n ws. x_resolve x (host (conn_url c)) (port_number (url_port (conn_url c))) = Ok (ad # as)
        \<and> x_dial x ad (length (dialled w)) = Some (t, Ok tcp) \<and> tcp_writes tcp = Wrote n # ws
        \<and> length (as_bytes (x_iter x) (c_request c)) \<le> n)
     \<and> prints a sl hs \<and> delivers (Unsecured (tcp_incoming tcp) (c_timeout_at c)) sl hs (an_body a)
     \<and> an_delay a \<le> tcp_latency tcp \<and> resolved_at x c w + t + tcp_latency tcp < now w + an_delay a + 10 ^ 9
     \<and> map_option test_server (request_of (as_bytes (x_iter x) (c_request c))) = Some a"

definition hosted :: "externals \<Rightarrow> connection \<Rightarrow> world \<Rightarrow> answer \<Rightarrow> bool" where
  "hosted x c w a \<longleftrightarrow> (\<exists>t tcp sl hs. hosted_on x c w a t tcp sl hs)"

text \<open>A run of requests, each of which is sent to the server, redirects included.\<close>

inductive test_run :: "externals \<Rightarrow> connection \<Rightarrow> world \<Rightarrow> bool" for x where
  visit: "hosted x c w a \<Longrightarrow>
     (\<forall>c'. get_redirect (x_cfg x) c (int (an_status a)) (map_of (an_headers a) (str ''Location'')) = Redirect (Ok c')
        \<longrightarrow> test_run x c' (snd (exchange_http x c w))) \<Longrightarrow>
     test_run x c w"

text \<open>
  A request of a test, in an environment without proxies and timeouts and with any features, on a
  clock that is far from overflowing.
\<close>

definition tested :: "externals \<Rightarrow> request \<Rightarrow> world \<Rightarrow> bool" where
  "tested x req w \<longleftrightarrow> x_env x = (\<lambda>k. None) \<and> hash_order (x_iter x) \<and> now w div 10 ^ 9 < 2 ^ 62
     \<and> (\<forall>pr c. parsed_request_new (x_cfg x) (x_env x) req = Ok pr \<and> connection_new x w pr = Ready c \<longrightarrow> test_run x c w)"


section \<open>What the client gets\<close>

text \<open>The request as the server reads it.\<close>

abbreviation meant :: "(hashmap \<Rightarrow> hashmap) \<Rightarrow> parsed_request \<Rightarrow> u8 list \<Rightarrow> read_request" where
  "meant iter r body \<equiv> \<lparr>rr_method = method_fmt (req_method (pr_config r)), rr_target = path_and_query (pr_url r),
     rr_headers = header_fields iter r, rr_body = body, rr_rest = []\<rparr>"

definition local_request :: "parsed_request \<Rightarrow> u8 list \<Rightarrow> bool" where
  "local_request r body \<longleftrightarrow> host (pr_url r) = str ''localhost'' \<and> \<not> https (pr_url r) \<and> req_proxy (pr_config r) = None
     \<and> distinct_parts r \<and> announces r body"

lemma hosted_answer:
  assumes "hosted_on x c w a t tcp sl hs" "local_request (c_request c) body" "hash_order (x_iter x)"
  shows "a = test_server (meant (x_iter x) (c_request c) body)"
proof -
  have "request_of (as_bytes (x_iter x) (c_request c)) = Some (meant (x_iter x) (c_request c) body)"
    using request_of_as_bytes [of "c_request c" body "x_iter x" "[]"] assms(2,3) by (simp add: local_request_def)
  then show ?thesis using assms(1) by (simp add: hosted_on_def)
qed

definition answered_by :: "connection \<Rightarrow> world \<Rightarrow> answer \<Rightarrow> bool" where
  "answered_by c w a \<longleftrightarrow> (case c_timeout_at c of None \<Rightarrow> True | Some d \<Rightarrow> now w + an_delay a + 10 ^ 9 \<le> d)"

lemma hosted_served:
  assumes "hosted_on x c w a t tcp sl hs" "local_request (c_request c) body" "hash_order (x_iter x)" "answered_by c w a"
    and "status_fits (req_max_status_line_len (conn_config c)) sl" "block_fits (req_max_headers_size (conn_config c)) hs"
  shows "served x c w tcp sl hs (an_body a)"
proof -
  obtain ad as n ws where r: "x_resolve x (host (conn_url c)) (port_number (url_port (conn_url c))) = Ok (ad # as)"
    "x_dial x ad (length (dialled w)) = Some (t, Ok tcp)" "tcp_writes tcp = Wrote n # ws"
    "length (as_bytes (x_iter x) (c_request c)) \<le> n" and l: "resolved_at x c w + t + tcp_latency tcp < now w + an_delay a + 10 ^ 9"
    using assms(1) by (auto simp: hosted_on_def)
  have "case c_timeout_at c of None \<Rightarrow> True | Some d \<Rightarrow> resolved_at x c w + t + tcp_latency tcp \<le> d"
    using assms(4) l by (auto simp: answered_by_def split: option.splits)
  then have "reaches x c w n tcp" using r assms(2) by (auto simp: reaches_def local_request_def)
  moreover have "is_ascii (str ''localhost'')" by (simp add: str_def)
  ultimately show ?thesis using assms r(4)
    by (auto simp: served_def readable_def hosted_on_def prints_def local_request_def)
qed

lemma block_size_le: "l \<in> set ls \<Longrightarrow> len_bytes l + 2 \<le> block_size ls"
  by (induction ls) auto

text \<open>Without limits, a status line and headers of this server can be read.\<close>

lemma prints_fits:
  assumes "prints a sl hs" "block_size (map print_header (an_headers a)) \<le> 2 ^ 16"
  shows "status_fits None sl" "block_fits None hs"
proof -
  show "status_fits None sl" using assms(1) by (auto simp: prints_def status_fits_def usize_MAX_def)
  have "block_size hs \<le> 2 ^ 16 + 256" using assms by (simp add: prints_def)
  then show "block_fits None hs" using block_size_le [of _ hs]
    by (fastforce simp: block_fits_def usize_MAX_def)
qed

definition outcome :: "externals \<Rightarrow> connection \<Rightarrow> bool \<Rightarrow> world \<Rightarrow> (response, error) result poll" where
  "outcome x c is_head w = await (fst (send x c w)) (\<lambda>r. create (profile (x_cfg x)) r is_head)"

lemma request_outcome:
  assumes "parsed_request_new (x_cfg x) (x_env x) req = Ok pr" "connection_new x w pr = Ready c" "\<not> https (pr_url pr)"
  shows "fst (request_send x req w) = outcome x c (req_method req = Head) w"
  using assms parsed_request_config(3) [OF assms(1)]
  by (simp add: request_send_lazy_create request_send_lazy_def outcome_def split: prod.split)

lemma served_outcome:
  assumes "served x c w tcp sl hs (an_body a)" "prints a sl hs" "\<not> is_redirect (int (an_status a))"
    and "an_length a = length (an_body a)" "an_status a < 2 ^ 31"
  shows "outcome x c h w = Ready (Ok ((parsed_response sl hs (if h \<or> an_status a \<in> {204, 304} then [] else an_body a))
      \<lparr>resp_url := print_url (conn_url c)\<rparr>))"
    and "fst (parse_status_line sl) = int (an_status a)"
proof -
  obtain reason where "sl = print_status (an_status a) reason" using assms(2) by (auto simp: prints_def)
  then show st: "fst (parse_status_line sl) = int (an_status a)" using parse_status_print [OF assms(5)] by simp
  have f: "framing (fold insert_header hs []) = Ok (ContentLength (length (an_body a)))"
    using assms(2,4) by (simp add: prints_def)
  have "answered x c w tcp sl hs (an_body a)" using assms(1,3) st by (simp add: answered_def)
  from send_answered [OF this f] obtain r w' where r: "send x c w = (Ready (Ok r), w')" "is_unsecured (lz_stream r)"
    "body_avail r = an_body a" "lz_state r = ContentLength (length (an_body a))"
    "closes (tcp_incoming tcp) \<longrightarrow> closes (events (lz_stream r))" "lz_status_code r = fst (parse_status_line sl)"
    "\<And>bd. response_of r bd = (parsed_response sl hs bd)\<lparr>resp_url := print_url (conn_url c)\<rparr>"
    by metis
  have "delimited (ContentLength (length (an_body a))) (an_body a) tcp" by (simp add: delimited_def)
  from create_delivers [OF r(2-4) this r(5), of "profile (x_cfg x)" h]
  show "outcome x c h w = Ready (Ok ((parsed_response sl hs (if h \<or> an_status a \<in> {204, 304} then [] else an_body a))
      \<lparr>resp_url := print_url (conn_url c)\<rparr>))"
    using r(1,6,7) st by (auto simp: outcome_def)
qed


text \<open>A response with this status and body from this address.\<close>

definition returns :: "(response, error) result poll \<Rightarrow> nat \<Rightarrow> u8 list \<Rightarrow> rstring \<Rightarrow> bool" where
  "returns p code body u \<longleftrightarrow>
     (\<exists>resp. p = Ready (Ok resp) \<and> resp_status_code resp = int code \<and> resp_body resp = body \<and> resp_url resp = u)"

definition unlimited :: "request \<Rightarrow> bool" where
  "unlimited req \<longleftrightarrow> req_max_status_line_len req = None \<and> req_max_headers_size req = None"

lemma test_run_served:
  assumes "test_run x c w" "hash_order (x_iter x)" "local_request (c_request c) body" "unlimited (conn_config c)"
    and "test_server (meant (x_iter x) (c_request c) body) = a" "answered_by c w a"
    and "block_size (map print_header (an_headers a)) \<le> 2 ^ 16"
  obtains tcp sl hs where "served x c w tcp sl hs (an_body a)" "prints a sl hs"
    and "\<And>c'. get_redirect (x_cfg x) c (int (an_status a)) (map_of (an_headers a) (str ''Location'')) = Redirect (Ok c')
        \<Longrightarrow> test_run x c' (snd (exchange_http x c w))"
proof -
  from assms(1) obtain a' t tcp sl hs where h: "hosted_on x c w a' t tcp sl hs"
    "\<And>c'. get_redirect (x_cfg x) c (int (an_status a')) (map_of (an_headers a') (str ''Location'')) = Redirect (Ok c')
        \<Longrightarrow> test_run x c' (snd (exchange_http x c w))"
    by (cases rule: test_run.cases) (auto simp: hosted_def)
  then have a: "a' = a" using hosted_answer [OF h(1) assms(3,2)] assms(5) by simp
  have p: "prints a sl hs" using h(1) a by (simp add: hosted_on_def)
  show ?thesis
    using that [of tcp sl hs] hosted_served [OF h(1) assms(3,2)] prints_fits [OF p assms(7)] p h(2) assms(4,6)
    unfolding a unlimited_def by simp
qed

lemma run_final:
  assumes "test_run x c w" "hash_order (x_iter x)" "local_request (c_request c) body" "unlimited (conn_config c)"
    and "test_server (meant (x_iter x) (c_request c) body) = a" "answered_by c w a"
    and "block_size (map print_header (an_headers a)) \<le> 2 ^ 16"
    and "\<not> is_redirect (int (an_status a))" "an_length a = length (an_body a)" "an_status a < 2 ^ 31"
  shows "returns (outcome x c h w) (an_status a) (if h \<or> an_status a \<in> {204, 304} then [] else an_body a) (print_url (conn_url c))"
proof -
  obtain tcp sl hs where "served x c w tcp sl hs (an_body a)" "prints a sl hs"
    using test_run_served [OF assms(1-7)] by metis
  from served_outcome [OF this assms(8-10)] show ?thesis by (simp add: returns_def parsed_response_def)
qed

lemma served_exchange:
  assumes "served x c w tcp sl hs (an_body a)" "prints a sl hs" "an_status a < 2 ^ 31"
  obtains r w' where "exchange_http x c w = (Ready (Ok r), w')" "with_ascii_host x c = Ok c"
    "lz_status_code r = int (an_status a)" "hm_get (lz_headers r) (str ''location'') = map_of (an_headers a) (str ''Location'')"
proof -
  obtain n where n: "reaches x c w n tcp" "is_ascii (host (conn_url c))"
    and rd: "readable (x_iter x) (req_max_headers_size (conn_config c)) (req_max_status_line_len (conn_config c))
         (Unsecured (tcp_incoming tcp) (c_timeout_at c)) sl hs (an_body a)"
    using assms(1) by (auto simp: served_def)
  obtain reason where p: "sl = print_status (an_status a) reason" "framing (fold insert_header hs []) = Ok (ContentLength (an_length a))"
    "hm_get (fold insert_header hs []) (str ''location'') = map_of (an_headers a) (str ''Location'')"
    using assms(2) by (auto simp: prints_def)
  obtain r where r: "read_head x c (Unsecured (tcp_incoming tcp) (c_timeout_at c)) = Ready (Ok r)"
    "lz_status_code r = fst (parse_status_line sl)" "\<forall>bd. response_of r bd = parsed_response sl hs bd"
    using from_stream_readable [OF rd p(2), of "profile (x_cfg x)"] by (auto simp: read_head_def)
  have h: "lz_headers r = fold insert_header hs []" using r(3) by (simp add: response_of_def parsed_response_def)
  obtain w' where "exchange_http x c w = (Ready (Ok r), w')" using exchange_http_reaches [OF n(1)] r(1) by metis
  moreover have "with_ascii_host x c = Ok c" using n(2) by (simp add: with_ascii_host_def ensure_ascii_host_def)
  ultimately show ?thesis
    by (rule that) (use r(2) h p parse_status_print [OF assms(3), of reason] in simp_all)
qed

lemma run_redirect:
  assumes "test_run x c w" "hash_order (x_iter x)" "local_request (c_request c) body" "unlimited (conn_config c)"
    and "test_server (meant (x_iter x) (c_request c) body) = a" "c_timeout_at c = None"
    and "block_size (map print_header (an_headers a)) \<le> 2 ^ 16" "an_status a < 2 ^ 31"
  shows "get_redirect (x_cfg x) c (int (an_status a)) (map_of (an_headers a) (str ''Location'')) = Redirect (Ok c') \<Longrightarrow>
      \<not> https (conn_url c') \<Longrightarrow> \<exists>w'. outcome x c h w = outcome x c' h w' \<and> test_run x c' w'"
    and "get_redirect (x_cfg x) c (int (an_status a)) (map_of (an_headers a) (str ''Location'')) = Redirect (Err e) \<Longrightarrow>
      outcome x c h w = Ready (Err e)"
proof -
  have "answered_by c w a" using assms(6) by (simp add: answered_by_def)
  from test_run_served [OF assms(1-5) this assms(7)] obtain tcp sl hs where t: "served x c w tcp sl hs (an_body a)" "prints a sl hs"
    "\<And>c'. get_redirect (x_cfg x) c (int (an_status a)) (map_of (an_headers a) (str ''Location'')) = Redirect (Ok c')
        \<Longrightarrow> test_run x c' (snd (exchange_http x c w))" by metis
  obtain r w' where r: "exchange_http x c w = (Ready (Ok r), w')" "with_ascii_host x c = Ok c"
    "lz_status_code r = int (an_status a)" "hm_get (lz_headers r) (str ''location'') = map_of (an_headers a) (str ''Location'')"
    using served_exchange [OF t(1,2) assms(8)] by metis
  have "timeout w c = Ok None" using assms(6) by (simp add: timeout_def timeout_at_to_duration_def)
  then have s: "send x c w = handle_redirects x c r w'"
    using r(1,2) by (simp add: send.simps send_without_timeout.simps deadline_def)
  show "\<exists>w'. outcome x c h w = outcome x c' h w' \<and> test_run x c' w'"
    if "get_redirect (x_cfg x) c (int (an_status a)) (map_of (an_headers a) (str ''Location'')) = Redirect (Ok c')"
      "\<not> https (conn_url c')"
    using that t(3) r by (intro exI [of _ w']) (simp add: outcome_def s handle_redirects.simps)
  show "outcome x c h w = Ready (Err e)"
    if "get_redirect (x_cfg x) c (int (an_status a)) (map_of (an_headers a) (str ''Location'')) = Redirect (Err e)"
    using that r by (simp add: outcome_def s handle_redirects.simps)
qed

section \<open>Addresses of the server\<close>

abbreviation local_url :: "rstring \<Rightarrow> rstring option \<Rightarrow> http_url" where
  "local_url p f \<equiv> \<lparr>https = False, host = str ''localhost'', url_port = Explicit 35562, path_and_query = p, fragment = f\<rparr>"

lemma print_local: "print_url (local_url p f) = test_url (p @ (case f of None \<Rightarrow> [] | Some t \<Rightarrow> 35 # t))"
  by (simp add: print_url_eq test_url_def str_def show_nat.simps)

definition safe_path :: "rstring \<Rightarrow> bool" where
  "safe_path p \<longleftrightarrow> (\<exists>t. p = ch CHR ''/'' # t) \<and> ch CHR ''#'' \<notin> set p \<and> list_all url_safe p"

lemma parse_local:
  assumes "safe_path p" "case f of None \<Rightarrow> True | Some t \<Rightarrow> list_all url_safe t"
  shows "parse cf (test_url (p @ (case f of None \<Rightarrow> [] | Some t \<Rightarrow> 35 # t))) None = Ok (local_url p f)"
proof -
  have "wf_url (local_url p f)" using assms(1) by (auto simp: wf_url_def safe_path_def host_char_def str_def)
  then show ?thesis unfolding print_local [symmetric]
    by (rule parse_print_general) (use assms in \<open>auto simp: safe_path_def list_all_iff intro!: encode_resource_safe split: option.splits\<close>)
qed

lemma parsed_local:
  assumes "parse cf (req_url req) None = Ok (local_url p f)" "req_params req = []"
  shows "parsed_request_new cf (\<lambda>k. None) req = Ok \<lparr>pr_url = local_url p f, pr_redirects = [], pr_config = req\<rparr>"
  using assms by (simp add: parsed_request_new_def append_params_def default_proxy_def set_env_proxy_def)


lemma redirect_local:
  assumes "safe_path p'" "case f' of None \<Rightarrow> True | Some t \<Rightarrow> list_all url_safe t"
    and "loc = test_url (p' @ (case f' of None \<Rightarrow> [] | Some t \<Rightarrow> 35 # t)) \<or> loc = p' \<and> f' = None \<and> \<not> contains p' (str ''://'')"
    and "pr_url r = local_url p f"
  shows "redirect_to cf loc r = (push_redirect (local_url p' (case f' of None \<Rightarrow> f | Some t \<Rightarrow> Some t)) r,
      check_redirects (push_redirect (local_url p' (case f' of None \<Rightarrow> f | Some t \<Rightarrow> Some t)) r))"
proof -
  have c: "contains (test_url t) (str ''://'')" for t
  proof -
    have "test_url t = str ''http'' @ str ''://'' @ str ''localhost:35562'' @ t" by (simp add: test_url_def str_def)
    then show ?thesis unfolding contains_sublist by (metis sublist_appendI)
  qed
  have b: "write_base_url_to (local_url p f) [] @ p' = test_url p'"
    by (simp add: write_base_url_to_def test_url_def str_def show_nat.simps)
  have "parse cf (test_url (p' @ (case f' of None \<Rightarrow> [] | Some t \<Rightarrow> 35 # t))) (Some (local_url p f)) =
      Ok (local_url p' (case f' of None \<Rightarrow> f | Some t \<Rightarrow> Some t))"
    unfolding redirect_fragment [of cf _ "local_url p f"] parse_local [OF assms(1,2)] by (simp split: option.split)
  then show ?thesis using assms(3,4) c b by (auto simp: redirect_to_def Let_def)
qed

section \<open>Requests of the tests\<close>

lemma safe_path_chars:
  assumes "safe_path p" "c \<in> set p"
  shows "is_scalar c" "c \<noteq> 10" "c \<noteq> 32"
proof -
  have u: "url_safe c" using assms by (auto simp: safe_path_def list_all_iff)
  then show "is_scalar c" using url_safe_ascii by auto
  show "c \<noteq> 10" "c \<noteq> 32" using u by (auto simp: url_safe_def rust_defs)
qed

definition plain_header :: "rstring \<times> rstring \<Rightarrow> bool" where
  "plain_header kv \<longleftrightarrow> ch CHR '':'' \<notin> set (fst kv) \<and> plain_line (fst kv @ snd kv)"

lemma local_requestI:
  assumes "safe_path p" "req_proxy q = None" "list_all (\<lambda>c. 32 < c \<and> c < 128) (method_fmt (req_method q))"
    and "list_all plain_header (req_headers q)"
    and "announces \<lparr>pr_url = local_url p f, pr_redirects = rs, pr_config = q\<rparr> body"
  shows "local_request \<lparr>pr_url = local_url p f, pr_redirects = rs, pr_config = q\<rparr> body"
proof -
  have "\<forall>c\<in>set p. is_scalar c" "10 \<notin> set p" "32 \<notin> set p" using safe_path_chars [OF assms(1)] by auto
  moreover have "\<forall>c\<in>set (method_fmt (req_method q)). is_scalar c" "10 \<notin> set (method_fmt (req_method q))"
    "32 \<notin> set (method_fmt (req_method q))" using assms(3) by (auto simp: list_all_iff)
  moreover have "\<forall>c\<in>set (str ''localhost''). is_scalar c" "10 \<notin> set (str ''localhost'')" by (simp_all add: str_def)
  ultimately show ?thesis using assms(2,4,5)
    by (auto simp: local_request_def distinct_parts_def lf_free_def plain_header_def plain_line_def list_all_iff)
qed

text \<open>A request of a test is sent in a run against the server.\<close>

definition sends :: "(request \<Rightarrow> (response, error) result poll) \<Rightarrow> request \<Rightarrow> bool" where
  "sends send_to req \<longleftrightarrow> (\<exists>x w. tested x req w \<and> send_to req = fst (request_send x req w))"

lemma sends_outcome:
  assumes "sends send_to req" "req_url req = test_url (p @ (case f of None \<Rightarrow> [] | Some t \<Rightarrow> 35 # t))"
    and "safe_path p" "case f of None \<Rightarrow> True | Some t \<Rightarrow> list_all url_safe t" "req_params req = []"
    and "case req_timeout req of None \<Rightarrow> True | Some t \<Rightarrow> t < 2 ^ 32"
  obtains x w c where "hash_order (x_iter x)" "test_run x c w" "send_to req = outcome x c (req_method req = Head) w"
    and "c_request c = \<lparr>pr_url = local_url p f, pr_redirects = [], pr_config = req\<rparr>"
    and "c_timeout_at c = map_option (\<lambda>t. now w + t * 10 ^ 9) (req_timeout req)"
proof -
  obtain x w where x: "tested x req w" "send_to req = fst (request_send x req w)" using assms(1) by (auto simp: sends_def)
  let ?pr = "\<lparr>pr_url = local_url p f, pr_redirects = [], pr_config = req\<rparr>"
  have pr: "parsed_request_new (x_cfg x) (x_env x) req = Ok ?pr"
    using parsed_local [of "x_cfg x" req p f] parse_local [OF assms(3,4)] assms(2,5) x(1) by (simp add: tested_def)
  have e: "env_timeout (\<lambda>k. None) = None" by (simp add: env_timeout_def)
  show ?thesis
  proof (cases "connection_new x w ?pr")
    case (Ready c)
    then have "c_request c = ?pr" "c_timeout_at c = map_option (\<lambda>t. now w + t * 10 ^ 9) (req_timeout req)"
      using x(1) e by (auto simp: connection_new_def tested_def instant_add_def split: option.splits if_splits)
    moreover have "test_run x c w" "hash_order (x_iter x)" using x(1) pr Ready by (auto simp: tested_def)
    ultimately show ?thesis using that [of x c w] request_outcome [OF pr Ready] x(2) by simp
  next
    case Panicked
    then show ?thesis using assms(6) x(1) e
      by (auto simp: connection_new_Panicked tested_def split: option.splits)
  next
    case Pending
    then show ?thesis by (auto simp: connection_new_def instant_add_def split: option.splits if_splits)
  qed
qed

end
