(* ===== verification/Integration_Tests.thy ===== *)
theory Integration_Tests
  imports Test_Server Response_Spec Example_Requests
begin

text \<open>
  The integration tests of \<open>tests/main.rs\<close>, each as the value of its assertions for a way to send
  requests, and the proof that they hold when the requests are sent to the server of \<open>Test_Server\<close>.
\<close>

section \<open>The tests\<close>

text \<open>What is asserted of an awaited result; a test that waits for ever or panics does not pass.\<close>

definition awaited :: "'a poll \<Rightarrow> ('a \<Rightarrow> bool) \<Rightarrow> bool" where
  "awaited p assertion = (case p of Ready r \<Rightarrow> assertion r | Pending \<Rightarrow> False | Panicked \<Rightarrow> False)"

type_synonym sender = "request \<Rightarrow> (response, error) result poll"

definition test_timeout_too_low :: "sender \<Rightarrow> bool" where
  "test_timeout_too_low send_to =
     awaited (send_to (with_timeout 1 (with_body (into_bytes (str ''Q'')) (get (test_url (str ''/slow_a'')))))) (\<lambda>r. \<not> is_ok r)"

definition test_timeout_high_enough :: "sender \<Rightarrow> bool" where
  "test_timeout_high_enough send_to =
     awaited (send_to (with_timeout 3 (with_body (into_bytes (str ''Q'')) (get (test_url (str ''/slow_a''))))))
       (\<lambda>r. get_body r = str ''j: Q'')"

definition test_header_ping :: "sender \<Rightarrow> bool" where
  "test_header_ping send_to =
     awaited (send_to (with_header (str ''Ping'') (str ''Qwerty'') (get (test_url (str ''/header_pong'')))))
       (\<lambda>r. get_body r = str ''Qwerty'')"

definition test_custom_method :: "sender \<Rightarrow> bool" where
  "test_custom_method send_to =
     awaited (send_to (with_body (into_bytes (str ''Q'')) (request_new (Custom (str ''GET'')) (test_url (str ''/a'')))))
       (\<lambda>r. get_body r = str ''j: Q'')"

definition test_get :: "sender \<Rightarrow> bool" where
  "test_get send_to =
     awaited (send_to (with_body (into_bytes (str ''Q'')) (get (test_url (str ''/a''))))) (\<lambda>r. get_body r = str ''j: Q'')"

definition test_redirect_get :: "sender \<Rightarrow> bool" where
  "test_redirect_get send_to =
     awaited (send_to (with_body (into_bytes (str ''Q'')) (get (test_url (str ''/redirect''))))) (\<lambda>r. get_body r = str ''j: Q'')"

definition test_redirect_post :: "sender \<Rightarrow> bool" where
  "test_redirect_post send_to =
     awaited (send_to (with_body (into_bytes (str ''Q'')) (post (test_url (str ''/redirect''))))) (\<lambda>r. get_body r = str ''j: Q'')"

definition test_redirect_with_fragment :: "sender \<Rightarrow> bool" where
  "test_redirect_with_fragment send_to =
     awaited (send_to (get (test_url (str ''/redirect#foo''))))
       (\<lambda>r. case r of Ok res \<Rightarrow> resp_url res = test_url (str ''/a#foo'') | Err e \<Rightarrow> False)"

definition test_redirect_with_overridden_fragment :: "sender \<Rightarrow> bool" where
  "test_redirect_with_overridden_fragment send_to =
     awaited (send_to (get (test_url (str ''/redirect-baz#foo''))))
       (\<lambda>r. case r of Ok res \<Rightarrow> resp_url res = test_url (str ''/a#baz'') | Err e \<Rightarrow> False)"

definition test_infinite_redirect :: "sender \<Rightarrow> bool" where
  "test_infinite_redirect send_to = awaited (send_to (get (test_url (str ''/infiniteredirect'')))) (\<lambda>r. \<not> is_ok r)"

definition test_relative_redirect_get :: "sender \<Rightarrow> bool" where
  "test_relative_redirect_get send_to =
     awaited (send_to (with_body (into_bytes (str ''Q'')) (get (test_url (str ''/relativeredirect'')))))
       (\<lambda>r. get_body r = str ''j: Q'')"

definition test_head :: "sender \<Rightarrow> bool" where
  "test_head send_to = awaited (send_to (head (test_url (str ''/b'')))) (\<lambda>r. get_status_code r = 418)"

definition test_post :: "sender \<Rightarrow> bool" where
  "test_post send_to =
     awaited (send_to (with_body (into_bytes (str ''E'')) (post (test_url (str ''/c''))))) (\<lambda>r. get_body r = str ''l: E'')"

definition test_put :: "sender \<Rightarrow> bool" where
  "test_put send_to =
     awaited (send_to (with_body (into_bytes (str ''R'')) (put (test_url (str ''/d''))))) (\<lambda>r. get_body r = str ''m: R'')"

definition test_delete :: "sender \<Rightarrow> bool" where
  "test_delete send_to = awaited (send_to (delete (test_url (str ''/e'')))) (\<lambda>r. get_body r = str ''n: '')"

definition test_trace :: "sender \<Rightarrow> bool" where
  "test_trace send_to = awaited (send_to (trace (test_url (str ''/f'')))) (\<lambda>r. get_body r = str ''o: '')"

definition test_options :: "sender \<Rightarrow> bool" where
  "test_options send_to =
     awaited (send_to (with_body (into_bytes (str ''U'')) (options (test_url (str ''/g''))))) (\<lambda>r. get_body r = str ''p: U'')"

definition test_connect :: "sender \<Rightarrow> bool" where
  "test_connect send_to =
     awaited (send_to (with_body (into_bytes (str ''I'')) (connect (test_url (str ''/h''))))) (\<lambda>r. get_body r = str ''q: I'')"

definition test_patch :: "sender \<Rightarrow> bool" where
  "test_patch send_to =
     awaited (send_to (with_body (into_bytes (str ''O'')) (patch (test_url (str ''/i''))))) (\<lambda>r. get_body r = str ''r: O'')"

definition tcp_connect_timeout :: "sender \<Rightarrow> bool" where
  "tcp_connect_timeout send_to =
     awaited (send_to (with_timeout 1 (request_new Get (str ''http://127.0.0.1:32162''))))
       (\<lambda>r. case r of Err (IoError err) \<Rightarrow> kind err = TimedOut | _ \<Rightarrow> False)"

definition test_header_cap :: "sender \<Rightarrow> bool" where
  "test_header_cap send_to \<longleftrightarrow>
     awaited (send_to (with_max_headers_size (Some 999) (get (test_url (str ''/long_header''))))) (\<lambda>r. r = Err HeadersOverflow)
     \<and> awaited (send_to (with_max_headers_size (Some 1500) (get (test_url (str ''/long_header''))))) is_ok"

definition expected_status_line :: rstring where
  "expected_status_line = str ''HTTP/1.1 203 Non-Authoritative Information''"

definition test_status_line_cap :: "sender \<Rightarrow> bool" where
  "test_status_line_cap send_to \<longleftrightarrow>
     awaited (send_to (with_max_status_line_length (Some (len_bytes expected_status_line + 1)) (get (test_url (str ''/long_status_line'')))))
       (\<lambda>r. r = Err StatusLineOverflow)
     \<and> awaited (send_to (with_max_status_line_length (Some (len_bytes expected_status_line + 2)) (get (test_url (str ''/long_status_line'')))))
       is_ok"

text \<open>The result is dropped: the test passes unless the client crashes.\<close>

definition test_massive_content_length :: "sender \<Rightarrow> bool" where
  "test_massive_content_length send_to \<longleftrightarrow> send_to (get (test_url (str ''/massive_content_length''))) \<noteq> Panicked"

text \<open>The conversion between text and JSON is that of \<open>serde_json\<close>.\<close>

definition test_json_using_serde ::
    "('j \<Rightarrow> (rstring, rstring) result) \<Rightarrow> (rstring \<Rightarrow> ('j, rstring) result) \<Rightarrow> 'j \<Rightarrow> sender \<Rightarrow> bool" where
  "test_json_using_serde to_string from_str original_json send_to =
     (case with_json to_string original_json (post (test_url (str ''/echo''))) of
        Ok req \<Rightarrow> awaited (send_to req) (\<lambda>r. case r of Ok response \<Rightarrow> json from_str response = Ok original_json | Err e \<Rightarrow> False)
      | Err e \<Rightarrow> False)"

definition test_https :: "sender \<Rightarrow> bool" where
  "test_https send_to = awaited (send_to (get (str ''https://example.com''))) (\<lambda>r. get_status_code r = 200)"

section \<open>Tests that need one answer\<close>

lemmas request_defs = with_body_def with_header_def with_timeout_def with_max_headers_size_def with_max_status_line_length_def
  request_new_def get_def head_def post_def put_def delete_def connect_def options_def trace_def patch_def hm_insert_def

lemma ascii_text: "list_all (\<lambda>c. c < 128) s \<Longrightarrow> from_utf8 (into_bytes s) = Ok s"
  by (auto simp: from_utf8_Ok_iff list_all_iff)

lemma get_body_returns:
  assumes "returns p code (into_bytes s) u" "list_all (\<lambda>c. c < 128) s"
  shows "awaited p (\<lambda>r. get_body r = s)"
  using assms ascii_text by (auto simp: returns_def awaited_def get_body_def as_str_def)

lemma announces_body:
  assumes "req_headers q = [(str ''Content-Length'', show_nat (length body))]" "req_body q = Some body" "length body \<le> usize_MAX"
  shows "announces \<lparr>pr_url = u, pr_redirects = rs, pr_config = q\<rparr> body"
proof -
  have "is_length_key (str ''Content-Length'')" by (simp add: is_length_key_def rust_defs)
  then show ?thesis using assms by (simp add: announces_def)
qed

lemma announces_none:
  assumes "\<forall>(k, v)\<in>set (req_headers q). \<not> is_length_key k" "req_body q = None"
  shows "announces \<lparr>pr_url = u, pr_redirects = rs, pr_config = q\<rparr> []"
  using assms by (auto simp: announces_def)

lemma split_char_path: "ch CHR ''#'' \<notin> set p \<Longrightarrow> hd (split_char (ch CHR ''#'') p) = p"
  by (simp add: split_char_no_delim)


text \<open>A request that the tests can send, its text and what the handler answers to it.\<close>

definition test_request :: "request \<Rightarrow> u8 list \<Rightarrow> bool" where
  "test_request req body \<longleftrightarrow> req_params req = [] \<and> req_proxy req = None
     \<and> list_all (\<lambda>c. 32 < c \<and> c < 128) (method_fmt (req_method req)) \<and> list_all plain_header (req_headers req)
     \<and> (\<forall>u rs. announces \<lparr>pr_url = u, pr_redirects = rs, pr_config = req\<rparr> body)"

lemma test_request_local:
  "test_request req body \<Longrightarrow> safe_path p \<Longrightarrow> local_request \<lparr>pr_url = local_url p f, pr_redirects = rs, pr_config = req\<rparr> body"
  by (rule local_requestI) (auto simp: test_request_def)

definition readable_answer :: "answer \<Rightarrow> bool" where
  "readable_answer a \<longleftrightarrow> block_size (map print_header (an_headers a)) \<le> 2 ^ 16 \<and> \<not> is_redirect (int (an_status a))
     \<and> an_length a = length (an_body a) \<and> an_status a < 2 ^ 31"

lemma one_answer:
  assumes "sends send_to req" "test_request req body" "req_url req = test_url p" "safe_path p" "unlimited req"
    and "case req_timeout req of None \<Rightarrow> True | Some t \<Rightarrow> t < 2 ^ 32 \<and> an_delay a + 10 ^ 9 \<le> t * 10 ^ 9"
    and "\<And>iter. hash_order iter \<Longrightarrow> test_server (meant iter \<lparr>pr_url = local_url p None, pr_redirects = [], pr_config = req\<rparr> body) = a"
    and "readable_answer a"
  shows "returns (send_to req) (an_status a)
    (if req_method req = Head \<or> an_status a \<in> {204, 304} then [] else an_body a) (test_url p)"
proof -
  have t: "case req_timeout req of None \<Rightarrow> True | Some t \<Rightarrow> t < 2 ^ 32" using assms(6) by (simp split: option.splits)
  have "req_url req = test_url (p @ (case None of None \<Rightarrow> [] | Some t \<Rightarrow> 35 # t))"
    "case None of None \<Rightarrow> True | Some t \<Rightarrow> list_all url_safe t" "req_params req = []"
    using assms(2,3) by (simp_all add: test_request_def)
  from sends_outcome [OF assms(1) this(1) assms(4) this(2,3) t] obtain x w c where c: "hash_order (x_iter x)" "test_run x c w" "send_to req = outcome x c (req_method req = Head) w"
    "c_request c = \<lparr>pr_url = local_url p None, pr_redirects = [], pr_config = req\<rparr>"
    "c_timeout_at c = map_option (\<lambda>t. now w + t * 10 ^ 9) (req_timeout req)"
    by blast
  have l: "local_request (c_request c) body" unfolding c(4) by (rule test_request_local [OF assms(2,4)])
  have a: "test_server (meant (x_iter x) (c_request c) body) = a" unfolding c(4) by (rule assms(7) [OF c(1)])
  have "answered_by c w a" using c(5) assms(6) by (auto simp: answered_by_def split: option.splits)
  from run_final [OF c(2,1) l _ a this, of "req_method req = Head"] show ?thesis
    using assms(5,8) c(3,4) print_local [of p None] by (simp add: readable_answer_def)
qed

lemma readable_text: "readable_answer (from_string s)" "readable_answer (from_string s\<lparr>an_delay := d\<rparr>)"
  by (simp_all add: readable_answer_def from_string_def is_redirect_def)

lemma text_test:
  assumes "sends send_to req" "test_request req body" "req_url req = test_url p" "safe_path p" "unlimited req"
    and "req_timeout req = None" "req_method req \<noteq> Head" "list_all (\<lambda>c. c < 128) s"
    and "\<And>iter. hash_order iter \<Longrightarrow>
      test_server (meant iter \<lparr>pr_url = local_url p None, pr_redirects = [], pr_config = req\<rparr> body) = from_string s"
  shows "awaited (send_to req) (\<lambda>r. get_body r = s)"
proof -
  have "returns (send_to req) 200 (into_bytes s) (test_url p)"
    using one_answer [OF assms(1-5) _ assms(9) readable_text(1)] assms(6,7) by (simp add: from_string_def)
  then show ?thesis using assms(8) by (rule get_body_returns)
qed

lemma test_request_body:
  assumes "list_all (\<lambda>c. 32 < c \<and> c < 128) (method_fmt m)" "length body \<le> usize_MAX"
  shows "test_request (with_body body (request_new m u)) body"
proof -
  have "plain_header (str ''Content-Length'', show_nat (length body))"
    using show_nat_ascii [of "length body"] show_nat_digits [of 10 "length body"]
    by (auto simp: plain_header_def plain_line_def str_def is_ascii_def)
  then show ?thesis using assms announces_body [of "with_body body (request_new m u)" body]
    by (simp add: test_request_def request_defs)
qed

lemma test_request_plain:
  assumes "list_all (\<lambda>c. 32 < c \<and> c < 128) (method_fmt m)"
  shows "test_request (request_new m u) []"
  using assms announces_none [of "request_new m u"] by (simp add: test_request_def request_defs)

lemma test_request_frame [simp]:
  "test_request (with_timeout t req) body = test_request req body"
  "test_request (with_max_headers_size n req) body = test_request req body"
  "test_request (with_max_status_line_length n req) body = test_request req body"
  by (simp_all add: test_request_def announces_def with_timeout_def with_max_headers_size_def with_max_status_line_length_def)

lemma body_test:
  assumes "sends send_to (with_body (into_bytes (str b)) (request_new m (test_url (str p))))"
    and "list_all (\<lambda>c. 32 < c \<and> c < 128) (method_fmt m)" "m \<noteq> Head" "safe_path (str p)"
    and "length (into_bytes (str b)) \<le> usize_MAX" "list_all (\<lambda>c. c < 128) s"
    and "\<And>hs. test_server \<lparr>rr_method = method_fmt m, rr_target = str p, rr_headers = hs, rr_body = into_bytes (str b), rr_rest = []\<rparr>
      = from_string s"
  shows "awaited (send_to (with_body (into_bytes (str b)) (request_new m (test_url (str p))))) (\<lambda>r. get_body r = s)"
  using assms(3,7) by (intro text_test [OF assms(1) test_request_body [OF assms(2,5)] _ assms(4) _ _ _ assms(6)])
    (simp_all add: request_defs unlimited_def)

lemma plain_test:
  assumes "sends send_to (request_new m (test_url (str p)))"
    and "list_all (\<lambda>c. 32 < c \<and> c < 128) (method_fmt m)" "m \<noteq> Head" "safe_path (str p)" "list_all (\<lambda>c. c < 128) s"
    and "\<And>hs. test_server \<lparr>rr_method = method_fmt m, rr_target = str p, rr_headers = hs, rr_body = [], rr_rest = []\<rparr>
      = from_string s"
  shows "awaited (send_to (request_new m (test_url (str p)))) (\<lambda>r. get_body r = s)"
  using assms(3,6) by (intro text_test [OF assms(1) test_request_plain [OF assms(2)] _ assms(4) _ _ _ assms(5)])
    (simp_all add: request_defs unlimited_def)

text \<open>Evaluation of the handler on a concrete request.\<close>

lemma one_byte: "c < 128 \<Longrightarrow> from_utf8 (encode_utf8 c) = Ok [c]" "c < 128 \<Longrightarrow> length (encode_utf8 c) = 1" "from_utf8 [] = Ok []"
  using ascii_text [of "[c]"] ascii_text [of "[]"] by (simp_all add: encode_utf8_def)

lemmas handler_simps = test_server_def Let_def split_char_path one_byte safe_path_def url_safe_def rust_defs usize_MAX_def

lemma test_get_passes: "sends send_to (with_body (into_bytes (str ''Q'')) (get (test_url (str ''/a'')))) \<Longrightarrow> test_get send_to"
  unfolding test_get_def get_def by (erule body_test) (simp_all add: handler_simps)

lemma test_custom_method_passes:
  "sends send_to (with_body (into_bytes (str ''Q'')) (request_new (Custom (str ''GET'')) (test_url (str ''/a'')))) \<Longrightarrow> test_custom_method send_to"
  unfolding test_custom_method_def by (erule body_test) (simp_all add: handler_simps)

lemma test_post_passes: "sends send_to (with_body (into_bytes (str ''E'')) (post (test_url (str ''/c'')))) \<Longrightarrow> test_post send_to"
  unfolding test_post_def post_def by (erule body_test) (simp_all add: handler_simps)

lemma test_put_passes: "sends send_to (with_body (into_bytes (str ''R'')) (put (test_url (str ''/d'')))) \<Longrightarrow> test_put send_to"
  unfolding test_put_def put_def by (erule body_test) (simp_all add: handler_simps)

lemma test_options_passes: "sends send_to (with_body (into_bytes (str ''U'')) (options (test_url (str ''/g'')))) \<Longrightarrow> test_options send_to"
  unfolding test_options_def options_def by (erule body_test) (simp_all add: handler_simps)

lemma test_connect_passes: "sends send_to (with_body (into_bytes (str ''I'')) (connect (test_url (str ''/h'')))) \<Longrightarrow> test_connect send_to"
  unfolding test_connect_def connect_def by (erule body_test) (simp_all add: handler_simps)

lemma test_patch_passes: "sends send_to (with_body (into_bytes (str ''O'')) (patch (test_url (str ''/i'')))) \<Longrightarrow> test_patch send_to"
  unfolding test_patch_def patch_def by (erule body_test) (simp_all add: handler_simps)

lemma test_delete_passes: "sends send_to (delete (test_url (str ''/e''))) \<Longrightarrow> test_delete send_to"
  unfolding test_delete_def delete_def by (erule plain_test) (simp_all add: handler_simps)

lemma test_trace_passes: "sends send_to (trace (test_url (str ''/f''))) \<Longrightarrow> test_trace send_to"
  unfolding test_trace_def trace_def by (erule plain_test) (simp_all add: handler_simps)


lemma test_head_passes: "sends send_to (head (test_url (str ''/b''))) \<Longrightarrow> test_head send_to"
proof -
  assume "sends send_to (head (test_url (str ''/b'')))"
  from one_answer [OF this [unfolded head_def] test_request_plain, of "str ''/b''" "empty_answer 418 []"]
  have "returns (send_to (head (test_url (str ''/b'')))) 418 [] (test_url (str ''/b''))"
    by (simp add: request_defs unlimited_def empty_answer_def readable_answer_def is_redirect_def handler_simps)
  then show ?thesis by (auto simp: test_head_def awaited_def returns_def get_status_code_def)
qed

lemma hash_order_one: "hash_order iter \<Longrightarrow> iter [kv] = [kv]"
  using mset_single_iff_right by (metis hash_order_def mset.simps mset_single_iff)

lemma test_header_ping_passes:
  "sends send_to (with_header (str ''Ping'') (str ''Qwerty'') (get (test_url (str ''/header_pong'')))) \<Longrightarrow> test_header_ping send_to"
proof -
  let ?req = "with_header (str ''Ping'') (str ''Qwerty'') (get (test_url (str ''/header_pong'')))"
  assume s: "sends send_to ?req"
  have h: "req_headers ?req = [(str ''Ping'', str ''Qwerty'')]" by (simp add: request_defs)
  have "\<not> is_length_key (str ''Ping'')" by (simp add: is_length_key_def rust_defs)
  then have "test_request ?req []" using announces_none [of ?req] unfolding test_request_def h
    by (simp add: request_defs) (simp add: str_def plain_header_def plain_line_def)
  from text_test [OF s this, of "str ''/header_pong''" "str ''Qwerty''"] show ?thesis unfolding test_header_ping_def
    by (simp add: request_defs unlimited_def header_fields_def hash_order_one header_pong_def handler_simps)
qed

lemma test_timeout_high_enough_passes:
  "sends send_to (with_timeout 3 (with_body (into_bytes (str ''Q'')) (get (test_url (str ''/slow_a''))))) \<Longrightarrow> test_timeout_high_enough send_to"
proof -
  let ?req = "with_timeout 3 (with_body (into_bytes (str ''Q'')) (get (test_url (str ''/slow_a''))))"
  let ?a = "from_string (str ''j: Q'')\<lparr>an_delay := 2 * 10 ^ 9\<rparr>"
  assume s: "sends send_to ?req"
  have "test_request ?req (into_bytes (str ''Q''))" unfolding get_def test_request_frame
    by (rule test_request_body) (simp_all add: handler_simps)
  from one_answer [OF s this, where p = "str ''/slow_a''" and a = ?a] readable_text(2)
  have "returns (send_to ?req) 200 (into_bytes (str ''j: Q'')) (test_url (str ''/slow_a''))"
    by (simp add: request_defs unlimited_def handler_simps) (simp add: from_string_def str_def)
  then show ?thesis unfolding test_timeout_high_enough_def by (rule get_body_returns) (simp add: str_def)
qed


section \<open>Answers that are late, long or incomplete\<close>

lemma sends_hosted:
  assumes "sends send_to req" "test_request req body" "req_url req = test_url p" "safe_path p"
    and "case req_timeout req of None \<Rightarrow> True | Some t \<Rightarrow> t < 2 ^ 32"
    and "\<And>iter. hash_order iter \<Longrightarrow> test_server (meant iter \<lparr>pr_url = local_url p None, pr_redirects = [], pr_config = req\<rparr> body) = a"
  obtains x w c t tcp sl hs where "hash_order (x_iter x)" "hosted_on x c w a t tcp sl hs" "local_request (c_request c) body"
    and "send_to req = outcome x c (req_method req = Head) w"
    and "conn_config c = req" "c_timeout_at c = map_option (\<lambda>t. now w + t * 10 ^ 9) (req_timeout req)"
proof -
  have "req_url req = test_url (p @ (case None of None \<Rightarrow> [] | Some t \<Rightarrow> 35 # t))"
    "case None of None \<Rightarrow> True | Some t \<Rightarrow> list_all url_safe t" "req_params req = []"
    using assms(2,3) by (simp_all add: test_request_def)
  from sends_outcome [OF assms(1) this(1) assms(4) this(2,3) assms(5)] obtain x w c where c: "hash_order (x_iter x)" "test_run x c w"
    "send_to req = outcome x c (req_method req = Head) w"
    "c_request c = \<lparr>pr_url = local_url p None, pr_redirects = [], pr_config = req\<rparr>"
    "c_timeout_at c = map_option (\<lambda>t. now w + t * 10 ^ 9) (req_timeout req)" by blast
  from c(2) obtain a' t tcp sl hs where h: "hosted_on x c w a' t tcp sl hs"
    by (cases rule: test_run.cases) (auto simp: hosted_def)
  have l: "local_request (c_request c) body" unfolding c(4) by (rule test_request_local [OF assms(2,4)])
  have "a' = a" unfolding hosted_answer [OF h l c(1)] c(4) by (rule assms(6) [OF c(1)])
  then show ?thesis using that [of x c w t tcp sl hs] c h l by simp
qed

lemma late_send:
  assumes "hosted_on x c w a t tcp sl hs" "local_request (c_request c) body"
    and "c_timeout_at c = Some d" "now w + 10 ^ 9 \<le> d" "d < now w + an_delay a"
  shows "fst (send x c w) = Ready (Err (IoError timeout_err))"
proof -
  obtain ad as n ws where r: "x_resolve x (host (conn_url c)) (port_number (url_port (conn_url c))) = Ok (ad # as)"
    "x_dial x ad (length (dialled w)) = Some (t, Ok tcp)" "tcp_writes tcp = Wrote n # ws"
    and l: "an_delay a \<le> tcp_latency tcp" "resolved_at x c w + t + tcp_latency tcp < now w + an_delay a + 10 ^ 9"
    using assms(1) by (auto simp: hosted_on_def)
  have t: "timeout w c = Ok (Some (d - now w))" using assms(3,4) by (simp add: timeout_def timeout_at_to_duration_def)
  have a: "with_ascii_host x c = Ok c"
  proof -
    have "is_ascii (host (conn_url c))" using assms(2) by (simp add: local_request_def str_def)
    then show ?thesis by (simp add: with_ascii_host_def ensure_ascii_host_def)
  qed
  let ?w = "w\<lparr>dialled := dialled w @ [ad], now := resolved_at x c w + t\<rparr>"
  have "resolved_at x c w + t \<le> d" "d < now w + tcp_latency tcp" using l assms(4,5) by linarith+
  then have "connection_connect x c w = (Ready (Ok tcp), ?w)"
    using assms(2,3) r(1,2)
    by (auto simp: connection_connect_def tcp_connect_def dial_def local_request_def resolved_at_def timeout_def
        timeout_at_to_duration_def Let_def)
  moreover have "d < now ?w + tcp_latency tcp" using \<open>d < now w + tcp_latency tcp\<close> by (simp add: resolved_at_def)
  ultimately have "fst (exchange_http x c w) = Pending" using r(3) assms(3) by (simp add: exchange_http_def suspend_def)
  then show ?thesis using t a
    by (cases "exchange_http x c w") (simp add: send.simps send_without_timeout.simps deadline_def)
qed

lemma test_timeout_too_low_passes:
  "sends send_to (with_timeout 1 (with_body (into_bytes (str ''Q'')) (get (test_url (str ''/slow_a''))))) \<Longrightarrow> test_timeout_too_low send_to"
proof -
  let ?req = "with_timeout 1 (with_body (into_bytes (str ''Q'')) (get (test_url (str ''/slow_a''))))"
  let ?a = "from_string (str ''j: Q'')\<lparr>an_delay := 2 * 10 ^ 9\<rparr>"
  assume s: "sends send_to ?req"
  have q: "test_request ?req (into_bytes (str ''Q''))" unfolding get_def test_request_frame
    by (rule test_request_body) (simp_all add: handler_simps)
  obtain x w c t tcp sl hs where c: "hash_order (x_iter x)" "hosted_on x c w ?a t tcp sl hs" "local_request (c_request c) (into_bytes (str ''Q''))"
    "send_to ?req = outcome x c (req_method ?req = Head) w" "conn_config c = ?req"
    "c_timeout_at c = map_option (\<lambda>t. now w + t * 10 ^ 9) (req_timeout ?req)"
    by (rule sends_hosted [OF s q, where p = "str ''/slow_a''" and a = ?a]) (simp_all add: request_defs handler_simps)
  have "fst (send x c w) = Ready (Err (IoError timeout_err))"
    by (intro late_send [OF c(2,3), where d = "now w + 10 ^ 9"]) (simp_all add: c(6) request_defs)
  then show ?thesis unfolding test_timeout_too_low_def c(4) outcome_def by (simp add: awaited_def)
qed


section \<open>Redirects\<close>

abbreviation fragment_text :: "rstring option \<Rightarrow> rstring" where
  "fragment_text f \<equiv> (case f of None \<Rightarrow> [] | Some t \<Rightarrow> 35 # t)"

abbreviation safe_fragment :: "rstring option \<Rightarrow> bool" where
  "safe_fragment f \<equiv> (case f of None \<Rightarrow> True | Some t \<Rightarrow> list_all url_safe t)"

text \<open>A location of the server, absolute or relative.\<close>

definition local_location :: "rstring \<Rightarrow> rstring \<Rightarrow> rstring option \<Rightarrow> bool" where
  "local_location loc p f \<longleftrightarrow> safe_path p \<and> safe_fragment f \<and> length loc \<le> 1000 \<and> is_ascii loc
     \<and> (loc = test_url (p @ fragment_text f) \<or> loc = p \<and> f = None \<and> \<not> contains p (str ''://''))"

definition redirect_config :: "nat \<Rightarrow> request \<Rightarrow> request" where
  "redirect_config code req = req\<lparr>req_method := (if code = 303 \<and> req_method req \<in> {Post, Put, Delete} then Get else req_method req)\<rparr>"

lemma get_redirect_local:
  assumes "local_location loc p' f'" "is_redirect (int code)"
    and "c_request c = \<lparr>pr_url = local_url p f, pr_redirects = rs, pr_config = req\<rparr>" "length rs < req_max_redirects req"
  shows "get_redirect cf c (int code) (Some loc) =
    Redirect (if local_url p' (case f' of None \<Rightarrow> f | Some t \<Rightarrow> Some t) \<in> set (rs @ [local_url p f]) then Err InfiniteRedirectionLoop
      else Ok (c\<lparr>c_request := \<lparr>pr_url = local_url p' (case f' of None \<Rightarrow> f | Some t \<Rightarrow> Some t),
        pr_redirects = rs @ [local_url p f], pr_config = redirect_config code req\<rparr>\<rparr>))"
proof -
  let ?u = "local_url p' (case f' of None \<Rightarrow> f | Some t \<Rightarrow> Some t)"
  have "redirect_to cf loc (c_request c) = (push_redirect ?u (c_request c), check_redirects (push_redirect ?u (c_request c)))"
    using redirect_local [of p' f' loc "c_request c" p f cf] assms(1,3) by (simp add: local_location_def)
  moreover have "check_redirects (push_redirect ?u (c_request c)) =
      (if ?u \<in> set (rs @ [local_url p f]) then Err InfiniteRedirectionLoop else Ok ())"
    using assms(3,4) by (auto simp: check_redirects_def push_redirect_def list_ex_iff)
  ultimately show ?thesis using assms(2,3)
    by (auto simp: get_redirect_def is_redirect_def push_redirect_def redirect_config_def Let_def)
qed

lemma location_size: "is_ascii loc \<Longrightarrow> length loc \<le> 1000 \<Longrightarrow> block_size (map print_header [(str ''Location'', loc)]) \<le> 2 ^ 16"
  by (simp add: print_header_def len_bytes_ascii str_def)

text \<open>A request that is redirected once continues at the new address.\<close>

lemma one_redirect:
  assumes "sends send_to req" "test_request req body" "req_url req = test_url (p @ fragment_text f)" "safe_path p" "safe_fragment f"
    and "unlimited req" "req_timeout req = None" "0 < req_max_redirects req"
    and "\<And>iter. hash_order iter \<Longrightarrow> test_server (meant iter \<lparr>pr_url = local_url p f, pr_redirects = [], pr_config = req\<rparr> body)
      = empty_answer code [(str ''Location'', loc)]"
    and "local_location loc p' f'" "is_redirect (int code)" "code < 2 ^ 31" "p' \<noteq> p"
  obtains x w c where "hash_order (x_iter x)" "test_run x c w" "send_to req = outcome x c (req_method req = Head) w"
    and "c_request c = \<lparr>pr_url = local_url p' (case f' of None \<Rightarrow> f | Some t \<Rightarrow> Some t),
      pr_redirects = [local_url p f], pr_config = redirect_config code req\<rparr>" "c_timeout_at c = None"
proof -
  have "case req_timeout req of None \<Rightarrow> True | Some t \<Rightarrow> t < 2 ^ 32" "req_params req = []"
    using assms(2,7) by (simp_all add: test_request_def)
  from sends_outcome [OF assms(1,3,4,5) this(2,1)] obtain x w c where c: "hash_order (x_iter x)" "test_run x c w"
    "send_to req = outcome x c (req_method req = Head) w"
    "c_request c = \<lparr>pr_url = local_url p f, pr_redirects = [], pr_config = req\<rparr>"
    "c_timeout_at c = map_option (\<lambda>t. now w + t * 10 ^ 9) (req_timeout req)" by blast
  let ?r = "\<lparr>pr_url = local_url p' (case f' of None \<Rightarrow> f | Some t \<Rightarrow> Some t),
      pr_redirects = [local_url p f], pr_config = redirect_config code req\<rparr>"
  have l: "local_request (c_request c) body" unfolding c(4) by (rule test_request_local [OF assms(2,4)])
  have a: "test_server (meant (x_iter x) (c_request c) body) = empty_answer code [(str ''Location'', loc)]"
    unfolding c(4) by (rule assms(9) [OF c(1)])
  have "get_redirect (x_cfg x) c (int code) (Some loc) = Redirect (Ok (c\<lparr>c_request := ?r\<rparr>))"
    using get_redirect_local [OF assms(10,11) c(4)] assms(8,13) by simp
  then obtain w' where "outcome x c (req_method req = Head) w = outcome x (c\<lparr>c_request := ?r\<rparr>) (req_method req = Head) w'"
    "test_run x (c\<lparr>c_request := ?r\<rparr>) w'"
    using run_redirect(1) [OF c(2,1) l _ a] c(4,5) assms(6,7,12) location_size [of loc] assms(10)
    by (fastforce simp: empty_answer_def local_location_def)
  then show ?thesis using that [of x "c\<lparr>c_request := ?r\<rparr>" w'] c assms(7) by simp
qed

lemma redirected_test:
  assumes "sends send_to req" "test_request req body" "req_url req = test_url (p @ fragment_text f)" "safe_path p" "safe_fragment f"
    and "unlimited req" "req_timeout req = None" "0 < req_max_redirects req" "req_method req \<noteq> Head"
    and "\<And>iter. hash_order iter \<Longrightarrow> test_server (meant iter \<lparr>pr_url = local_url p f, pr_redirects = [], pr_config = req\<rparr> body)
      = empty_answer code [(str ''Location'', loc)]"
    and "local_location loc p' f'" "is_redirect (int code)" "code < 2 ^ 31" "p' \<noteq> p"
    and "\<And>iter u rs. hash_order iter \<Longrightarrow> path_and_query u = p' \<Longrightarrow>
      test_server (meant iter \<lparr>pr_url = u, pr_redirects = rs, pr_config = redirect_config code req\<rparr> body) = from_string s"
  shows "returns (send_to req) 200 (into_bytes s) (test_url (p' @ fragment_text (case f' of None \<Rightarrow> f | Some t \<Rightarrow> Some t)))"
proof -
  obtain x w c where c: "hash_order (x_iter x)" "test_run x c w" "send_to req = outcome x c (req_method req = Head) w"
    "c_request c = \<lparr>pr_url = local_url p' (case f' of None \<Rightarrow> f | Some t \<Rightarrow> Some t),
      pr_redirects = [local_url p f], pr_config = redirect_config code req\<rparr>" "c_timeout_at c = None"
    by (rule one_redirect [OF assms(1-8,10-14)])
  have "list_all (\<lambda>c. 32 < c \<and> c < 128) (method_fmt Get)" by (simp add: str_def)
  then have "test_request (redirect_config code req) body" using assms(2)
    by (auto simp: test_request_def redirect_config_def announces_def)
  then have l: "local_request (c_request c) body"
    unfolding c(4) using assms(11) by (intro test_request_local) (simp_all add: local_location_def)
  have a: "test_server (meant (x_iter x) (c_request c) body) = from_string s"
    unfolding c(4) by (rule assms(15) [OF c(1)]) simp
  have "unlimited (conn_config c)" "answered_by c w (from_string s)"
    using c(4,5) assms(6) by (simp_all add: unlimited_def redirect_config_def answered_by_def)
  from run_final [OF c(2,1) l this(1) a this(2), where h = False] show ?thesis
    using readable_text(1) [of s] assms(9) c(3,4) print_local
    by (auto simp: readable_answer_def from_string_def)
qed


lemmas redirect_simps = redirect_config_def local_location_def is_redirect_def test_url_def

lemma redirected_body_test:
  assumes "sends send_to (with_body (into_bytes (str ''Q'')) (request_new m (test_url (str p))))"
    and "m = Get \<or> m = Post \<and> code = 303" "safe_path (str p)" "p \<noteq> ''/a''"
    and "\<And>hs. test_server \<lparr>rr_method = method_fmt m, rr_target = str p, rr_headers = hs, rr_body = into_bytes (str ''Q''), rr_rest = []\<rparr>
      = empty_answer code [(str ''Location'', loc)]"
    and "local_location loc (str ''/a'') None" "is_redirect (int code)" "code < 2 ^ 31"
  shows "awaited (send_to (with_body (into_bytes (str ''Q'')) (request_new m (test_url (str p))))) (\<lambda>r. get_body r = str ''j: Q'')"
proof -
  let ?req = "with_body (into_bytes (str ''Q'')) (request_new m (test_url (str p)))"
  have "list_all (\<lambda>c. 32 < c \<and> c < 128) (method_fmt m)" using assms(2) by (auto simp: str_def)
  then have t: "test_request ?req (into_bytes (str ''Q''))" by (rule test_request_body) (simp add: handler_simps)
  have g: "method_fmt (req_method (redirect_config code ?req)) = str ''GET''"
    using assms(2) by (auto simp: redirect_config_def request_defs)
  have a: "test_server \<lparr>rr_method = str ''GET'', rr_target = str ''/a'', rr_headers = hs, rr_body = into_bytes (str ''Q''), rr_rest = []\<rparr>
      = from_string (str ''j: Q'')" for hs by (simp add: handler_simps)
  have "returns (send_to ?req) 200 (into_bytes (str ''j: Q'')) (test_url (str ''/a'' @ fragment_text (case None of None \<Rightarrow> None | Some t \<Rightarrow> Some t)))"
    by (rule redirected_test [OF assms(1) t _ assms(3) _ _ _ _ _ _ assms(6-8)])
      (use assms(2,4,5) g in \<open>auto simp: request_defs unlimited_def a\<close>)
  then show ?thesis by (intro get_body_returns) (simp_all add: str_def)
qed

lemma test_redirect_get_passes:
  "sends send_to (with_body (into_bytes (str ''Q'')) (get (test_url (str ''/redirect'')))) \<Longrightarrow> test_redirect_get send_to"
  unfolding test_redirect_get_def get_def
  by (erule redirected_body_test [where code = 301 and loc = "str ''http://localhost:35562/a''"])
    (simp_all add: redirect_simps handler_simps)

lemma test_redirect_post_passes:
  "sends send_to (with_body (into_bytes (str ''Q'')) (post (test_url (str ''/redirect'')))) \<Longrightarrow> test_redirect_post send_to"
  unfolding test_redirect_post_def post_def
  by (erule redirected_body_test [where code = 303 and loc = "str ''http://localhost:35562/a''"])
    (simp_all add: redirect_simps handler_simps)

lemma test_relative_redirect_get_passes:
  "sends send_to (with_body (into_bytes (str ''Q'')) (get (test_url (str ''/relativeredirect'')))) \<Longrightarrow> test_relative_redirect_get send_to"
  unfolding test_relative_redirect_get_def get_def
  by (erule redirected_body_test [where code = 303 and loc = "str ''/a''"]) (simp_all add: redirect_simps handler_simps)

lemma test_redirect_with_fragment_passes:
  "sends send_to (get (test_url (str ''/redirect#foo''))) \<Longrightarrow> test_redirect_with_fragment send_to"
proof -
  let ?req = "get (test_url (str ''/redirect#foo''))"
  assume s: "sends send_to ?req"
  have t: "test_request ?req []" unfolding get_def by (rule test_request_plain) (simp add: str_def)
  from redirected_test [OF s t, where p = "str ''/redirect''" and f = "Some (str ''foo'')" and p' = "str ''/a''" and f' = None
      and code = 301 and loc = "str ''http://localhost:35562/a''" and s = "str ''j: ''"]
  have "returns (send_to ?req) 200 (into_bytes (str ''j: '')) (test_url (str ''/a#foo''))"
    by (simp add: request_defs unlimited_def redirect_simps handler_simps)
  then show ?thesis by (auto simp: test_redirect_with_fragment_def awaited_def returns_def)
qed

lemma test_redirect_with_overridden_fragment_passes:
  "sends send_to (get (test_url (str ''/redirect-baz#foo''))) \<Longrightarrow> test_redirect_with_overridden_fragment send_to"
proof -
  let ?req = "get (test_url (str ''/redirect-baz#foo''))"
  assume s: "sends send_to ?req"
  have t: "test_request ?req []" unfolding get_def by (rule test_request_plain) (simp add: str_def)
  from redirected_test [OF s t, where p = "str ''/redirect-baz''" and f = "Some (str ''foo'')" and p' = "str ''/a''"
      and f' = "Some (str ''baz'')" and code = 301 and loc = "str ''http://localhost:35562/a#baz''" and s = "str ''j: ''"]
  have "returns (send_to ?req) 200 (into_bytes (str ''j: '')) (test_url (str ''/a#baz''))"
    by (simp add: request_defs unlimited_def redirect_simps handler_simps)
  then show ?thesis by (auto simp: test_redirect_with_overridden_fragment_def awaited_def returns_def)
qed

lemma test_infinite_redirect_passes:
  "sends send_to (get (test_url (str ''/infiniteredirect''))) \<Longrightarrow> test_infinite_redirect send_to"
proof -
  let ?req = "get (test_url (str ''/infiniteredirect''))"
  let ?r = "\<lparr>pr_url = local_url (str ''/redirectpong'') None, pr_redirects = [local_url (str ''/infiniteredirect'') None], pr_config = ?req\<rparr>"
  let ?a = "empty_answer 301 [(str ''Location'', str ''http://localhost:35562/infiniteredirect'')]"
  assume s: "sends send_to ?req"
  have t: "test_request ?req []" unfolding get_def by (rule test_request_plain) (simp add: str_def)
  have g: "redirect_config 301 ?req = ?req" "unlimited ?req" by (simp_all add: redirect_config_def unlimited_def request_defs)
  obtain x w c where c: "hash_order (x_iter x)" "test_run x c w" "send_to ?req = outcome x c (req_method ?req = Head) w"
    "c_request c = ?r" "c_timeout_at c = None"
    by (rule one_redirect [OF s t, where p = "str ''/infiniteredirect''" and f = None and p' = "str ''/redirectpong''" and f' = None
          and code = 301 and loc = "str ''http://localhost:35562/redirectpong''"])
      (use g in \<open>simp_all add: request_defs redirect_simps handler_simps\<close>)
  have p: "safe_path (str ''/redirectpong'')" by (simp add: handler_simps)
  have l: "local_request (c_request c) []" unfolding c(4) by (rule test_request_local [OF t p])
  have a: "test_server (meant (x_iter x) (c_request c) []) = ?a" unfolding c(4) by (simp add: request_defs handler_simps)
  have "local_location (str ''http://localhost:35562/infiniteredirect'') (str ''/infiniteredirect'') None"
    by (simp add: redirect_simps handler_simps)
  from get_redirect_local [OF this, of 301 c] have e: "get_redirect (x_cfg x) c 301 (Some (str ''http://localhost:35562/infiniteredirect''))
      = Redirect (Err InfiniteRedirectionLoop)" using c(4) by (simp add: is_redirect_def request_defs)
  have "outcome x c (req_method ?req = Head) w = Ready (Err InfiniteRedirectionLoop)"
    by (rule run_redirect(2) [OF c(2,1) l _ a c(5)]) (use e g(2) c(4) location_size in \<open>simp_all add: empty_answer_def str_def\<close>)
  then show ?thesis unfolding test_infinite_redirect_def c(3) by (simp add: awaited_def)
qed


section \<open>Limits\<close>

lemma hosted_head_error:
  assumes "hosted_on x c w a t tcp sl hs" "local_request (c_request c) body" "c_timeout_at c = None"
    and "fst (read_metadata (profile (x_cfg x)) (x_iter x) (req_max_headers_size (conn_config c)) (req_max_status_line_len (conn_config c))
      (Unsecured (tcp_incoming tcp) None)) = Ready (Err e)"
  shows "outcome x c h w = Ready (Err e)"
proof -
  obtain ad as n ws where r: "x_resolve x (host (conn_url c)) (port_number (url_port (conn_url c))) = Ok (ad # as)"
    "x_dial x ad (length (dialled w)) = Some (t, Ok tcp)" "tcp_writes tcp = Wrote n # ws"
    using assms(1) by (auto simp: hosted_on_def)
  then have "reaches x c w n tcp" using assms(2,3) by (auto simp: reaches_def local_request_def)
  moreover have "read_head x c (Unsecured (tcp_incoming tcp) (c_timeout_at c)) = Ready (Err e)"
    using assms(3,4) by (auto simp: read_head_def from_stream_def split: prod.splits)
  ultimately obtain w' where w': "exchange_http x c w = (Ready (Err e), w')" using exchange_http_reaches by metis
  have "is_ascii (host (conn_url c))" using assms(2) by (simp add: local_request_def str_def)
  then have "with_ascii_host x c = Ok c" by (simp add: with_ascii_host_def ensure_ascii_host_def)
  then show ?thesis using w' assms(3)
    by (simp add: outcome_def send.simps send_without_timeout.simps timeout_def timeout_at_to_duration_def deadline_def)
qed

lemma limited_test:
  assumes "sends send_to req" "test_request req []" "req_url req = test_url p" "safe_path p" "req_timeout req = None"
    and "\<And>iter. hash_order iter \<Longrightarrow> test_server (meant iter \<lparr>pr_url = local_url p None, pr_redirects = [], pr_config = req\<rparr> []) = a"
  shows "(\<And>s sl hs b iter. delivers s sl hs (an_body a) \<Longrightarrow> prints a sl hs \<Longrightarrow>
      fst (read_metadata b iter (req_max_headers_size req) (req_max_status_line_len req) s) = Ready (Err e))
      \<Longrightarrow> awaited (send_to req) (\<lambda>r. r = Err e)"
    and "(\<And>sl hs. prints a sl hs \<Longrightarrow> status_fits (req_max_status_line_len req) sl \<and> block_fits (req_max_headers_size req) hs)
      \<Longrightarrow> readable_answer a \<Longrightarrow> awaited (send_to req) is_ok"
proof -
  have t: "case req_timeout req of None \<Rightarrow> True | Some t \<Rightarrow> t < 2 ^ 32" using assms(5) by simp
  obtain x w c t tcp sl hs where c: "hash_order (x_iter x)" "hosted_on x c w a t tcp sl hs" "local_request (c_request c) []"
    "send_to req = outcome x c (req_method req = Head) w" "conn_config c = req" "c_timeout_at c = None"
    by (rule sends_hosted [OF assms(1-4) t assms(6)]) (use assms(5) in auto)
  have p: "prints a sl hs" "delivers (Unsecured (tcp_incoming tcp) None) sl hs (an_body a)"
    using c(2,6) by (auto simp: hosted_on_def)
  show "awaited (send_to req) (\<lambda>r. r = Err e)"
    if "\<And>s sl hs b iter. delivers s sl hs (an_body a) \<Longrightarrow> prints a sl hs \<Longrightarrow>
      fst (read_metadata b iter (req_max_headers_size req) (req_max_status_line_len req) s) = Ready (Err e)"
    using hosted_head_error [OF c(2,3,6)] that [OF p(2,1)] c(4,5) by (simp add: awaited_def)
  show "awaited (send_to req) is_ok"
    if "\<And>sl hs. prints a sl hs \<Longrightarrow> status_fits (req_max_status_line_len req) sl \<and> block_fits (req_max_headers_size req) hs" "readable_answer a"
  proof -
    have "served x c w tcp sl hs (an_body a)"
      using hosted_served [OF c(2,3,1)] that(1) [OF p(1)] c(5,6) by (simp add: answered_by_def)
    from served_outcome(1) [OF this p(1)] show ?thesis using that(2) c(4) by (simp add: readable_answer_def awaited_def)
  qed
qed

lemma long_header_size: "len_bytes (print_header long_header) = 1000"
proof -
  have "is_ascii (print_header long_header)" by (simp add: print_header_def long_header_def str_def is_ascii_def)
  then show ?thesis by (simp add: len_bytes_ascii print_header_def long_header_def str_def)
qed

lemma test_header_cap_passes:
  assumes "sends send_to (with_max_headers_size (Some 999) (get (test_url (str ''/long_header''))))"
    and "sends send_to (with_max_headers_size (Some 1500) (get (test_url (str ''/long_header''))))"
  shows "test_header_cap send_to"
proof -
  let ?a = "empty_answer 200 [long_header]"
  have t: "test_request (with_max_headers_size n (get (test_url (str ''/long_header'')))) []" for n
    unfolding get_def test_request_frame by (rule test_request_plain) (simp add: str_def)
  have p: "block_size hs + 2 \<le> 1500" "999 < block_size hs + 2" "len_bytes sl + 1 < usize_MAX" if "prints ?a sl hs" for sl hs
    using that block_size_le [of "print_header long_header" hs] long_header_size
    by (auto simp: prints_def empty_answer_def usize_MAX_def)
  have "readable_answer ?a" using long_header_size by (simp add: readable_answer_def empty_answer_def is_redirect_def)
  moreover have "awaited (send_to (with_max_headers_size (Some 999) (get (test_url (str ''/long_header''))))) (\<lambda>r. r = Err HeadersOverflow)"
    by (rule limited_test(1) [OF assms(1) t, where p = "str ''/long_header''" and a = ?a])
      (use p in \<open>auto simp: request_defs handler_simps delivers_def response_bytes_def intro!: read_metadata_headers_overflow\<close>)
  moreover have "awaited (send_to (with_max_headers_size (Some 1500) (get (test_url (str ''/long_header''))))) is_ok"
    by (rule limited_test(2) [OF assms(2) t, where p = "str ''/long_header''" and a = ?a])
      (use p calculation in \<open>auto simp: request_defs handler_simps status_fits_def block_fits_def\<close>)
  ultimately show ?thesis by (simp add: test_header_cap_def)
qed

lemma test_status_line_cap_passes:
  assumes "sends send_to (with_max_status_line_length (Some (len_bytes expected_status_line + 1)) (get (test_url (str ''/long_status_line''))))"
    and "sends send_to (with_max_status_line_length (Some (len_bytes expected_status_line + 2)) (get (test_url (str ''/long_status_line''))))"
  shows "test_status_line_cap send_to"
proof -
  let ?a = "empty_answer 203 []"
  have t: "test_request (with_max_status_line_length n (get (test_url (str ''/long_status_line'')))) []" for n
    unfolding get_def test_request_frame by (rule test_request_plain) (simp add: str_def)
  have p: "sl = expected_status_line" "block_fits None hs" if "prints ?a sl hs" for sl hs
  proof -
    have "print_status 203 (str ''Non-Authoritative Information'') = expected_status_line"
      by (simp add: print_status_def expected_status_line_def str_def show_nat.simps)
    then show "sl = expected_status_line" using that by (auto simp: prints_def empty_answer_def)
    show "block_fits None hs" using prints_fits(2) [OF that] by (simp add: empty_answer_def)
  qed
  have "readable_answer ?a" by (simp add: readable_answer_def empty_answer_def is_redirect_def)
  moreover have "awaited (send_to (with_max_status_line_length (Some (len_bytes expected_status_line + 1)) (get (test_url (str ''/long_status_line'')))))
      (\<lambda>r. r = Err StatusLineOverflow)"
    by (rule limited_test(1) [OF assms(1) t, where p = "str ''/long_status_line''" and a = ?a])
      (auto simp: request_defs handler_simps delivers_def response_bytes_def dest: p(1) intro!: read_metadata_status_overflow)
  moreover have "awaited (send_to (with_max_status_line_length (Some (len_bytes expected_status_line + 2)) (get (test_url (str ''/long_status_line''))))) is_ok"
    by (rule limited_test(2) [OF assms(2) t, where p = "str ''/long_status_line''" and a = ?a])
      (use p calculation in \<open>auto simp: request_defs handler_simps status_fits_def\<close>)
  ultimately show ?thesis by (simp add: test_status_line_cap_def)
qed


lemma test_massive_content_length_passes:
  assumes "sends send_to (get (test_url (str ''/massive_content_length'')))"
  shows "test_massive_content_length send_to"
proof -
  let ?req = "get (test_url (str ''/massive_content_length''))" and ?a = "empty_answer 200 []\<lparr>an_length := 10 ^ 15\<rparr>"
  have q: "test_request ?req []" unfolding get_def by (rule test_request_plain) (simp add: str_def)
  obtain x w c t tcp sl hs where c: "hash_order (x_iter x)" "hosted_on x c w ?a t tcp sl hs" "local_request (c_request c) []"
    "send_to ?req = outcome x c (req_method ?req = Head) w" "conn_config c = ?req"
    "c_timeout_at c = map_option (\<lambda>t. now w + t * 10 ^ 9) (req_timeout ?req)"
    by (rule sends_hosted [OF assms q, where p = "str ''/massive_content_length''" and a = ?a]) (simp_all add: request_defs handler_simps)
  have p: "prints ?a sl hs" using c(2) by (simp add: hosted_on_def)
  then obtain reason where sl: "sl = print_status 200 reason" "framing (fold insert_header hs []) = Ok (ContentLength (10 ^ 15))"
    by (auto simp: prints_def empty_answer_def)
  have "status_fits None sl" "block_fits None hs" using prints_fits [OF p] by (simp_all add: empty_answer_def)
  then have "served x c w tcp sl hs []"
    using hosted_served [OF c(2,3,1)] c(5,6) by (simp add: answered_by_def request_defs empty_answer_def)
  then have "answered x c w tcp sl hs []" using parse_status_print [of 200 reason] sl(1) by (simp add: answered_def is_redirect_def)
  from send_answered [OF this sl(2)] obtain r w' where r: "send x c w = (Ready (Ok r), w')" "is_unsecured (lz_stream r)"
    "body_avail r = []" "lz_state r = ContentLength (10 ^ 15)" "lz_status_code r = fst (parse_status_line sl)" by metis
  have "has_body False r" using r(5) parse_status_print [of 200 reason] sl(1) by (simp add: has_body_def)
  from create_spec [OF r(2) this, of "profile (x_cfg x)"] have "create (profile (x_cfg x)) r False \<noteq> Panicked"
    using r(3,4) by (cases "ending_of (events (lz_stream r))") (simp_all add: body_spec_def)
  then show ?thesis using c(4) r(1) by (simp add: test_massive_content_length_def outcome_def request_defs)
qed

section \<open>A listener that nobody accepts from\<close>

text \<open>The connection is established by the system, or not at all, and nothing is ever sent on it.\<close>

definition silent :: "externals \<Rightarrow> world \<Rightarrow> bool" where
  "silent x w \<longleftrightarrow> x_env x = (\<lambda>k. None) \<and> now w div 10 ^ 9 < 2 ^ 62
     \<and> (\<exists>ad. x_resolve x (str ''127.0.0.1'') 32162 = Ok [ad]
         \<and> (x_dial x ad (length (dialled w)) = None
            \<or> (\<exists>t tcp n ws. x_dial x ad (length (dialled w)) = Some (t, Ok tcp) \<and> tcp_writes tcp = Wrote n # ws
                 \<and> stream_bytes (tcp_incoming tcp) = [] \<and> stalls (tcp_incoming tcp))))"

lemma await_Pending: "await p (\<lambda>r. Ready (f r)) = Pending \<longleftrightarrow> p = Pending"
  by (cases "(p, \<lambda>r. Ready (f r))" rule: await.cases) auto

lemma read_head_silent:
  assumes "stream_bytes es = []" "stalls es"
  shows "read_head x c (Unsecured es t) = Pending"
proof -
  have "head_spec (profile (x_cfg x)) (x_iter x) cap scap Stalled [] = Pending" for cap scap
    by (simp add: head_spec_def line_spec_def Let_def)
  moreover have "ending_of es = Stalled" using assms(2) by (simp add: stalls_ending)
  ultimately have "await (from_stream (profile (x_cfg x)) (x_iter x) cap scap (Unsecured es t)) (\<lambda>r. Ready (Ok (metadata_of r))) = Pending"
    for cap scap
    using from_stream_refines(1) [of "Unsecured es t" "profile (x_cfg x)" "x_iter x" cap scap] assms(1) by simp
  then show ?thesis by (simp only: read_head_def await_Pending)
qed

lemma silent_parsed:
  "parsed_request_new cf (\<lambda>k. None) (with_timeout 1 (request_new Get (str ''http://127.0.0.1:32162''))) =
     Ok \<lparr>pr_url = \<lparr>https = False, host = str ''127.0.0.1'', url_port = Explicit 32162, path_and_query = str ''/'', fragment = None\<rparr>,
         pr_redirects = [], pr_config = with_timeout 1 (request_new Get (str ''http://127.0.0.1:32162''))\<rparr>"
proof -
  have "parse_uint 10 65535 (str ''32162'') = Some 32162" by (simp add: rust_defs)
  then have "parse cf (str ''http://127.0.0.1:32162'') None =
      Ok \<lparr>https = False, host = str ''127.0.0.1'', url_port = Explicit 32162, path_and_query = str ''/'', fragment = None\<rparr>"
    by (simp add: parse_eq_split strip_scheme_def strip_prefix_def url_split_def split_port_def host_char_def port_char_def parse_port_def str_def)
  then show ?thesis by (simp add: parsed_request_new_def append_params_def default_proxy_def set_env_proxy_def request_defs)
qed

lemma tcp_connect_timeout_passes:
  assumes "silent x w" "send_to (with_timeout 1 (request_new Get (str ''http://127.0.0.1:32162''))) =
      fst (request_send x (with_timeout 1 (request_new Get (str ''http://127.0.0.1:32162''))) w)"
  shows "tcp_connect_timeout send_to"
proof -
  let ?req = "with_timeout 1 (request_new Get (str ''http://127.0.0.1:32162''))"
  let ?pr = "\<lparr>pr_url = \<lparr>https = False, host = str ''127.0.0.1'', url_port = Explicit 32162, path_and_query = str ''/'', fragment = None\<rparr>,
         pr_redirects = [], pr_config = ?req\<rparr>"
  let ?c = "\<lparr>c_request = ?pr, c_timeout_at = Some (now w + 10 ^ 9)\<rparr>"
  have pr: "parsed_request_new (x_cfg x) (x_env x) ?req = Ok ?pr" using silent_parsed assms(1) by (simp add: silent_def)
  have c: "connection_new x w ?pr = Ready ?c" using assms(1) by (simp add: connection_new_def silent_def instant_add_def with_timeout_def)
  have t: "timeout w ?c = Ok (Some (10 ^ 9))" by (simp add: timeout_def timeout_at_to_duration_def)
  have a: "with_ascii_host x ?c = Ok ?c"
  proof -
    have "is_ascii (str ''127.0.0.1'')" by (simp add: str_def)
    then show ?thesis by (simp add: with_ascii_host_def ensure_ascii_host_def)
  qed
  have np: "req_proxy ?req = None" by (simp add: request_defs)
  have "fst (exchange_http x ?c w) \<in> {Pending, Ready (Err (IoError timeout_err))}" using assms(1) np read_head_silent
    by (auto simp: silent_def exchange_http_def connection_connect_def tcp_connect_def dial_def create_unsecured_def suspend_def
        timeout_def timeout_at_to_duration_def Let_def split: option.splits if_splits result.splits)
  then have "fst (send_without_timeout x ?c w) \<in> {Pending, Ready (Err (IoError timeout_err))}"
    using a by (cases "exchange_http x ?c w") (auto simp: send_without_timeout.simps)
  then have "fst (send x ?c w) = Ready (Err (IoError timeout_err))"
    using t by (cases "send_without_timeout x ?c w") (auto simp: send.simps deadline_def)
  then show ?thesis unfolding tcp_connect_timeout_def assms(2)
    using request_outcome [OF pr c] by (simp add: outcome_def awaited_def timeout_err_def)
qed


section \<open>JSON and HTTPS\<close>

lemma test_json_using_serde_passes:
  assumes "to_string v = Ok t" "from_str t = Ok v" "\<forall>c\<in>set t. is_scalar c" "length (into_bytes t) \<le> usize_MAX"
    and "\<And>req. with_json to_string v (post (test_url (str ''/echo''))) = Ok req \<Longrightarrow> sends send_to req"
  shows "test_json_using_serde to_string from_str v send_to"
proof -
  let ?q = "post (test_url (str ''/echo''))\<lparr>req_headers := [(str ''Content-Type'', str ''application/json; charset=UTF-8'')]\<rparr>"
  let ?req = "with_body (into_bytes t) ?q"
  have req: "with_json to_string v (post (test_url (str ''/echo''))) = Ok ?req"
    using assms(1) by (simp add: with_json_def request_defs)
  have h: "req_headers ?req = [(str ''Content-Type'', str ''application/json; charset=UTF-8''), (str ''Content-Length'', show_nat (length (into_bytes t)))]"
    by (simp add: request_defs)
  have k: "is_length_key (str ''Content-Length'')" "\<not> is_length_key (str ''Content-Type'')" by (simp_all add: is_length_key_def rust_defs)
  have "plain_header (str ''Content-Length'', show_nat (length (into_bytes t)))"
    "plain_header (str ''Content-Type'', str ''application/json; charset=UTF-8'')"
    using show_nat_ascii [of "length (into_bytes t)"] show_nat_digits [of 10 "length (into_bytes t)"]
    by (auto simp: plain_header_def plain_line_def str_def is_ascii_def)
  then have "test_request ?req (into_bytes t)" unfolding test_request_def announces_def h
    using k assms(4) by (simp add: request_defs) (simp add: str_def announces_def)
  moreover have u: "from_utf8 (into_bytes t) = Ok t" using assms(3) by (simp add: from_utf8_Ok_iff)
  moreover have "hd (split_char (ch CHR ''#'') (str ''/echo'')) = str ''/echo''" by (rule split_char_path) (simp add: str_def)
  then have "test_server \<lparr>rr_method = str ''POST'', rr_target = str ''/echo'', rr_headers = hs, rr_body = into_bytes t, rr_rest = []\<rparr>
      = from_string t" for hs using u by (simp add: test_server_def Let_def)
  ultimately have "returns (send_to ?req) 200 (into_bytes t) (test_url (str ''/echo''))"
    using one_answer [OF assms(5) [OF req], where p = "str ''/echo''" and a = "from_string t"] readable_text(1) [of t]
    by (simp add: request_defs unlimited_def) (simp add: from_string_def handler_simps)
  then show ?thesis using req assms(2) u
    by (auto simp: test_json_using_serde_def returns_def awaited_def json_def as_str_def)
qed

text \<open>
  The test over HTTPS cannot pass, in any build with TLS and with any server: no response is ever read
  from an encrypted connection.
\<close>

lemma test_https_fails:
  assumes "feat_tls (x_cfg x) = Some be"
  shows "\<not> test_https (\<lambda>req. fst (request_send x req w))"
proof -
  let ?req = "get (str ''https://example.com'')"
  have "parse cf (str ''https://example.com'') None = Ok u \<Longrightarrow> https u" for cf u
    by (auto simp: parse_eq_split strip_scheme_def strip_prefix_def str_def split: prod.splits)
  then have "https (pr_url pr)" if "parsed_request_new (x_cfg x) (x_env x) ?req = Ok pr" for pr
    using that by (cases "parse (x_cfg x) (str ''https://example.com'') None")
      (auto simp: parsed_request_new_def append_params_def request_defs Let_def)
  then have n: "fst (request_send_lazy x ?req w) \<noteq> Ready (Ok r)" for r
    using send_https_no_response assms by (auto simp: request_send_lazy_def split: result.splits poll.splits)
  have "fst (request_send x ?req w) \<noteq> Ready (Ok resp)" for resp
    using n by (cases "request_send_lazy x ?req w") (simp add: request_send_lazy_create await_Ready_Ok_iff)
  then show ?thesis unfolding test_https_def awaited_def get_status_code_def
    by (cases "fst (request_send x ?req w)") (auto split: result.splits)
qed

end
