(* ===== verification/Test_Network.thy ===== *)
theory Test_Network
  imports Integration_Tests
begin

text \<open>
  The whole list of integration tests, the theorem that each passes, and a network on which the
  server of the tests is reached, with the answers that it prints.
\<close>

section \<open>A network with the server\<close>

text \<open>An answer as \<open>tiny_http\<close> may print it: its own headers and the content length.\<close>

definition network_status :: "answer \<Rightarrow> rstring" where
  "network_status a = print_status (an_status a) (str (if an_status a = 203 then ''Non-Authoritative Information'' else ''OK''))"

definition network_headers :: "answer \<Rightarrow> rstring list" where
  "network_headers a = map print_header (an_headers a @ [(str ''Content-Length'', show_nat (an_length a))])"

abbreviation network_tcp :: "answer \<Rightarrow> tcp_stream" where
  "network_tcp a \<equiv> \<lparr>tcp_writes = [Wrote 1000],
     tcp_incoming = [Chunk (response_bytes (network_status a) (network_headers a) (an_body a))],
     tcp_latency = an_delay a + 5\<rparr>"

text \<open>The connections are answered one after the other with these answers.\<close>

definition network :: "answer list \<Rightarrow> externals" where
  "network as = (example_ext [])\<lparr>x_dial := (\<lambda>ad k. Some (1, Ok (network_tcp (as ! k))))\<rparr>"

lemma network_simps [simp]:
  "x_cfg (network as) = plain_cfg" "x_env (network as) = (\<lambda>k. None)" "x_iter (network as) = (\<lambda>m. m)"
  "x_resolve (network as) = (\<lambda>h p. Ok [7])" "x_resolve_time (network as) = (\<lambda>h p t. 0)" "x_dial (network as) = (\<lambda>ad k. Some (1, Ok (network_tcp (as ! k))))"
  by (simp_all add: network_def)

text \<open>Answers with at most a location among their headers.\<close>

definition simple_answer :: "answer \<Rightarrow> bool" where
  "simple_answer a \<longleftrightarrow> (an_headers a = [] \<or> (\<exists>loc. an_headers a = [(str ''Location'', loc)] \<and> is_ascii loc \<and> 10 \<notin> set loc))
     \<and> an_length a \<le> usize_MAX \<and> length (show_nat (an_length a)) \<le> 20 \<and> length (show_nat (an_status a)) \<le> 20"

lemma length_value_show: "n \<le> usize_MAX \<Longrightarrow> length_value (show_nat n) = Some n"
proof -
  have "\<not> is_whitespace c" if "c \<in> set (show_nat n)" for c using show_nat_digits [OF that] by (simp add: is_whitespace_def)
  then have "\<not> is_whitespace (hd (show_nat n))" "\<not> is_whitespace (last (show_nat n))" by simp_all
  then have "dropWhile is_whitespace (show_nat n) = show_nat n" "dropWhile is_whitespace (rev (show_nat n)) = rev (show_nat n)"
    by (simp_all add: dropWhile_eq_self_iff hd_rev)
  then show "n \<le> usize_MAX \<Longrightarrow> ?thesis" by (simp add: length_value_def trim_def parse_uint_show_nat)
qed

lemma network_map:
  assumes "simple_answer a"
  shows "fold insert_header (network_headers a) [] =
    map (\<lambda>(k, v). (make_ascii_lowercase k, v)) (an_headers a) @ [(str ''content-length'', show_nat (an_length a))]"
proof -
  have "insert_header (print_header (str ''Content-Length'', v)) m = hm_insert (str ''content-length'') v m"
    "insert_header (print_header (str ''Location'', v)) m = hm_insert (str ''location'') v m" for v m
    using insert_header_print [of "str ''Content-Length''" v m] insert_header_print [of "str ''Location''" v m]
    by (simp_all add: rust_defs)
  then show ?thesis using assms by (auto simp: network_headers_def simple_answer_def hm_insert_def rust_defs)
qed

lemma network_prints:
  assumes "simple_answer a"
  shows "prints a (network_status a) (network_headers a)"
proof -
  have k: "is_length (str ''content-length'')" "\<not> is_length (str ''location'')"
    "\<not> is_chunked (str ''content-length'') v" "\<not> is_chunked (str ''location'') v" for v
    by (simp_all add: is_length_def is_chunked_def rust_defs)
  have l: "make_ascii_lowercase (str ''Location'') = str ''location''" by (simp add: rust_defs)
  have "lengths (fold insert_header (network_headers a) []) = [show_nat (an_length a)]"
    "\<not> chunked_headers (fold insert_header (network_headers a) [])"
    unfolding network_map [OF assms] using assms k l by (auto simp: simple_answer_def lengths_def chunked_headers_def)
  moreover have "length_value (show_nat (an_length a)) = Some (an_length a)"
    using assms by (simp add: simple_answer_def length_value_show)
  ultimately have f: "framing (fold insert_header (network_headers a) []) = Ok (ContentLength (an_length a))"
    "one_length (fold insert_header (network_headers a) [])" using framing_length by blast+
  have "hm_get (fold insert_header (network_headers a) []) (str ''location'') = map_of (an_headers a) (str ''Location'')"
    unfolding network_map [OF assms] using assms l by (auto simp: simple_answer_def hm_get_def str_def)
  moreover have "len_bytes (network_status a) \<le> 256"
  proof -
    have "is_ascii (network_status a)" by (simp add: network_status_def print_status_def str_def)
    then show ?thesis using assms by (auto simp: len_bytes_ascii simple_answer_def network_status_def print_status_def str_def)
  qed
  moreover have "len_bytes (print_header (str ''Content-Length'', show_nat (an_length a))) \<le> 36"
  proof -
    have "is_ascii (print_header (str ''Content-Length'', show_nat (an_length a)))" by (simp add: print_header_def str_def)
    then show ?thesis using assms by (simp add: len_bytes_ascii simple_answer_def print_header_def str_def)
  qed
  ultimately show ?thesis using f unfolding prints_def
    by (auto simp: network_status_def network_headers_def block_size_def)
qed

lemma network_delivers:
  assumes "simple_answer a"
  shows "delivers (Unsecured (tcp_incoming (network_tcp a)) t) (network_status a) (network_headers a) (an_body a)"
proof -
  have "48 \<le> c \<and> c \<le> 57" if "c \<in> set (show_nat n)" for c n using that by (rule show_nat_digits)
  then have n: "10 \<notin> set (show_nat n)" for n by fastforce
  have "plain_line (network_status a)" using n
    by (intro plain_line_ascii) (auto simp: network_status_def print_status_def str_def)
  moreover have "plain_line (print_header (str ''Content-Length'', show_nat (an_length a)))" using n
    by (intro plain_line_ascii) (auto simp: print_header_def str_def)
  moreover have "plain_line (print_header (str ''Location'', loc))" if "is_ascii loc" "10 \<notin> set loc" for loc
    using that by (intro plain_line_ascii) (auto simp: print_header_def str_def)
  moreover have "print_header kv \<noteq> []" for kv by (simp add: print_header_def str_def)
  ultimately show ?thesis using assms by (auto simp: delivers_def avail_def network_headers_def simple_answer_def)
qed

lemma network_hosted:
  assumes "simple_answer (as ! length (dialled w))" "local_request (c_request c) body"
    and "length (as_bytes (\<lambda>m. m) (c_request c)) \<le> 1000"
    and "test_server (meant (\<lambda>m. m) (c_request c) body) = as ! length (dialled w)"
  shows "hosted (network as) c w (as ! length (dialled w))"
proof -
  have "request_of (as_bytes (\<lambda>m. m) (c_request c)) = Some (meant (\<lambda>m. m) (c_request c) body)"
    using request_of_as_bytes [of "c_request c" body "\<lambda>m. m" "[]"] assms(2) by (simp add: local_request_def hash_order_def)
  then have "hosted_on (network as) c w (as ! length (dialled w)) 1 (network_tcp (as ! length (dialled w)))
      (network_status (as ! length (dialled w))) (network_headers (as ! length (dialled w)))"
    unfolding hosted_on_def using network_prints [OF assms(1)] network_delivers [OF assms(1)] assms(3,4)
    by (simp add: resolved_at_def)
  then show ?thesis unfolding hosted_def by blast
qed

lemma network_dialled:
  "req_proxy (conn_config c) = None \<Longrightarrow> c_timeout_at c = None \<Longrightarrow> length (as_bytes (\<lambda>m. m) (c_request c)) \<le> 1000 \<Longrightarrow>
     length (dialled (snd (exchange_http (network as) c w))) = Suc (length (dialled w))"
  by (simp add: exchange_http_def connection_connect_def tcp_connect_def dial_def timeout_def timeout_at_to_duration_def
      suspend_def split: poll.splits result.splits)

lemma network_final:
  assumes "hosted (network as) c w a" "\<not> is_redirect (int (an_status a))"
  shows "test_run (network as) c w"
  using assms by (intro test_run.visit) (auto simp: get_redirect_def is_redirect_def)

lemma network_tested:
  assumes "parse plain_cfg (req_url req) None = Ok (local_url p f)" "req_params req = []"
    and "\<And>c. c_request c = \<lparr>pr_url = local_url p f, pr_redirects = [], pr_config = req\<rparr> \<Longrightarrow>
      c_timeout_at c = map_option (\<lambda>t. t * 10 ^ 9) (req_timeout req) \<Longrightarrow> test_run (network as) c example_world"
  shows "sends (\<lambda>req. fst (request_send (network as) req example_world)) req"
proof -
  have "tested (network as) req example_world" unfolding tested_def
    using parsed_local [OF assms(1,2)] assms(3)
    by (auto simp: hash_order_def connection_new_def env_timeout_def instant_add_def split: option.splits if_splits)
  then show ?thesis unfolding sends_def by blast
qed

section \<open>All the tests\<close>

text \<open>The requests that each test sends to the server, and the test.\<close>

definition integration_tests :: "(request list \<times> (sender \<Rightarrow> bool)) list" where
  "integration_tests =
     [([with_timeout 1 (with_body (into_bytes (str ''Q'')) (get (test_url (str ''/slow_a''))))], test_timeout_too_low),
      ([with_timeout 3 (with_body (into_bytes (str ''Q'')) (get (test_url (str ''/slow_a''))))], test_timeout_high_enough),
      ([with_header (str ''Ping'') (str ''Qwerty'') (get (test_url (str ''/header_pong'')))], test_header_ping),
      ([with_body (into_bytes (str ''Q'')) (request_new (Custom (str ''GET'')) (test_url (str ''/a'')))], test_custom_method),
      ([with_body (into_bytes (str ''Q'')) (get (test_url (str ''/a'')))], test_get),
      ([with_body (into_bytes (str ''Q'')) (get (test_url (str ''/redirect'')))], test_redirect_get),
      ([with_body (into_bytes (str ''Q'')) (post (test_url (str ''/redirect'')))], test_redirect_post),
      ([get (test_url (str ''/redirect#foo''))], test_redirect_with_fragment),
      ([get (test_url (str ''/redirect-baz#foo''))], test_redirect_with_overridden_fragment),
      ([get (test_url (str ''/infiniteredirect''))], test_infinite_redirect),
      ([with_body (into_bytes (str ''Q'')) (get (test_url (str ''/relativeredirect'')))], test_relative_redirect_get),
      ([head (test_url (str ''/b''))], test_head),
      ([with_body (into_bytes (str ''E'')) (post (test_url (str ''/c'')))], test_post),
      ([with_body (into_bytes (str ''R'')) (put (test_url (str ''/d'')))], test_put),
      ([delete (test_url (str ''/e''))], test_delete),
      ([trace (test_url (str ''/f''))], test_trace),
      ([with_body (into_bytes (str ''U'')) (options (test_url (str ''/g'')))], test_options),
      ([with_body (into_bytes (str ''I'')) (connect (test_url (str ''/h'')))], test_connect),
      ([with_body (into_bytes (str ''O'')) (patch (test_url (str ''/i'')))], test_patch),
      ([with_max_headers_size (Some 999) (get (test_url (str ''/long_header''))),
        with_max_headers_size (Some 1500) (get (test_url (str ''/long_header'')))], test_header_cap),
      ([with_max_status_line_length (Some (len_bytes expected_status_line + 1)) (get (test_url (str ''/long_status_line''))),
        with_max_status_line_length (Some (len_bytes expected_status_line + 2)) (get (test_url (str ''/long_status_line'')))],
       test_status_line_cap),
      ([get (test_url (str ''/massive_content_length''))], test_massive_content_length)]"

lemmas tests_pass = test_timeout_too_low_passes test_timeout_high_enough_passes test_header_ping_passes test_custom_method_passes
  test_get_passes test_redirect_get_passes test_redirect_post_passes test_redirect_with_fragment_passes
  test_redirect_with_overridden_fragment_passes test_infinite_redirect_passes test_relative_redirect_get_passes test_head_passes
  test_post_passes test_put_passes test_delete_passes test_trace_passes test_options_passes test_connect_passes test_patch_passes
  test_header_cap_passes test_status_line_cap_passes test_massive_content_length_passes

text \<open>
  C21: The 22 integration tests in the list above, which are those that talk to the server of
  \<open>tests/setup.rs\<close> without JSON, pass in every build and for every order of the hash map, when the requests it sends reach that server: the requests are written,
  read back, answered by the handler, redirected and delivered, or time out, as the test asserts.
\<close>

theorem integration_tests_pass:
  assumes "(reqs, test) \<in> set integration_tests" "list_all (sends send_to) reqs"
  shows "test send_to"
  using assms unfolding integration_tests_def list.set insert_iff empty_iff prod.inject
  by (elim disjE conjE) (simp_all only: list.pred_inject tests_pass)

text \<open>Two networks: one that redirects the first request and answers the second, and one that is slow.\<close>

abbreviation moved_answers :: "answer list" where
  "moved_answers \<equiv> [empty_answer 301 [(str ''Location'', str ''http://localhost:35562/a'')], from_string (str ''j: Q'')]"

abbreviation q_request :: "rstring \<Rightarrow> request" where
  "q_request p \<equiv> with_body (into_bytes (str ''Q'')) (get (test_url p))"

lemma q_length: "p = str ''/redirect'' \<or> p = str ''/a'' \<Longrightarrow>
    length (as_bytes (\<lambda>m. m) \<lparr>pr_url = local_url p None, pr_redirects = rs, pr_config = q_request q\<rparr>) \<le> 1000"
  by (auto simp: as_bytes_def get_http_head_def header_line_def request_defs str_def encode_utf8_def show_nat.simps)

lemma q_local: "p = str ''/redirect'' \<or> p = str ''/a'' \<Longrightarrow>
    local_request \<lparr>pr_url = local_url p None, pr_redirects = rs, pr_config = q_request q\<rparr> (into_bytes (str ''Q''))"
  unfolding get_def by (rule test_request_local [OF test_request_body]) (auto simp: handler_simps)

lemma q_server:
  "test_server \<lparr>rr_method = str ''GET'', rr_target = str ''/redirect'', rr_headers = hs, rr_body = into_bytes (str ''Q''), rr_rest = []\<rparr>
     = moved_answers ! 0"
  "test_server \<lparr>rr_method = str ''GET'', rr_target = str ''/a'', rr_headers = hs, rr_body = into_bytes (str ''Q''), rr_rest = []\<rparr>
     = moved_answers ! 1"
  by (simp_all add: handler_simps)

lemma q_answers: "simple_answer (moved_answers ! 0)" "simple_answer (moved_answers ! 1)"
proof -
  have n: "length (show_nat 0) = 1" "length (show_nat 4) = 1" "length (show_nat 200) = 3" "length (show_nat 301) = 3"
    by (simp_all add: show_nat.simps)
  have l: "length (into_bytes (str ''j: Q'')) = 4" by (simp add: str_def encode_utf8_def)
  have "is_ascii (str ''http://localhost:35562/a'')" "10 \<notin> set (str ''http://localhost:35562/a'')" by (simp_all add: str_def)
  then show "simple_answer (moved_answers ! 0)" using n by (simp add: simple_answer_def empty_answer_def)
  show "simple_answer (moved_answers ! 1)" using n l by (simp add: simple_answer_def from_string_def usize_MAX_def)
qed

lemma q_hosted:
  assumes "c_request c = \<lparr>pr_url = local_url p None, pr_redirects = rs, pr_config = q_request q\<rparr>"
    and "p = str ''/redirect'' \<and> length (dialled w) = 0 \<or> p = str ''/a'' \<and> length (dialled w) = 1"
  shows "hosted (network moved_answers) c w (moved_answers ! length (dialled w))"
proof (rule network_hosted)
  have p: "p = str ''/redirect'' \<or> p = str ''/a''" using assms(2) by blast
  have "req_method (q_request q) = Get" by (simp add: request_defs)
  then show "test_server (meant (\<lambda>m. m) (c_request c) (into_bytes (str ''Q''))) = moved_answers ! length (dialled w)"
    unfolding assms(1) using assms(2) by (elim disjE conjE) (simp_all only: q_server parsed_request.simps http_url.simps method_fmt.simps)
  show "simple_answer (moved_answers ! length (dialled w))" using assms(2) by (elim disjE conjE) (simp_all only: q_answers)
  show "local_request (c_request c) (into_bytes (str ''Q''))" unfolding assms(1) by (rule q_local [OF p])
  show "length (as_bytes (\<lambda>m. m) (c_request c)) \<le> 1000" unfolding assms(1) by (rule q_length [OF p])
qed

lemma moved_run:
  assumes "c_request c = \<lparr>pr_url = local_url (str ''/redirect'') None, pr_redirects = [], pr_config = q_request (str ''/redirect'')\<rparr>"
    "c_timeout_at c = None"
  shows "test_run (network moved_answers) c example_world"
proof -
  let ?c = "c\<lparr>c_request := \<lparr>pr_url = local_url (str ''/a'') None, pr_redirects = [local_url (str ''/redirect'') None],
      pr_config = redirect_config 301 (q_request (str ''/redirect''))\<rparr>\<rparr>"
  let ?w = "snd (exchange_http (network moved_answers) c example_world)"
  have h: "hosted (network moved_answers) c example_world (moved_answers ! 0)" using q_hosted [OF assms(1), of example_world] by simp
  have "length (as_bytes (\<lambda>m. m) (c_request c)) \<le> 1000" unfolding assms(1) by (rule q_length) simp
  then have d: "length (dialled ?w) = 1" using network_dialled [of c] assms by (simp add: request_defs)
  have q: "redirect_config 301 (q_request (str ''/redirect'')) = q_request (str ''/redirect'')" by (simp add: redirect_config_def)
  have "hosted (network moved_answers) ?c ?w (moved_answers ! 1)" using q_hosted [of ?c "str ''/a''" "[local_url (str ''/redirect'') None]" "str ''/redirect''" ?w] d q by simp
  then have "test_run (network moved_answers) ?c ?w" by (rule network_final) (simp add: from_string_def is_redirect_def)
  moreover have "local_location (str ''http://localhost:35562/a'') (str ''/a'') None" by (simp add: redirect_simps handler_simps)
  from get_redirect_local [OF this _ assms(1), of 301 plain_cfg]
  have "get_redirect plain_cfg c 301 (Some (str ''http://localhost:35562/a'')) = Redirect (Ok ?c)"
    by (simp add: is_redirect_def) (simp add: request_defs str_def)
  ultimately show ?thesis using h by (intro test_run.visit [of _ _ _ "moved_answers ! 0"]) (simp_all add: empty_answer_def)
qed

theorem integration_tests_pass_witness:
  "test_redirect_get (\<lambda>req. fst (request_send (network moved_answers) req example_world))"
proof (rule integration_tests_pass)
  let ?req = "q_request (str ''/redirect'')"
  show "([?req], test_redirect_get) \<in> set integration_tests" by (simp add: integration_tests_def)
  have "safe_path (str ''/redirect'')" by (simp add: handler_simps)
  then have "parse plain_cfg (req_url ?req) None = Ok (local_url (str ''/redirect'') None)"
    using parse_local [of "str ''/redirect''" None plain_cfg] by (simp add: request_defs)
  then have "sends (\<lambda>req. fst (request_send (network moved_answers) req example_world)) ?req"
    by (rule network_tested) (auto intro!: moved_run simp: request_defs)
  then show "list_all (sends (\<lambda>req. fst (request_send (network moved_answers) req example_world))) [?req]" by simp
qed

end
