(* ===== verification/Spec2Isabelle.thy ===== *)
theory Spec2Isabelle
  imports Example_Requests Example_Programs Response_Spec Panic_Spec Injection_Spec Error_Spec Deadline_Spec Server_Spec Crate_Root Tls_Stream Unit_Tests Test_Network
begin

text \<open>
  A model of the crate \<open>async_minreq\<close> (an asynchronous fork of the HTTP client \<open>minreq\<close>) and the
  properties that make it correct, or that say precisely where it is not.

  \<^bold>\<open>The program.\<close> A caller builds a \<open>Request\<close> (\<open>request.rs\<close>) with a URL, headers, a body and limits.
  Sending it parses the URL (\<open>http_url.rs\<close>), takes a default proxy from the environment
  (\<open>proxy.rs\<close>), opens a \<open>Connection\<close> (\<open>connection.rs\<close>) directly or through a CONNECT proxy, with TLS
  for HTTPS (\<open>native_tls/\<close>), writes the printed request and reads the head of the response
  (\<open>response.rs\<close>). A redirect starts over with the redirected request; otherwise the caller gets a
  \<open>ResponseLazy\<close>, whose body is polled, or a \<open>Response\<close>, for which the body was drained. Failures are
  values of \<open>Error\<close> (\<open>error.rs\<close>). \<open>build.rs\<close> selects one of two ways to limit TLS versions.

  \<^bold>\<open>The theories\<close>, each over the ones it uses.
  \<^item> \<open>Prelude\<close>: results, polls, \<open>usize\<close> arithmetic that panics or wraps by build, the codec
    interfaces, generic list lemmas. \<open>Rust_Str\<close>: Rust strings, UTF-8, numbers in text.
    \<open>Hash_Map\<close>: \<open>HashMap<String, String>\<close> and its interface; iteration order is an argument.
  \<^item> \<open>Build_Config\<close>: Cargo features, profile, \<open>build.rs\<close>. \<open>Errors\<close>: \<open>error.rs\<close>.
  \<^item> \<open>Http_Url\<close>: \<open>HttpUrl::parse\<close>, \<open>write_base_url_to\<close>, \<open>write_resource_to\<close>, with the loop proved equal to
    a split of the text, and printing and parsing a codec. \<open>Proxy\<close>: \<open>Proxy::new\<close> and
    \<open>verify_response\<close>, a codec with the documented format. \<open>Request\<close>: the builder, \<open>ParsedRequest\<close>,
    the printed request, \<open>redirect_to\<close>, \<open>Proxy::connect\<close>.
  \<^item> \<open>Response_Reader\<close>: the byte stream, both line readers, status line, headers,
    \<open>read_metadata\<close>. \<open>Line_Spec\<close>: the contract of a line reader (locale \<open>line_reader\<close>), met by
    \<open>read_line_async\<close> and \<open>read_line\<close>, and overflow. \<open>Metadata_Spec\<close>: status lines, headers and
    caps.
  \<^item> \<open>Response_Body\<close>: \<open>ResponseLazy\<close>, one poll function per kind of body, \<open>Response\<close>.
    \<open>Body_Spec\<close>: the contract of a body (locale \<open>body_reader\<close>) and its two implementations, the whole
    response, bodies that stall or fail (locale \<open>stream_invariant\<close>). \<open>Chunked_Spec\<close>: chunked bodies.
    \<open>Response_Spec\<close>: a response as a function of the bytes of a connection and the way it ends, refined by
    the readers. \<open>Server_Spec\<close>: a reader of requests, written from the format, for what is printed.
  \<^item> \<open>Rustls_Config\<close>: the statics \<open>MANUAL_ROOTS\<close> and \<open>CONFIG\<close> of \<open>connection.rs\<close> and their life as a
    state machine. \<open>Crate_Root\<close>: modules and re-exports of \<open>lib.rs\<close>, and what follows for those statics.
  \<^item> \<open>Connection\<close>: timeouts, dialling, the proxy exchange, writing, TLS setup, redirects,
    \<open>Request::send\<close> and \<open>send_lazy\<close>. \<open>Connection_Spec\<close>: the redirect relation, the bound on requests,
    addresses, hosts. \<open>Deadline_Spec\<close>: the clock through all of these, and what the timeout of a request
    keeps. \<open>Send_Rule\<close>: the rule by which what one exchange and one redirect keep
    holds for the mutually recursive functions that send (locale \<open>sending\<close>), and its interpretations:
    \<open>Progress_Spec\<close>, nothing waits for ever on connections that are closed in the end (locale
    \<open>live_stream\<close> over \<open>stream_invariant\<close>); \<open>Type_Spec\<close>, well-formed responses, kept by every poll;
    \<open>Panic_Spec\<close>, where a panic can come from (locale \<open>calm_stream\<close>); \<open>Error_Spec\<close>, which errors can be
    returned, function by function; \<open>Injection_Spec\<close>, what is written.
    \<open>Delivery_Spec\<close>: what a server that answers is, and chains of redirects.
  \<^item> \<open>Native_Tls\<close>: the TLS connector, Android roots and both variants of \<open>supported_protocols\<close> (locale
    \<open>version_limits\<close>), as the settings they make in a context; what OpenSSL does with them is not modelled. \<open>Tls_Stream\<close>: the streams, handshakes and errors of \<open>native_tls/\<close> around those
    of \<open>openssl\<close>, with their \<open>Debug\<close> output.
  \<^item> \<open>Example_Programs\<close>: the programs under \<open>examples/\<close>. \<open>Unit_Tests\<close>: the unit tests of \<open>request.rs\<close> and
    \<open>proxy.rs\<close>, proved to pass. \<open>Test_Server\<close>: the server of \<open>tests/setup.rs\<close>, with \<open>tiny_http\<close> as a
    predicate on connections, and runs of requests against it. \<open>Integration_Tests\<close>: the tests of
    \<open>tests/main.rs\<close>, each proved to pass, except the one over HTTPS, which cannot. \<open>Test_Network\<close>: their list and
    a network on which the server is reached. \<open>Example_Requests\<close>: the concrete servers and requests of
    the applications.
  \<^item> \<open>Request_Properties\<close>, \<open>Response_Properties\<close> and this theory: the properties, numbered C1 to
    C40 (C4 in \<open>Response_Spec\<close>, C20 in \<open>Server_Spec\<close>, C21 in \<open>Test_Network\<close>), each with an application to a concrete input where it has hypotheses.

  \<^bold>\<open>How code corresponds to definitions.\<close> Structures are records and enums datatypes, with the
  source's names, prefixed where HOL has the name. A function that may fail returns \<open>result\<close>, one
  that is polled or awaited \<open>poll\<close>: \<open>Pending\<close> is a future that does not complete, \<open>Panicked\<close> a panic.
  State that a function mutates is an argument and part of its result. A stream is the script of
  what its polls will yield; an \<open>async\<close> function waits out \<open>NotReady\<close>, a poll function returns
  \<open>Pending\<close> on it. The network is the record \<open>externals\<close> (resolution, dialling, handshakes and the
  crates used), and \<open>world\<close> is the clock and the log of what was dialled and written.
  Features are the record \<open>cfg\<close>, so one definition covers every build.
  A wait that outlasts the timer of its connection leaves the future pending, which the enclosing
  \<open>tokio::time::timeout\<close> (\<open>deadline\<close>) turns into an error; a name resolution moves the clock without
  a chance for that timer, because \<open>to_socket_addrs\<close> blocks.

  \<^bold>\<open>Termination.\<close> No fuel is used. Line and body loops end because every round takes an event from
  the script, header and trailer loops because every round takes bytes, the proxy loop because a
  full buffer takes 256 bytes, and redirects because each lowers \<open>hops_left\<close>.

  \<^bold>\<open>What is shown.\<close> End to end, a plain HTTP request returns what the server sent, over redirects
  and however it is delivered (C1, C8, C9); every request comes to an end on connections that are
  closed, every response is well formed, and an unchunked one depends only on the bytes and the end of
  its connection (C2 to C4); without TLS no server can make the client panic, and none can add a line
  to a later request, or change its headers or its body (C5, C6); each error that is returned has one
  of the causes that are named, and five variants of \<open>Error\<close> are never returned (C7); redirects end, are
  recorded and bounded, and deadlines are kept, but for a name resolution that blocks (C10 to C13, C22); heads are read back, caps are exact,
  framing does not depend on hash order (C14 to C16); URLs, requests and proxies are printed and parsed
  consistently (C17 to C20, C25); the integration tests that talk to their server without JSON pass (C21,
  the lemma \<open>test_json_using_serde_passes\<close> for the other one); addresses,
  hosts and proxy answers (C23, C24, C26); the roots of \<open>rustls\<close>, and the versions,
  checks and roots set for OpenSSL (C27, C29 to C31); the last
  chunk (C32) and the iterator example (C33). C34 to C40 state where the code falls short: the data of
  chunks is lost, only the first chunk is read, pending polls drop bytes, lengths and caps underflow,
  bodies are outside the timeout, and HTTPS never responds; C28 is the same for builds with manual
  roots, and the lemma \<open>partial_write_ignored\<close> for requests that are written in part.

  \<^bold>\<open>Not modelled.\<close> Code that is commented out in \<open>native_tls/\<close> (identities, certificates, setters of the
  builder, acceptors), \<open>_check_kinds\<close>, which only constrains types, the \<open>Debug\<close> output of derived
  implementations, logging, capacities of buffers. Which protocol versions OpenSSL negotiates and what it reads
  from the locations of its store. A name resolution takes any time but ends, the peer of a connection takes its
  time once per request, memory is unbounded, and a \<open>Lazy\<close> whose initialiser panicked has no state after it.
\<close>

section \<open>A request from end to end\<close>

text \<open>
  C1: A request sent over plain HTTP is delivered: it goes to each server of a chain of redirects, as
  printed, and what is returned is the response of the last one: the status, the headers and the
  body it sent, under its URL, the body empty for a HEAD request and for status 204 and 304, whatever
  the pieces and delays of delivery.
\<close>

theorem request_delivered:
  assumes "parsed_request_new (x_cfg x) (x_env x) req = Ok pr" "connection_new x w pr = Ready c" "\<not> https (conn_url c)"
    and "served_chain x c w vs cl wl" "answered x cl wl tcp sl hs body" "framing (fold insert_header hs []) = Ok fr"
    and "fr = ContentLength (length body) \<or> fr = EndOnClose \<and> closes (tcp_incoming tcp)"
  shows "\<exists>w'. request_send x req w =
      (Ready (Ok ((parsed_response sl hs
          (if req_method (pr_config pr) = Head \<or> fst (parse_status_line sl) \<in> {204, 304} then [] else body))
            \<lparr>resp_url := print_url (conn_url cl)\<rparr>)), w')
    \<and> requests w' = requests w @ map (\<lambda>v. as_bytes (x_iter x) (c_request v)) (vs @ [cl])"
  by (rule served_chain_request [OF assms(1-6)]) (use assms(7) in \<open>simp add: delimited_def\<close>)

theorem request_delivered_witness:
  "\<exists>w'. request_send moved_ext small_request example_world =
      (Ready (Ok ((parsed_response (str ''HTTP/1.1 200 OK'') [str ''Content-Length: 2''] [104, 105])
          \<lparr>resp_url := print_url (small_url\<lparr>path_and_query := str ''/z''\<rparr>)\<rparr>)), w')
    \<and> requests w' = [as_bytes (\<lambda>m. m) (c_request small_connection), as_bytes (\<lambda>m. m) (c_request moved_connection)]"
  using request_delivered [OF _ _ _ moved_chain moved_answered example_framing(1), of small_request "c_request small_connection"]
    small_parsed small_connection_new [of "events example_stream"]
  by (simp add: small_request_simps example_status push_redirect_def connection_new_def)

text \<open>
  C39: The timeout of a request does not cover its body: when the server stalls before the announced
  length, or without closing the connection, sending never returns, although the response head came
  in time.
\<close>

theorem body_outside_timeout:
  assumes "parsed_request_new (x_cfg x) (x_env x) req = Ok pr" "connection_new x w pr = Ready c"
    and "answered x c w tcp sl hs body" "framing (fold insert_header hs []) = Ok fr"
    and "stalls (tcp_incoming tcp)" "fr = EndOnClose \<or> (\<exists>n>length body. fr = ContentLength n)"
    and "req_method (pr_config pr) \<noteq> Head" "fst (parse_status_line sl) \<notin> {204, 304}"
  shows "fst (request_send x req w) = Pending"
proof -
  obtain r w' where r: "send x c w = (Ready (Ok r), w')" "is_unsecured (lz_stream r)" "body_avail r = body"
    "lz_state r = fr" "stalls (tcp_incoming tcp) \<longrightarrow> stalls (events (lz_stream r))"
    "lz_status_code r = fst (parse_status_line sl)"
    using send_answered [OF assms(3,4)] by metis
  then have "starving r" "has_body False r" "ending_of (events (lz_stream r)) = Stalled"
    using assms(5,6,8) by (auto simp: starving_def has_body_def stalls_ending)
  moreover have "\<not> https (conn_url c)" using assms(3) by (simp add: answered_def served_def)
  ultimately show ?thesis using request_send_http [OF assms(1,2) _ r(1)] create_starving [of r False] assms(7) by simp
qed

theorem body_outside_timeout_witness:
  "req_timeout small_request = Some 1 \<and>
   fst (request_send (example_ext (butlast (events example_stream))) small_request example_world) = Pending"
proof -
  let ?es = "butlast (events example_stream)"
  have "delivers (Unsecured ?es None) (str ''HTTP/1.1 200 OK'') [str ''Content-Length: 2''] [104]"
    using delivers_example by (simp add: delivers_def response_bytes_def avail_def)
  then show ?thesis
    using body_outside_timeout [of "example_ext ?es" small_request "c_request small_connection" example_world
        small_connection "example_tcp ?es" "str ''HTTP/1.1 200 OK''" "[str ''Content-Length: 2'']" "[104]" "ContentLength 2"]
      small_parsed small_connection_new small_answered [of ?es "[104]"] example_framing(1)
    by (simp add: small_request_simps example_status)
qed

section \<open>Every request\<close>

text \<open>
  C2: Nothing hangs on a closed connection: when every dial and every handshake completes and every
  connection is closed by its peer in the end, sending a request comes to an end, with a response, an
  error or a panic, lazily or with the whole body, over any number of redirects, through a proxy, with
  TLS, with chunked bodies, and however malformed the answers are.
\<close>

theorem request_returns:
  assumes "\<forall>a n. \<exists>t r. x_dial x a n = Some (t, r) \<and> (\<forall>tcp. r = Ok tcp \<longrightarrow> closing_socket tcp)"
    and "\<forall>k h tcp. \<exists>t r. x_handshake x k h tcp = Some (t, r) \<and> (\<forall>tls. r = Ok tls \<longrightarrow> closing_socket tls)"
  shows "fst (request_send x req w) \<noteq> Pending \<and> fst (request_send_lazy x req w) \<noteq> Pending"
proof -
  have "responsive x" using assms by (simp add: responsive_def)
  then show ?thesis using request_send_ends request_send_lazy_ends [of x req w] by (simp add: yields_ending_def)
qed

theorem request_returns_witness:
  "fst (request_send ((example_ext [])\<lparr>x_dial := (\<lambda>a k. Some (1, Ok \<lparr>tcp_writes = [WriteFail timeout_err],
       tcp_incoming = [Chunk [0], NotReady, Eof], tcp_latency = 0\<rparr>)),
     x_handshake := (\<lambda>k h tcp. Some (1, Err timeout_err))\<rparr>) small_request example_world) \<noteq> Pending"
  by (rule request_returns [THEN conjunct1]) (simp_all add: closing_socket_def timeout_err_def)

text \<open>
  C3: Whatever a server sends, a response that is returned is well formed: its status fits an \<open>i32\<close>, its
  reason phrase and its headers are text without line feeds, and every header name is in lower case
  and occurs once, trailers of chunked bodies included.
\<close>

theorem response_well_formed:
  assumes "request_send x req w = (Ready (Ok r), w')"
  shows "- (2 ^ 31) \<le> resp_status_code r \<and> resp_status_code r < 2 ^ 31
    \<and> (\<forall>c\<in>set (resp_reason_phrase r). is_scalar c \<and> c \<noteq> LF) \<and> distinct (map fst (resp_headers r))
    \<and> (\<forall>(k, v)\<in>set (resp_headers r). make_ascii_lowercase k = k \<and> (\<forall>c\<in>set (k @ v). is_scalar c \<and> c \<noteq> LF))"
proof -
  obtain l w1 where "request_send_lazy x req w = (Ready (Ok l), w1)"
    "create (profile (x_cfg x)) l (req_method req = Head) = Ready (Ok r)"
    using assms unfolding request_send_lazy_create by (auto simp: await_Ready_Ok_iff split: prod.splits)
  then have "wf_response r" using create_wf request_send_lazy_wf by blast
  then show ?thesis by (auto simp: wf_response_def wf_headers_def wf_hm_def line_text_def is_i32_def)
qed

theorem response_well_formed_witness:
  "\<exists>r w'. request_send (example_ext (events example_stream)) small_request example_world = (Ready (Ok r), w')
    \<and> distinct (map fst (resp_headers r)) \<and> resp_status_code r < 2 ^ 31"
proof -
  have "\<exists>r w'. request_send (example_ext (events example_stream)) small_request example_world = (Ready (Ok r), w')"
    using served_chain_request [OF _ _ _ served_chain.arrived small_answered_example example_framing(1), of small_request
        "c_request small_connection"] small_parsed small_connection_new
    by (fastforce simp: delimited_def)
  then obtain r w' where "request_send (example_ext (events example_stream)) small_request example_world = (Ready (Ok r), w')"
    by blast
  then show ?thesis using response_well_formed by fastforce
qed



text \<open>
  C6: No server can smuggle a line into a request: when the request that is sent has no line feeds,
  every request that goes out, over any redirects and to whichever host, is a prefix of a printed
  request with the headers and the body that were given and the given method or GET, whose head is cut
  at its line feeds into exactly the lines it is meant to have.
\<close>

theorem no_line_injected:
  assumes "hash_order (x_iter x)" "\<forall>s p. x_punycode x s = Ok p \<longrightarrow> LF \<notin> set p"
    and "LF \<notin> set (method_fmt (req_method req) @ req_url req @ req_params req)"
    and "\<forall>(k, v)\<in>set (req_headers req). LF \<notin> set (k @ v)"
  shows "\<exists>outs. requests (snd (request_send x req w)) = requests w @ outs
    \<and> (\<forall>out\<in>set outs. \<exists>r. prefix out (as_bytes (x_iter x) r)
         \<and> req_headers (pr_config r) = req_headers req \<and> req_body (pr_config r) = req_body req
         \<and> (req_method (pr_config r) = req_method req \<or> req_method (pr_config r) = Get)
         \<and> split_char LF (get_http_head (x_iter x) r) = map (\<lambda>l. l @ [CR]) (head_lines (x_iter x) r) @ [[]])"
proof -
  have "plain_crates x" "lf_free_request req" using assms by (auto simp: plain_crates_def lf_free_request_def)
  then have "wrote_only x req (requests w) (snd (request_send x req w))"
    using request_send_lazy_written [of x req w] unfolding request_send_lazy_create by (auto split: prod.split)
  then show ?thesis
    using request_head_lines [OF _ assms(1)] unfolding wrote_only_def written_def same_payload_def by blast
qed

theorem no_line_injected_witness:
  "\<exists>outs. requests (snd (request_send moved_ext small_request example_world)) = requests example_world @ outs
    \<and> (\<forall>out\<in>set outs. \<exists>r. prefix out (as_bytes (\<lambda>m. m) r) \<and> req_headers (pr_config r) = []
         \<and> req_body (pr_config r) = None \<and> req_method (pr_config r) = Get
         \<and> split_char LF (get_http_head (\<lambda>m. m) r) = map (\<lambda>l. l @ [CR]) (head_lines (\<lambda>m. m) r) @ [[]])"
  using no_line_injected [of moved_ext small_request example_world]
  by (simp add: small_request_simps hash_order_def str_def)

text \<open>
  C7: The errors of a request: an I/O error, an address that cannot be found, a malformed or oversized
  response, redirects that do not end or have no target; without the feature for it, an HTTPS scheme or a host
  that is not ASCII; and the refusals of a proxy, if one is used. In particular \<open>send\<close> returns neither
  \<open>SerdeJsonError\<close> nor \<open>InvalidUtf8InBody\<close> nor \<open>Other\<close>, as documented, and never
  \<open>RustlsCreateConnection\<close>, \<open>MalformedChunkEnd\<close>, \<open>BadProxyCreds\<close> or \<open>ProxyConnect\<close>.
\<close>

theorem send_errors:
  assumes "request_send x req w = (Ready (Err e), w')"
  shows "(\<exists>io. e = IoError io)
    \<or> e \<in> {AddressNotFound, StatusLineOverflow, HeadersOverflow, InvalidUtf8InResponse, MalformedContentLength,
          MalformedChunkLength, RedirectLocationMissing, TooManyRedirections, InfiniteRedirectionLoop}
    \<or> e = HttpsFeatureNotEnabled \<and> feat_tls (x_cfg x) = None
    \<or> e = PunycodeFeatureNotEnabled \<and> \<not> feat_punycode (x_cfg x)
    \<or> e = PunycodeConversionFailed \<and> feat_punycode (x_cfg x)
    \<or> e \<in> {BadProxy, InvalidProxyCreds} \<and> feat_proxy (x_cfg x)
        \<and> (\<exists>pr p. parsed_request_new (x_cfg x) (x_env x) req = Ok pr \<and> req_proxy (pr_config pr) = Some p)"
  using request_send_Err [OF assms]
  by (auto simp: send_error_def head_error_def body_error_def line_error_def connect_error_def)

theorem send_errors_witness:
  "request_send ((example_ext [])\<lparr>x_resolve := (\<lambda>h p. Ok [])\<rparr>) small_request example_world =
     (Ready (Err AddressNotFound), example_world)
   \<and> AddressNotFound \<noteq> ProxyConnect"
proof -
  have "is_ascii (str ''h'')" by (simp add: str_def)
  then have "request_send ((example_ext [])\<lparr>x_resolve := (\<lambda>h p. Ok [])\<rparr>) small_request example_world =
     (Ready (Err AddressNotFound), example_world)"
    using small_parsed small_connection_new [of "[]"]
    by (simp add: request_send_def connection_new_def instant_add_def small_request_simps send.simps send_without_timeout.simps
        with_ascii_host_def ensure_ascii_host_def exchange_http_def connection_connect_def tcp_connect_def deadline_def
        timeout_def timeout_at_to_duration_def)
  from send_errors [OF this] this show ?thesis by simp
qed

section \<open>Redirects\<close>

text \<open>
  C10: \<open>send\<close> refines the redirect relation: a response it returns has no redirect status, and its
  URL is that of the last connection of a chain of redirects that starts at the given one.
\<close>

theorem send_follows_redirects:
  assumes "send x c w = (Ready (Ok r), w')"
  shows "lz_status_code r \<notin> {301, 302, 303, 307}
    \<and> (\<exists>vs cl ca. redirect_chain x c vs cl \<and> with_ascii_host x cl = Ok ca \<and> lz_url r = print_url (conn_url ca))"
  using send_final [OF assms] by (simp add: final_response_def is_redirect_def)

theorem send_follows_redirects_witness:
  "\<exists>r w'. send (example_ext (events example_stream)) small_connection example_world = (Ready (Ok r), w')
    \<and> lz_status_code r \<notin> {301, 302, 303, 307}"
proof -
  obtain r w' where "send (example_ext (events example_stream)) small_connection example_world = (Ready (Ok r), w')"
    by (rule send_answered [OF small_answered_example example_framing(1)])
  then show ?thesis using send_follows_redirects by blast
qed

text \<open>
  C11: Along every chain of redirects the visited URLs are recorded in order and never exceed the
  limit; of the configuration only the method changes, to GET; without host conversion no URL is
  visited twice, and, where URLs are not percent-encoded either, all of them are well formed.
\<close>

theorem redirect_chain_invariant:
  assumes "redirect_chain x c vs cl" "pr_redirects (c_request c) = []"
  shows "pr_redirects (c_request cl) = map conn_url vs \<and> length vs \<le> req_max_redirects (conn_config cl)
    \<and> same_config c cl \<and> (\<not> feat_punycode (x_cfg x) \<longrightarrow> distinct (map conn_url vs @ [conn_url cl]))
    \<and> (\<not> feat_punycode (x_cfg x) \<and> \<not> feat_urlencoding (x_cfg x) \<and> wf_url (conn_url c) \<longrightarrow>
         (\<forall>v\<in>set (vs @ [cl]). wf_url (conn_url v)))"
  using redirect_chain_frame [OF assms(1)] redirect_chain_distinct [OF assms(1)] redirect_chain_wf_url [OF assms(1)] assms(2)
  by (cases vs) auto

theorem redirect_chain_invariant_witness:
  "\<exists>vs cl. redirect_chain (example_ext []) small_connection vs cl \<and> length vs = 1
    \<and> distinct (map conn_url vs @ [conn_url cl])"
proof -
  let ?c = "small_connection\<lparr>c_request := push_redirect (small_url\<lparr>path_and_query := str ''/z''\<rparr>) (c_request small_connection)\<rparr>"
  have "with_ascii_host (example_ext []) small_connection = Ok small_connection"
    by (simp add: with_ascii_host_def ensure_ascii_host_def str_def)
  then have "redirect_chain (example_ext []) small_connection [small_connection] ?c"
    using small_redirect by (intro redirect_chain.intros(2) [where code = 302 and loc = "Some (str ''/z'')"])
      (auto intro: redirect_chain.stop)
  then show ?thesis using redirect_chain_invariant by fastforce
qed

text \<open>
  C12: The number of requests is bounded: one more than the redirects the configuration allows, over
  plain HTTP and HTTPS, whatever the servers answer.
\<close>

theorem requests_bounded:
  assumes "pr_redirects (c_request c) = []"
  shows "length (requests (snd (send x c w))) \<le> length (requests w) + Suc (req_max_redirects (conn_config c))
    \<and> length (requests (snd (send_https x be c w))) \<le> length (requests w) + Suc (req_max_redirects (conn_config c))"
  using sends_at_most_hops [of x c] assms by (simp add: sends_at_most_def hops_left_def)

theorem requests_bounded_witness:
  "length (requests (snd (send (example_ext []) small_connection example_world))) \<le> 101"
  using requests_bounded [of small_connection "example_ext []" example_world] by (simp add: small_request_simps)

text \<open>
  How \<open>get_redirect\<close> decides: statuses 301, 302, 303 and 307 redirect and need a location; after
  303 a POST, PUT or DELETE becomes a GET, and in every other case the method is kept; every other
  status, 308 included, is the destination.
\<close>

lemma redirect_decision:
  "get_redirect cf c code loc =
     (if code \<notin> {301, 302, 303, 307} then Destination c
      else case loc of
        None \<Rightarrow> Redirect (Err RedirectLocationMissing)
      | Some url \<Rightarrow>
          (case redirect_to cf url (c_request c) of
             (r, Err e) \<Rightarrow> Redirect (Err e)
           | (r, Ok u) \<Rightarrow>
               Redirect (Ok (c\<lparr>c_request := r\<lparr>pr_config := (conn_config c)\<lparr>req_method :=
                 (if code = 303 \<and> req_method (conn_config c) \<in> {Post, Put, Delete} then Get
                  else req_method (conn_config c))\<rparr>\<rparr>\<rparr>))))"
proof (cases loc)
  case (Some url)
  obtain r res where r: "redirect_to cf url (c_request c) = (r, res)" by fastforce
  then have "pr_config r = conn_config c" using redirect_to_config [of cf url "c_request c"] by simp
  then show ?thesis using Some r by (cases res) (auto simp: get_redirect_def Let_def)
qed (auto simp: get_redirect_def)

section \<open>Deadlines, addresses and hosts\<close>

text \<open>
  C13: With a deadline, sending the request and reading the head of the response ends, redirects, proxy
  and TLS included, and in time but for one thing: a name resolution is not interrupted by the timeout.
  What is returned after the deadline is an error, right after such a resolution, and late by no more
  than it takes: the timeout, its own error, or that there is no address. A response is never late.
  When the deadline has passed at the start, the answer is the timeout error and nothing is dialled.
\<close>

theorem send_deadline_kept:
  assumes "c_timeout_at c = Some t" "\<forall>h p s. x_resolve_time x h p s \<le> m" "out \<in> {send x c w, send_https x be c w}"
  shows "fst out \<noteq> Pending
    \<and> (if t < now w then out = (Ready (Err (IoError timeout_err)), w)
       else now (snd out) \<le> t + m
         \<and> (now (snd out) \<le> t \<or> (\<exists>e. fst out = Ready (Err e)
              \<and> (e \<in> {IoError timeout_err, AddressNotFound} \<or> (\<exists>h p io. x_resolve x h p = Err io \<and> e = IoError io)))))"
proof (cases "t < now w")
  case True
  then show ?thesis using send_expired [OF assms(1) True] assms(3) by auto
next
  case False
  have "on_time x t m c" using sends_on_time [OF _ assms(1)] assms(2) by (simp add: resolves_within_def)
  then have "timely x t m out" using False assms(3) by (auto simp: on_time_def)
  then show ?thesis using False send_not_Pending [OF assms(1)] assms(3) by (auto simp: timely_def late_error_def)
qed

text \<open>A resolution of two seconds: a request with a timeout of one second fails after two.\<close>

theorem send_deadline_kept_witness:
  "let w' = snd (send ((example_ext [])\<lparr>x_resolve_time := (\<lambda>h p s. 2000000000)\<rparr>) small_connection example_world)
   in 1000000000 < now w' \<and> now w' \<le> 3000000000"
proof -
  let ?x = "(example_ext [])\<lparr>x_resolve_time := (\<lambda>h p s. 2000000000)\<rparr>"
  have "is_ascii (str ''h'')" by (simp add: str_def)
  then have "send ?x small_connection example_world =
      (Ready (Err (IoError timeout_err)), example_world\<lparr>now := resolved_at ?x small_connection example_world\<rparr>)"
    by (intro late_resolution [where d = 1000000000]) (simp_all add: resolved_at_def small_request_simps)
  then show ?thesis
    using send_deadline_kept [of small_connection 1000000000 ?x 2000000000 "send ?x small_connection example_world" example_world Rustls]
    by (simp add: resolved_at_def)
qed

text \<open>
  C23: Without a deadline, connecting tries the resolved addresses in order and returns the first
  connection that succeeds, or the error of the last one; without an address it is
  \<open>AddressNotFound\<close>.
\<close>

theorem first_address_wins:
  assumes "c_timeout_at c = None" "x_resolve x h p = Ok addrs" "answers x (length (dialled w)) addrs rs"
  shows "fst (tcp_connect x c h p w) =
    Ready (if rs = [] then Err AddressNotFound
           else case find is_ok rs of Some r \<Rightarrow> map_err IoError r | None \<Rightarrow> map_err IoError (last rs))"
proof -
  have "pick rs = (case find is_ok rs of Some r \<Rightarrow> r | None \<Rightarrow> last rs)" if "rs \<noteq> []"
    using that by (induction rs rule: pick.induct) (auto split: option.split)
  moreover have "addrs = [] \<longleftrightarrow> rs = []" using assms(3) by (auto simp: answers_def)
  ultimately show ?thesis
    using try_addrs_pick [OF assms(1), of addrs x "w\<lparr>now := now w + x_resolve_time x h p (now w)\<rparr>" rs] assms(2,3)
    by (cases "rs = []") (auto simp: tcp_connect_def split: option.split)
qed

theorem first_address_wins_witness:
  "fst (tcp_connect ((example_ext [])\<lparr>x_resolve := (\<lambda>h p. Ok [1, 2, 3]),
       x_dial := (\<lambda>a k. Some (1, if a = 1 then Err timeout_err else Ok (example_tcp [])))\<rparr>)
     (small_connection\<lparr>c_timeout_at := None\<rparr>) (str ''h'') 80 example_world) = Ready (Ok (example_tcp []))"
proof -
  let ?x = "(example_ext [])\<lparr>x_resolve := (\<lambda>h p. Ok [1, 2, 3]),
       x_dial := (\<lambda>a k. Some (1, if a = 1 then Err timeout_err else Ok (example_tcp [])))\<rparr>"
  have "answers ?x 0 [1, 2, 3] [Err timeout_err, Ok (example_tcp []), Ok (example_tcp [])]"
    by (simp add: answers_Cons) (simp add: answers_def)
  then show ?thesis
    using first_address_wins [of "small_connection\<lparr>c_timeout_at := None\<rparr>" ?x "str ''h''" 80 "[1, 2, 3]" example_world]
    by simp
qed

text \<open>
  C24: \<open>ensure_ascii_host\<close> fails exactly when it has to. A host it accepts is ASCII already or the
  feature is enabled; the result is ASCII and has the same labels, those that were not ASCII in the
  form \<open>xn--\<close> that the encoder gives for them. A host it refuses is not ASCII, and the feature is
  missing or a label has no such form.
\<close>

theorem ascii_host:
  assumes "ascii_encoder enc"
  shows "case ensure_ascii_host cf enc h of
      Ok h' \<Rightarrow> (is_ascii h \<or> feat_punycode cf) \<and> is_ascii h'
        \<and> list_all2 (\<lambda>l l'. if is_ascii l then l' = l else \<exists>p. enc l = Ok p \<and> l' = str ''xn--'' @ p)
            (split_char (ch CHR ''.'') h) (split_char (ch CHR ''.'') h')
    | Err e \<Rightarrow> \<not> is_ascii h \<and>
        (if feat_punycode cf
         then (\<exists>l\<in>set (split_char (ch CHR ''.'') h). \<not> is_ascii l \<and> \<not> is_ok (enc l)) \<and> e = PunycodeConversionFailed
         else e = PunycodeFeatureNotEnabled)"
proof (cases "ensure_ascii_host cf enc h")
  case (Ok h')
  have "list_all2 (\<lambda>l l'. ascii_label enc l = Some l') (split_char 46 h) (split_char 46 h')"
    using ensure_ascii_host_Ok(2) [OF Ok assms] by (simp add: list.rel_map list.rel_eq [symmetric])
  then have "list_all2 (\<lambda>l l'. if is_ascii l then l' = l else \<exists>p. enc l = Ok p \<and> l' = str ''xn--'' @ p)
      (split_char 46 h) (split_char 46 h')"
    by (rule list_all2_mono) (auto simp: ascii_label_def split: if_splits result.splits)
  then show ?thesis using ensure_ascii_host_Ok(1,3) [OF Ok assms] Ok by simp
next
  case (Err e)
  then show ?thesis using iffD1 [OF ensure_ascii_host_Err Err] by simp
qed

theorem ascii_host_witness:
  "case ensure_ascii_host (plain_cfg\<lparr>feat_punycode := True\<rparr>) (\<lambda>s. Ok (str ''tda'')) [252, 46, 100] of
      Ok h' \<Rightarrow> is_ascii h' \<and> split_char 46 h' = [str ''xn--tda'', str ''d'']
    | Err e \<Rightarrow> False"
proof -
  have e: "ascii_encoder (\<lambda>s. Ok (str ''tda''))" by (simp add: ascii_encoder_def str_def)
  show ?thesis
    using ascii_host [OF e, where cf = "plain_cfg\<lparr>feat_punycode := True\<rparr>" and h = "[252, 46, 100]"]
    by (cases "ensure_ascii_host (plain_cfg\<lparr>feat_punycode := True\<rparr>) (\<lambda>s. Ok (str ''tda'')) [252, 46, 100]")
      (auto simp: str_def list_all2_Cons1)
qed

section \<open>Writing\<close>

text \<open>
  What is sent of a request is what one \<open>try_write\<close> takes: when the socket takes only part of
  it, the rest is never sent, and the response is awaited all the same.
\<close>

lemma partial_write_ignored:
  assumes "reaches x c w n tcp"
  shows "\<exists>w'. exchange_http x c w = (read_head x c (Unsecured (tcp_incoming tcp) (c_timeout_at c)), w')
    \<and> requests w' = requests w @ [take n (as_bytes (x_iter x) (c_request c))]"
  using exchange_http_reaches [OF assms] by metis

section \<open>Proxies and TLS\<close>

text \<open>
  C26: Through a proxy, the CONNECT request is written whole, and the second word of the first line
  of the answer decides, although the buffer it is read into is padded with zero bytes: 200 opens
  the tunnel and what follows the answer is left to read, 401 and 407 mean wrong credentials,
  anything else a bad proxy.
\<close>

theorem proxy_answer:
  assumes "write_all (tcp_writes tcp) (into_bytes (proxy_connect (x_b64 x) p (c_request c))) = (Ready (Ok ()), out, ws)"
    and "tcp_incoming tcp = Chunk (into_bytes (l @ [CR, LF] @ r)) # es"
    and "length (into_bytes (l @ [CR, LF] @ r)) < 256" "\<forall>c\<in>set (l @ r). is_scalar c" "LF \<notin> set l"
  shows "proxy_exchange x c p tcp w =
    (Ready (case split_whitespace l of
       version # code # rest \<Rightarrow>
         if code = str ''200'' then Ok (tcp\<lparr>tcp_writes := ws, tcp_incoming := es\<rparr>)
         else if code \<in> {str ''401'', str ''407''} then Err InvalidProxyCreds else Err BadProxy
     | _ \<Rightarrow> Err BadProxy),
     w\<lparr>connects := connects w @ [into_bytes (proxy_connect (x_b64 x) p (c_request c))]\<rparr>)"
proof -
  have "tcp_incoming tcp = Chunk (into_bytes (l @ [13, 10] @ r)) # es" "length (into_bytes (l @ [13, 10] @ r)) < 256"
    "10 \<notin> set l" using assms(2,3,5) by simp_all
  from proxy_exchange_answer [OF assms(1) this(1,2) assms(4) this(3), of w] show ?thesis
    by (simp add: proxy_verdict_def del: into_bytes_simps split: list.split)
qed

theorem proxy_answer_witness:
  "\<exists>w'. proxy_exchange (example_ext []) small_connection example_proxy
      \<lparr>tcp_writes = [Wrote 10000], tcp_incoming = [Chunk (into_bytes (str ''HTTP/1.1 407 no'' @ [CR, LF]))], tcp_latency = 0\<rparr>
      example_world = (Ready (Err InvalidProxyCreds), w')"
proof -
  let ?l = "str ''HTTP/1.1 407 no''" and ?p = "into_bytes (proxy_connect (\<lambda>b. []) example_proxy (c_request small_connection))"
  let ?tcp = "\<lparr>tcp_writes = [Wrote 10000], tcp_incoming = [Chunk (into_bytes (?l @ [CR, LF]))], tcp_latency = 0\<rparr>"
  have "length ?p = 54"
    by (simp add: proxy_connect_def str_def show_nat.simps encode_utf8_def)
  then obtain b bs where "?p = b # bs" "length (b # bs) = 54" by (cases ?p) auto
  then have w: "write_all (tcp_writes ?tcp) ?p = (Ready (Ok ()), ?p, [])" by simp
  have "length (into_bytes (?l @ [CR, LF] @ [])) < 256" by (simp add: str_def encode_utf8_def)
  moreover have "\<forall>c\<in>set (?l @ []). is_scalar c" "LF \<notin> set ?l" by (simp_all add: str_def is_scalar_def)
  moreover have "split_whitespace ?l = [str ''HTTP/1.1'', str ''407'', str ''no'']"
    by (simp add: str_def is_whitespace_def)
  ultimately show ?thesis
    using proxy_answer [of ?tcp "example_ext []" example_proxy small_connection ?p "[]" ?l "[]" "[]" example_world] w
    by (simp add: str_def del: into_bytes_simps)
qed

text \<open>
  C40: No HTTPS request returns a response: reading from a TLS stream is not implemented and
  panics, so every attempt ends in a panic, an error or never.
\<close>

theorem https_never_responds: "fst (send_https x be c w) \<noteq> Ready (Ok r)"
  by (rule send_https_no_response)

text \<open>
  C27: The roots that \<open>rustls\<close> trusts are settled by the first request: every use of the
  configuration in the life of a process gets the same one, computed from the manual roots that were
  set first and before that use. In a build with manual roots it trusts exactly those, and a missing
  or invalid root is a panic; otherwise it trusts the compiled-in roots and, with the probe, the valid
  ones of the system.
\<close>

theorem rustls_roots_settled:
  assumes "tls_run cf rs statics_start es st" "UseConfig config \<in> set es"
  shows "use_config cf rs st = Ready (config, st)
    \<and> \<not> cc_client_auth config
    \<and> (case first_roots (before_use es) of
         Some certs \<Rightarrow> feat_manual_roots cf \<longrightarrow>
           (\<forall>c\<in>set certs. is_ok (rs_anchor rs c)) \<and> cc_roots config = accepted rs certs
       | None \<Rightarrow> \<not> feat_manual_roots cf)
    \<and> (\<not> feat_manual_roots cf \<longrightarrow>
         cc_roots config = rs_server_roots rs @ (if feat_rustls_probe cf then accepted rs (rs_native_certs rs) else []))"
proof -
  have "tls_inv cf rs es st" using assms(1) by (rule tls_run_inv)
  then have c: "CONFIG st = Some config" "config_init cf rs (first_roots (before_use es)) = Ready config"
    using assms(2) by (auto simp: tls_inv_def)
  then show ?thesis by (auto simp: use_config_def config_init_eq split: option.splits if_splits)
qed

abbreviation example_roots :: root_sources where
  "example_roots \<equiv> \<lparr>rs_anchor = (\<lambda>c. if c = [] then Err [] else Ok c), rs_server_roots = [[9]], rs_native_certs = [[], [8]]\<rparr>"

theorem rustls_roots_settled_witness:
  "\<exists>st. tls_run (plain_cfg\<lparr>feat_manual_roots := True\<rparr>) example_roots statics_start
       [SetRoots [[1], [2]], SetRoots [[3]], UseConfig \<lparr>cc_roots = [[1], [2]], cc_client_auth = False\<rparr>, SetRoots [[4]]] st
     \<and> use_config (plain_cfg\<lparr>feat_manual_roots := True\<rparr>) example_roots st
         = Ready (\<lparr>cc_roots = [[1], [2]], cc_client_auth = False\<rparr>, st)"
proof -
  let ?cf = "plain_cfg\<lparr>feat_manual_roots := True\<rparr>" and ?c = "\<lparr>cc_roots = [[1], [2]], cc_client_auth = False\<rparr>"
  let ?s1 = "\<lparr>MANUAL_ROOTS = Some [[1], [2]], CONFIG = None\<rparr>"
  have "tls_run ?cf example_roots statics_start [SetRoots [[1], [2]]] ?s1"
    using tls_run.step [OF tls_run.start tls_step.set_roots, of ?cf example_roots statics_start "[[1], [2]]"]
    by (simp add: statics_start_def set_manual_roots_def)
  from tls_run.step [OF this tls_step.set_roots, of "[[3]]"]
  have "tls_run ?cf example_roots statics_start [SetRoots [[1], [2]], SetRoots [[3]]] ?s1"
    by (simp add: set_manual_roots_def)
  moreover have "use_config ?cf example_roots ?s1 = Ready (?c, ?s1\<lparr>CONFIG := Some ?c\<rparr>)"
    by (simp add: use_config_def config_init_eq)
  ultimately have "tls_run ?cf example_roots statics_start [SetRoots [[1], [2]], SetRoots [[3]], UseConfig ?c]
      (?s1\<lparr>CONFIG := Some ?c\<rparr>)"
    using tls_run.step [OF _ tls_step.use] by fastforce
  from tls_run.step [OF this tls_step.set_roots, of "[[4]]"]
  have r: "tls_run ?cf example_roots statics_start [SetRoots [[1], [2]], SetRoots [[3]], UseConfig ?c, SetRoots [[4]]]
      (?s1\<lparr>CONFIG := Some ?c\<rparr>)"
    by (simp add: set_manual_roots_def)
  show ?thesis using rustls_roots_settled [OF r, of ?c] r by auto
qed

text \<open>
  C28: In a build with manual roots every HTTPS request panics before anything is dialled: the function
  that sets the roots is in a module the crate does not re-export, so a program cannot have called it.
\<close>

theorem manual_roots_unreachable:
  assumes "feat_manual_roots (x_cfg x)" "tls_run (x_cfg x) (x_roots x) statics_start es (tls_state w)"
    and "\<forall>certs. SetRoots certs \<in> set es \<longrightarrow> M_connection \<in> set (reexports (x_cfg x))"
    and "timeout w c = Ok limit" "with_ascii_host x c = Ok ca" "x_server_name x (host (conn_url ca)) = Ok ()"
  shows "send_https x Rustls c w = (Panicked, w)"
proof -
  have "list_all (public_event (x_cfg x)) es"
    using assms(3) by (auto simp: list_all_iff public_event_def split: tls_event.split)
  then show ?thesis using send_https_config_panics [OF assms(4-6)] public_manual_roots_panic [OF assms(1,2)] by blast
qed

theorem manual_roots_unreachable_witness:
  "send_https ((example_ext [])\<lparr>x_cfg := plain_cfg\<lparr>feat_manual_roots := True, feat_tls := Some Rustls\<rparr>\<rparr>)
     Rustls small_connection example_world = (Panicked, example_world)"
proof (rule manual_roots_unreachable [where es = "[]" and limit = "Some 1000000000" and ca = small_connection])
  show "tls_run (x_cfg ((example_ext [])\<lparr>x_cfg := plain_cfg\<lparr>feat_manual_roots := True, feat_tls := Some Rustls\<rparr>\<rparr>))
      (x_roots ((example_ext [])\<lparr>x_cfg := plain_cfg\<lparr>feat_manual_roots := True, feat_tls := Some Rustls\<rparr>\<rparr>))
      statics_start [] (tls_state example_world)"
    by (simp add: tls_run.start)
qed (simp_all add: timeout_def timeout_at_to_duration_def with_ascii_host_def ensure_ascii_host_def str_def)

text \<open>
  C29: The two ways of limiting TLS versions, the bounds of recent OpenSSL and the options of older
  versions, are against the same versions, those outside the requested range, whatever the context
  had before. They differ in what they leave alone: the bounds add to the options that are set already,
  the options replace all that concern a version, among them those \<open>SslConnector::builder\<close> sets.
\<close>

theorem protocol_limits_agree:
  assumes "supported_protocols_min_max fails lo hi ctx = Ready (Ok c1)" "supported_protocols_options lo hi ctx = Ready (Ok c2)"
  shows "(off_option v \<in> ctx_options c2 \<longleftrightarrow>
        (\<exists>m. ctx_min c1 = Some m \<and> version_protocol v < version_protocol m)
        \<or> (\<exists>m. ctx_max c1 = Some m \<and> version_protocol m < version_protocol v))
    \<and> (off_option v \<in> ctx_options c2 \<longleftrightarrow> \<not> within lo hi v) \<and> (NO_SSLV2 \<in> ctx_options c2 \<longleftrightarrow> lo \<noteq> None)
    \<and> ctx_options c1 = ctx_options ctx \<and> ctx_options c2 - no_ssl_mask = ctx_options ctx - no_ssl_mask
    \<and> ctx_min c2 = ctx_min ctx \<and> ctx_max c2 = ctx_max ctx"
  using min_max.limits [OF assms(1), of v] ssl_opts.limits [OF assms(2), of v]
    supported_protocols_min_max_frame [OF assms(1)] supported_protocols_options_frame [OF assms(2)]
  by (simp add: out_of_bounds_def switched_off_def)

abbreviation fresh_context :: ssl_context where
  "fresh_context \<equiv> \<lparr>ctx_min = None, ctx_max = None, ctx_options = {NO_SSLV2, NO_SSLV3, OtherOption 1}, ctx_certificate = None,
     ctx_private_key = None, ctx_extra_chain = [], ctx_store = \<lparr>st_locations = [(None, Some [1])], st_certs = []\<rparr>\<rparr>"

text \<open>Without a lower bound the second way opens SSLv3, which a fresh context has switched off.\<close>

theorem protocol_limits_agree_witness:
  "\<exists>c1 c2. supported_protocols_min_max (\<lambda>c. None) None (Some Tlsv11) fresh_context = Ready (Ok c1)
     \<and> supported_protocols_options None (Some Tlsv11) fresh_context = Ready (Ok c2)
     \<and> NO_SSLV3 \<in> ctx_options c1 \<and> NO_SSLV3 \<notin> ctx_options c2 \<and> NO_TLSV1_2 \<in> ctx_options c2"
proof -
  obtain c1 c2 where c: "supported_protocols_min_max (\<lambda>c. None) None (Some Tlsv11) fresh_context = Ready (Ok c1)"
    "supported_protocols_options None (Some Tlsv11) fresh_context = Ready (Ok c2)"
    by (simp add: supported_protocols_min_max_def map_cvt_def call_def supported_protocols_options_def min_options_def max_options_def)
  then show ?thesis
    using protocol_limits_agree [OF c, of SSL3] protocol_limits_agree [OF c, of TLS1_2]
    by (auto simp: within_def less_eq_protocol_def protocol_rank_def)
qed

text \<open>
  C30: A connector built with the defaults asks for TLS 1.0 or later, with no upper limit, in both
  builds: by the lower bound alone, or by the options against SSLv2 and SSLv3, and against no other version.
  A handshake with it uses SNI, checks the host name and does not switch off verification.
\<close>

theorem default_connector_secure:
  assumes "connector_default cf probe android fails ctx0 = Ready (Ok tc)"
  shows "(if have_min_max_version cf
      then ctx_min (tc_context tc) = Some TLS1 \<and> ctx_max (tc_context tc) = None \<and> ctx_options (tc_context tc) = ctx_options ctx0
      else ctx_options (tc_context tc) = ctx_options ctx0 - {NO_TLSV1, NO_TLSV1_1, NO_TLSV1_2} \<union> {NO_SSLV2, NO_SSLV3}
        \<and> ctx_min (tc_context tc) = ctx_min ctx0 \<and> ctx_max (tc_context tc) = ctx_max ctx0)
    \<and> tls_connect fails ssl_connect tc domain stream =
        (case fails Configure of
           Some e \<Rightarrow> Err (HandshakeFailure (Normal e))
         | None \<Rightarrow> map_err handshake_error_from (ssl_connect
             \<lparr>sc_context = tc_context tc, sc_sni = True, sc_verify_hostname = True, sc_verify_none = False\<rparr> domain stream))"
proof -
  have n: "connector_new cf probe android fails ctx0 builder = Ready (Ok tc)"
    using assms by (simp add: connector_default_def connector_build_Ok)
  then obtain ctx1 ctx2 where sp: "supported_protocols cf fails (Some Tlsv10) None ctx1 = Ready (Ok ctx2)"
    and c: "ctx_min ctx1 = ctx_min ctx0" "ctx_max ctx1 = ctx_max ctx0" "ctx_options ctx1 = ctx_options ctx0"
      "ctx_min (tc_context tc) = ctx_min ctx2" "ctx_max (tc_context tc) = ctx_max ctx2"
      "ctx_options (tc_context tc) = ctx_options ctx2"
    by (rule connector_versions) (auto simp: builder_def)
  have "(ctx_options ctx0 - no_ssl_mask) \<union> {NO_SSLV2, NO_SSLV3}
      = ctx_options ctx0 - {NO_TLSV1, NO_TLSV1_1, NO_TLSV1_2} \<union> {NO_SSLV2, NO_SSLV3}" by (auto simp: no_ssl_mask_def)
  then show ?thesis using sp c connector_flags [OF n]
    by (auto simp: supported_protocols_def supported_protocols_min_max_def supported_protocols_options_def map_cvt_def
        min_options_def max_options_def call_Ok tls_connect_def builder_def split: option.splits result.splits if_splits)
qed

theorem default_connector_secure_witness:
  "\<exists>tc. connector_default plain_cfg (Some (None, None)) None (\<lambda>c. None) fresh_context = Ready (Ok tc)
    \<and> ctx_min (tc_context tc) = Some TLS1 \<and> ctx_max (tc_context tc) = None"
proof -
  obtain tc where tc: "connector_default plain_cfg (Some (None, None)) None (\<lambda>c. None) fresh_context = Ready (Ok tc)"
    by (simp add: connector_default_def connector_build_def connector_new_def builder_def set_identity_def set_roots_def
        load_verify_locations_def call_def supported_protocols_def supported_protocols_min_max_def map_cvt_def)
  then show ?thesis
    using default_connector_secure [OF tc, where ssl_connect = "\<lambda>c d s. Ok s" and domain = "[]" and stream = "()"]
    by simp
qed



section \<open>The example that prints a body\<close>

text \<open>
  C33: \<open>examples/iterator.rs\<close> prints and collects a delimited body completely when the body is ASCII,
  however it is cut into pieces. In general it prints the body up to a piece that is not UTF-8 by
  itself, and panics there.
\<close>

theorem iterator_prints_body:
  assumes "lz_state r = EndOnClose \<and> closes (events (lz_stream r)) \<or> lz_state r = ContentLength (length (body_avail r))"
    and "is_unsecured (lz_stream r)"
  shows "(\<exists>out. iterator_loop b r [] [] = (Ready (Ok ()), out, body_avail r) \<and> into_bytes out = body_avail r)
    \<or> (\<exists>out pre piece rest. iterator_loop b r [] [] = (Panicked, out, pre) \<and> into_bytes out = pre
        \<and> body_avail r = pre @ piece @ rest \<and> \<not> is_ok (from_utf8 piece) \<and> (\<exists>byte\<in>set piece. 128 \<le> byte))"
proof -
  have d: "until_closed r \<or> within_length r" using assms by (auto simp: until_closed_def within_length_def)
  obtain res out buf where l: "iterator_loop b r [] [] = (res, out, buf)" using prod_cases3 by blast
  have "\<exists>byte\<in>set piece. 128 \<le> byte" if "\<not> is_ok (from_utf8 piece)" for piece
    using from_utf8_ascii [of piece] that by (meson not_le_imp_less)
  then show ?thesis using iterator_delivers [OF d, of b] l by (auto simp: iterates_def)
qed

theorem iterator_prints_body_witness:
  "\<exists>out. iterator_loop Debug (example_lazy (Unsecured [Chunk [105]] None) (ContentLength 2) (Some [104])) [] []
    = (Ready (Ok ()), out, [104, 105]) \<and> into_bytes out = [104, 105]"
proof -
  let ?r = "example_lazy (Unsecured [Chunk [105]] None) (ContentLength 2) (Some [104])"
  have b: "body_avail ?r = [104, 105]" by (simp add: body_avail_def avail_def)
  have "\<not> 128 \<le> byte" if "[104, 105] = pre @ piece @ rest" "byte \<in> set piece" for pre piece rest and byte :: u8
  proof -
    have "byte \<in> set [104, 105]" unfolding that(1) using that(2) by simp
    then show ?thesis by auto
  qed
  then show ?thesis using iterator_prints_body [of ?r Debug] unfolding b by fastforce
qed

text \<open>A character of two bytes that arrives in two pieces: the text is valid, and the program panics.\<close>

lemma iterator_split_character:
  "is_ok (from_utf8 [0xC3, 0xB3]) \<and>
   fst (iterator_loop Debug (example_lazy (Unsecured [Chunk [0xC3], Chunk [0xB3]] None) (ContentLength 2) None) [] []) = Panicked"
proof -
  have "from_utf8 [0xC3, 0xB3] = Ok [0xF3]"
    by (simp add: from_utf8_Ok_iff encode_utf8_def byte_def is_scalar_def)
  moreover have "\<not> is_ok (from_utf8 [0xC3])"
    by (simp add: from_utf8_def from_utf8_at.simps)
  then obtain e where "from_utf8 [0xC3] = Err e" by (cases "from_utf8 [0xC3]") auto
  ultimately show ?thesis
    by (simp add: iterator_loop.simps lazy_next_unfold lazy_next_content_length no_prefix_def)
qed

end
